(* ===== verification/Py_Prelude.thy ===== *)
theory Py_Prelude imports Main "HOL-Library.Sublist" begin

section \<open>Python results, strings and formatting\<close>

text \<open>
  What every component shares: exceptions as values, the sequencing of fallible steps, the
  loops that stop at the first exception, and the fragment of Python's string library the
  sources use (slices, \<open>split\<close>, \<open>join\<close>, \<open>in\<close>, \<open>lower\<close>, \<open>upper\<close>, \<open>isdigit\<close>, \<open>int\<close> and the
  formatting operator \<open>%\<close> with \<open>%s\<close> slots).  A Python string is a list of 8-bit characters;
  the case functions act on the ASCII letters.  The collection \<open>py_simps\<close> holds the equations
  that evaluate fallible steps.
\<close>

named_theorems py_simps
named_theorems res_intros

subsection \<open>Exceptions and results\<close>

text \<open>
  \<open>IOError\<close> is an alias of \<open>OSError\<close> in Python 3.  \<open>YAMLError\<close> stands for the parser's own
  exceptions and \<open>SystemExit n\<close> for \<open>sys.exit(n)\<close>.
\<close>

datatype pyerr =
    KeyError | TypeError | AttributeError | IndexError | ValueError | OSError
  | EOFError | KeyboardInterrupt | UnboundLocalError | RecursionError | AssertionError
  | YAMLError | SystemExit int

type_synonym 'a res = "pyerr + 'a"

definition res_bind :: "'a res \<Rightarrow> ('a \<Rightarrow> 'b res) \<Rightarrow> 'b res" where
  "res_bind m f = (case m of Inl e \<Rightarrow> Inl e | Inr x \<Rightarrow> f x)"

definition res_map :: "('a \<Rightarrow> 'b) \<Rightarrow> 'a res \<Rightarrow> 'b res" where
  "res_map f m = (case m of Inl e \<Rightarrow> Inl e | Inr x \<Rightarrow> Inr (f x))"

text \<open>\<open>try: m  except e: h\<close> for one class of exception.\<close>

definition res_catch :: "pyerr \<Rightarrow> 'a res \<Rightarrow> 'a res \<Rightarrow> 'a res" where
  "res_catch e m h = (case m of Inl e' \<Rightarrow> if e' = e then h else Inl e' | Inr x \<Rightarrow> Inr x)"

lemma res_bind_simps [simp, py_simps]:
  "res_bind (Inl e) f = Inl e" "res_bind (Inr x) f = f x"
  by (simp_all add: res_bind_def)

lemma res_map_simps [simp, py_simps]:
  "res_map f (Inl e) = Inl e" "res_map f (Inr x) = Inr (f x)"
  by (simp_all add: res_map_def)

lemma res_map_ident [simp]: "res_map (\<lambda>x. x) = (\<lambda>m. m)"
  by (rule ext) (simp add: res_map_def split: sum.split)

lemma res_map_id [simp]: "res_map id = id"
  by (simp add: id_def)

lemma res_catch_simps [simp, py_simps]:
  "res_catch e (Inl e') h = (if e' = e then h else Inl e')" "res_catch e (Inr x) h = Inr x"
  by (simp_all add: res_catch_def)

lemma res_bind_cong [fundef_cong]:
  "m = m' \<Longrightarrow> (\<And>x. m' = Inr x \<Longrightarrow> f x = g x) \<Longrightarrow> res_bind m f = res_bind m' g"
  by (cases m') simp_all

lemma res_bind_assoc: "res_bind (res_bind m f) g = res_bind m (\<lambda>x. res_bind (f x) g)"
  by (cases m) simp_all

lemma res_bind_Inr_iff:
  "res_bind m f = Inr y \<longleftrightarrow> (\<exists>x. m = Inr x \<and> f x = Inr y)"
  by (cases m) simp_all

lemma res_bind_Inl_iff:
  "res_bind m f = Inl e \<longleftrightarrow> m = Inl e \<or> (\<exists>x. m = Inr x \<and> f x = Inl e)"
  by (cases m) simp_all

lemma res_map_Inr_iff: "res_map f m = Inr y \<longleftrightarrow> (\<exists>x. m = Inr x \<and> y = f x)"
  by (cases m) auto

lemma res_map_Inl_iff [simp]: "res_map f m = Inl e \<longleftrightarrow> m = Inl e"
  by (cases m) simp_all

lemma res_map_comp: "res_map f (res_map g m) = res_map (f \<circ> g) m"
  by (cases m) simp_all

lemma res_catch_Inr_iff:
  "res_catch e m h = Inr x \<longleftrightarrow> m = Inr x \<or> (m = Inl e \<and> h = Inr x)"
  by (cases m) auto

lemmas res_iffs = res_bind_Inr_iff res_bind_Inl_iff res_map_Inr_iff res_catch_Inr_iff

subsection \<open>Loops that stop at the first exception\<close>

text \<open>\<open>for x in xs: ys.append(f(x))\<close>.\<close>

fun res_mapM :: "('a \<Rightarrow> 'b res) \<Rightarrow> 'a list \<Rightarrow> 'b list res" where
  "res_mapM f [] = Inr []"
| "res_mapM f (x # xs) = res_bind (f x) (\<lambda>y. res_map (Cons y) (res_mapM f xs))"

text \<open>\<open>for x in xs: s = f(s, x)\<close>.\<close>

fun res_foldM :: "('s \<Rightarrow> 'a \<Rightarrow> 's res) \<Rightarrow> 's \<Rightarrow> 'a list \<Rightarrow> 's res" where
  "res_foldM f s [] = Inr s"
| "res_foldM f s (x # xs) = res_bind (f s x) (\<lambda>s'. res_foldM f s' xs)"

lemma res_mapM_cong [fundef_cong]:
  "xs = ys \<Longrightarrow> (\<And>x. x \<in> set ys \<Longrightarrow> f x = g x) \<Longrightarrow> res_mapM f xs = res_mapM g ys"
  by (induction ys arbitrary: xs) auto

lemma res_foldM_cong [fundef_cong]:
  "s = s' \<Longrightarrow> xs = ys \<Longrightarrow> (\<And>t x. x \<in> set ys \<Longrightarrow> f t x = g t x) \<Longrightarrow>
   res_foldM f s xs = res_foldM g s' ys"
  by (induction ys arbitrary: xs s s') (auto intro!: res_bind_cong)

lemma res_mapM_Inr:
  "(\<And>x. x \<in> set xs \<Longrightarrow> f x = Inr (g x)) \<Longrightarrow> res_mapM f xs = Inr (map g xs)"
  by (induction xs) auto

lemma res_mapM_append:
  "res_mapM f (xs @ ys) =
     res_bind (res_mapM f xs) (\<lambda>as. res_map (append as) (res_mapM f ys))"
proof (induction xs)
  case Nil
  show ?case by (cases "res_mapM f ys") simp_all
next
  case (Cons x xs)
  then show ?case
    by (cases "f x"; cases "res_mapM f xs"; cases "res_mapM f ys") simp_all
qed

lemma res_mapM_map: "res_mapM f (map g xs) = res_mapM (\<lambda>x. f (g x)) xs"
  by (induction xs) simp_all

lemma res_mapM_length: "res_mapM f xs = Inr ys \<Longrightarrow> length ys = length xs"
  by (induction xs arbitrary: ys) (auto simp: res_iffs)

lemma res_mapM_Inr_iff:
  "res_mapM f xs = Inr ys \<longleftrightarrow> list_all2 (\<lambda>x y. f x = Inr y) xs ys"
  by (induction xs arbitrary: ys) (auto simp: res_iffs list_all2_Cons1)

lemma res_foldM_append:
  "res_foldM f s (xs @ ys) = res_bind (res_foldM f s xs) (\<lambda>s'. res_foldM f s' ys)"
  by (induction xs arbitrary: s) (simp_all add: res_bind_assoc)

text \<open>A loop that appends text to an accumulator collects the pieces in order.\<close>

lemma res_foldM_concat:
  "(\<And>x. x \<in> set xs \<Longrightarrow> f x = Inr (g x)) \<Longrightarrow>
   res_foldM (\<lambda>acc x. res_map (append acc) (f x)) acc xs = Inr (acc @ concat (map g xs))"
  by (induction xs arbitrary: acc) auto

lemma res_foldM_invariant:
  assumes "res_foldM f s xs = Inr s'" and "P s"
    and "\<And>t x t'. x \<in> set xs \<Longrightarrow> P t \<Longrightarrow> f t x = Inr t' \<Longrightarrow> P t'"
  shows "P s'"
  using assms by (induction xs arbitrary: s) (auto simp: res_iffs)

subsection \<open>Characters\<close>

abbreviation code_of :: "char \<Rightarrow> nat" where
  "code_of \<equiv> of_char"

definition char_lower :: "char \<Rightarrow> char" where
  "char_lower c = (let n = code_of c in if 65 \<le> n \<and> n \<le> 90 then char_of (n + 32) else c)"

definition char_upper :: "char \<Rightarrow> char" where
  "char_upper c = (let n = code_of c in if 97 \<le> n \<and> n \<le> 122 then char_of (n - 32) else c)"

definition is_digit :: "char \<Rightarrow> bool" where
  "is_digit c = (let n = code_of c in 48 \<le> n \<and> n \<le> 57)"

definition is_letter :: "char \<Rightarrow> bool" where
  "is_letter c = (let n = code_of c in (65 \<le> n \<and> n \<le> 90) \<or> (97 \<le> n \<and> n \<le> 122))"

text \<open>The characters \<open>str.split()\<close> separates at, within ASCII.\<close>

definition is_space :: "char \<Rightarrow> bool" where
  "is_space c = (let n = code_of c in n = 32 \<or> (9 \<le> n \<and> n \<le> 13) \<or> (28 \<le> n \<and> n \<le> 31))"

definition py_lower :: "string \<Rightarrow> string" where
  "py_lower s = map char_lower s"

definition py_upper :: "string \<Rightarrow> string" where
  "py_upper s = map char_upper s"

lemma char_lower_idem [simp]: "char_lower (char_lower c) = char_lower c"
  by (auto simp: char_lower_def Let_def)

lemma char_upper_idem [simp]: "char_upper (char_upper c) = char_upper c"
  by (auto simp: char_upper_def Let_def)

lemma py_lower_append [simp]: "py_lower (s @ t) = py_lower s @ py_lower t"
  by (simp add: py_lower_def)

lemma py_upper_append [simp]: "py_upper (s @ t) = py_upper s @ py_upper t"
  by (simp add: py_upper_def)

subsection \<open>Slices, search, split and join\<close>

text \<open>\<open>s[-n:]\<close>, \<open>s[n:]\<close>, \<open>s[:n]\<close>, and \<open>s[-a:-b]\<close> with the clamping of Python.\<close>

definition slice_last :: "nat \<Rightarrow> 'a list \<Rightarrow> 'a list" where
  "slice_last n s = drop (length s - n) s"

definition slice_neg :: "nat \<Rightarrow> nat \<Rightarrow> 'a list \<Rightarrow> 'a list" where
  "slice_neg a b s = drop (length s - a) (take (length s - b) s)"

lemma slice_last_append [simp]: "length t = n \<Longrightarrow> slice_last n (s @ t) = t"
  by (simp add: slice_last_def)

lemma length_slice_neg: "length (slice_neg a b s) \<le> a - b"
  by (simp add: slice_neg_def)

text \<open>\<open>p in s\<close> on strings: a scan for a position where \<open>p\<close> starts.\<close>

fun has_sub :: "string \<Rightarrow> string \<Rightarrow> bool" where
  "has_sub p [] = (p = [])"
| "has_sub p (c # s) = (prefix p (c # s) \<or> has_sub p s)"

lemma has_sub_iff: "has_sub p s \<longleftrightarrow> (\<exists>u v. s = u @ p @ v)"
proof (induction s)
  case Nil
  then show ?case by auto
next
  case (Cons c s)
  show ?case
  proof
    assume "has_sub p (c # s)"
    then consider "prefix p (c # s)" | "has_sub p s" by auto
    then show "\<exists>u v. c # s = u @ p @ v"
    proof cases
      case 1
      then obtain v where "c # s = [] @ p @ v" by (auto simp: prefix_def)
      then show ?thesis by blast
    next
      case 2
      with Cons obtain u v where "s = u @ p @ v" by blast
      then have "c # s = (c # u) @ p @ v" by simp
      then show ?thesis by blast
    qed
  next
    assume "\<exists>u v. c # s = u @ p @ v"
    then obtain u v where eq: "c # s = u @ p @ v" by blast
    show "has_sub p (c # s)"
    proof (cases u)
      case Nil
      with eq have "prefix p (c # s)" by simp
      then show ?thesis by simp
    next
      case (Cons d w)
      with eq have "s = w @ p @ v" by simp
      with Cons.IH show ?thesis by auto
    qed
  qed
qed

lemma has_sub_sublist: "has_sub p s = sublist p s"
  by (simp add: has_sub_iff sublist_def)

lemma has_sub_mid [simp, intro]: "has_sub p (u @ p @ v)"
  by (auto simp: has_sub_iff)

text \<open>\<open>s.split(sep)\<close> for a one-character separator: never the empty list.\<close>

fun split_on :: "char \<Rightarrow> string \<Rightarrow> string list" where
  "split_on d [] = [[]]"
| "split_on d (c # s) =
     (if c = d then [] # split_on d s
      else case split_on d s of [] \<Rightarrow> [[c]] | w # ws \<Rightarrow> (c # w) # ws)"

text \<open>\<open>s.split()\<close>: the maximal runs of non-space characters.\<close>

fun split_ws_aux :: "string \<Rightarrow> string \<Rightarrow> string list" where
  "split_ws_aux cur [] = (if cur = [] then [] else [rev cur])"
| "split_ws_aux cur (c # s) =
     (if is_space c then (if cur = [] then split_ws_aux [] s else rev cur # split_ws_aux [] s)
      else split_ws_aux (c # cur) s)"

definition split_ws :: "string \<Rightarrow> string list" where
  "split_ws s = split_ws_aux [] s"

fun py_join :: "string \<Rightarrow> string list \<Rightarrow> string" where
  "py_join sep [] = []"
| "py_join sep [w] = w"
| "py_join sep (w # ws) = w @ sep @ py_join sep ws"

lemma split_on_nonempty [simp]: "split_on d s \<noteq> []"
  by (induction s) (auto split: list.splits)

lemma split_on_no_sep: "d \<notin> set s \<Longrightarrow> split_on d s = [s]"
  by (induction s) auto

lemma split_on_append:
  "split_on d (s @ d # t) = split_on d s @ split_on d t"
proof (induction s)
  case Nil
  then show ?case by simp
next
  case (Cons c s)
  then show ?case by (cases "split_on d s") auto
qed

lemma last_split_on: "d \<notin> set t \<Longrightarrow> last (split_on d (s @ d # t)) = t"
  by (simp add: split_on_append split_on_no_sep)

lemma split_on_pieces: "w \<in> set (split_on d s) \<Longrightarrow> d \<notin> set w"
  by (induction s arbitrary: w) (auto split: if_splits list.splits)

lemma split_ws_aux_no_space:
  "\<forall>c\<in>set s. \<not> is_space c \<Longrightarrow>
   split_ws_aux cur s = (if cur = [] \<and> s = [] then [] else [rev cur @ s])"
  by (induction s arbitrary: cur) auto

lemma split_ws_word: "s \<noteq> [] \<Longrightarrow> \<forall>c\<in>set s. \<not> is_space c \<Longrightarrow> split_ws s = [s]"
  by (simp add: split_ws_def split_ws_aux_no_space)

subsection \<open>Numbers as text\<close>

definition digit_char :: "nat \<Rightarrow> char" where
  "digit_char d = char_of (48 + d)"

fun nat_str :: "nat \<Rightarrow> string" where
  "nat_str n = (if n < 10 then [digit_char n] else nat_str (n div 10) @ [digit_char (n mod 10)])"

declare nat_str.simps [simp del]

definition int_str :: "int \<Rightarrow> string" where
  "int_str i = (if i < 0 then CHR ''-'' # nat_str (nat (- i)) else nat_str (nat i))"

definition py_isdigit :: "string \<Rightarrow> bool" where
  "py_isdigit s \<longleftrightarrow> s \<noteq> [] \<and> list_all is_digit s"

definition digits_value :: "string \<Rightarrow> nat" where
  "digits_value s = foldl (\<lambda>n c. 10 * n + (code_of c - 48)) 0 s"

lemma digit_char_code: "d < 10 \<Longrightarrow> of_char (digit_char d) = (48 + d :: nat)"
  by (simp add: digit_char_def)

lemma is_digit_digit_char [simp]: "d < 10 \<Longrightarrow> is_digit (digit_char d)"
  by (simp add: is_digit_def digit_char_code Let_def)

lemma nat_str_digits: "nat_str n \<noteq> [] \<and> list_all is_digit (nat_str n)"
proof (induction n rule: nat_str.induct)
  case (1 n)
  then show ?case
    by (subst (1 2) nat_str.simps) (auto simp: less_imp_le_nat)
qed

lemma py_isdigit_nat_str [simp]: "py_isdigit (nat_str n)"
  using nat_str_digits by (simp add: py_isdigit_def)

lemma digits_value_snoc: "digits_value (s @ [c]) = 10 * digits_value s + (code_of c - 48)"
  by (simp add: digits_value_def)

lemma digits_value_nat_str [simp]: "digits_value (nat_str n) = n"
proof (induction n rule: nat_str.induct)
  case (1 n)
  show ?case
  proof (cases "n < 10")
    case True
    then show ?thesis by (subst nat_str.simps) (simp add: digits_value_def digit_char_code)
  next
    case False
    with "1.IH" show ?thesis
      by (subst nat_str.simps) (simp add: digits_value_snoc digit_char_code)
  qed
qed

subsection \<open>The formatting operator\<close>

text \<open>
  \<open>template % (a1, ..., an)\<close>, with the arguments already converted by \<open>str\<close>: \<open>%s\<close> takes the
  next argument, \<open>%%\<close> is a percent sign, any other conversion is a \<open>ValueError\<close> and a wrong
  number of arguments a \<open>TypeError\<close>, found from left to right as Python does.
\<close>

fun py_fmt :: "string \<Rightarrow> string list \<Rightarrow> string res" where
  "py_fmt [] args = (case args of [] \<Rightarrow> Inr [] | _ \<Rightarrow> Inl TypeError)"
| "py_fmt (c # t) args =
     (if c \<noteq> CHR ''%'' then res_map (Cons c) (py_fmt t args)
      else case t of
        [] \<Rightarrow> Inl ValueError
      | d # t' \<Rightarrow>
          (if d = CHR ''s'' then
             (case args of
                [] \<Rightarrow> Inl TypeError
              | a # as \<Rightarrow> res_map (append a) (py_fmt t' as))
           else if d = CHR ''%'' then res_map (Cons d) (py_fmt t' args)
           else Inl ValueError))"

text \<open>The same operator on a template cut at its slots.\<close>

fun fill_slots :: "string list \<Rightarrow> string list \<Rightarrow> string" where
  "fill_slots [] args = []"
| "fill_slots [p] args = p"
| "fill_slots (p # ps) [] = p"
| "fill_slots (p # ps) (a # as) = p @ a @ fill_slots ps as"

lemma py_fmt_plain: "CHR ''%'' \<notin> set p \<Longrightarrow> py_fmt (p @ t) args = res_map (append p) (py_fmt t args)"
proof (induction p)
  case Nil
  show ?case by (cases "py_fmt t args") simp_all
next
  case (Cons c p)
  then show ?case by (cases "py_fmt t args") auto
qed

lemma py_fmt_slot: "py_fmt (CHR ''%'' # CHR ''s'' # t) (a # as) = res_map (append a) (py_fmt t as)"
  by simp

lemma py_fmt_const: "CHR ''%'' \<notin> set p \<Longrightarrow> py_fmt p [] = Inr p"
  using py_fmt_plain [of p "[]" "[]"] by simp

text \<open>A template without any slot but those cut out is filled piece by piece.\<close>

lemma py_fmt_pieces:
  assumes "\<forall>p\<in>set ps. CHR ''%'' \<notin> set p" and "length ps = Suc (length args)"
  shows "py_fmt (py_join ''%s'' ps) args = Inr (fill_slots ps args)"
  using assms
proof (induction ps args rule: fill_slots.induct)
  case (2 p args)
  then show ?case by (simp add: py_fmt_const)
next
  case (4 p q ps a as)
  then have "py_fmt (py_join ''%s'' (q # ps)) as = Inr (fill_slots (q # ps) as)" by simp
  moreover have "py_join ''%s'' (p # q # ps) = p @ CHR ''%'' # CHR ''s'' # py_join ''%s'' (q # ps)"
    by simp
  ultimately show ?case
    using "4.prems" by (simp only: py_fmt_plain py_fmt_slot) (simp add: py_fmt_plain)
qed simp_all

subsection \<open>First occurrences\<close>

text \<open>Keep the first element of every class of \<open>f\<close>, in order.\<close>

fun first_by :: "('a \<Rightarrow> 'b) \<Rightarrow> 'a list \<Rightarrow> 'a list" where
  "first_by f [] = []"
| "first_by f (x # xs) = x # filter (\<lambda>y. f y \<noteq> f x) (first_by f xs)"

lemma set_first_by: "set (first_by f xs) \<subseteq> set xs"
  by (induction xs) auto

lemma image_first_by [simp]: "f ` set (first_by f xs) = f ` set xs"
proof (induction xs)
  case (Cons x xs)
  have "f ` set (first_by f (x # xs)) = insert (f x) (f ` set (first_by f xs))"
    by auto
  with Cons show ?case by simp
qed simp

lemma distinct_first_by [simp]: "distinct (map f (first_by f xs))"
  by (induction xs) (auto simp: distinct_map inj_on_filter_key_eq intro: inj_on_subset)

lemma first_by_filter_comm: "first_by f (filter (\<lambda>y. P (f y)) xs) = filter (\<lambda>y. P (f y)) (first_by f xs)"
  by (induction xs) (auto simp: filter_filter conj_commute intro!: filter_cong)

lemma first_by_snoc:
  "first_by f (xs @ [x]) = (if f x \<in> f ` set xs then first_by f xs else first_by f xs @ [x])"
  by (induction xs) (auto simp: image_iff)

lemma first_by_eq_Nil [simp]: "first_by f xs = [] \<longleftrightarrow> xs = []"
  by (cases xs) auto

end
