(* ===== verification/Cellift_Scenarios.thy ===== *)
theory Cellift_Scenarios imports Py_Prelude begin

section \<open>The taint scenarios\<close>

text \<open>
  \<open>cellift/scenarios.py\<close>: the search of simulation traces for tainted signals, and the reports it
  prints.  A trace is what the VCD reader gives: the signals in the order of
  \<open>references_to_ids\<close>, each with its list of times and values, a value being a string of digits.
\<close>

type_synonym signal = "string \<times> (int \<times> string) list"

subsection \<open>Scans for one flag\<close>

text \<open>\<open>for mychar in tvpair[1]: if ...: flag = True; break\<close>.\<close>

fun scan_value :: "(char \<Rightarrow> bool) \<Rightarrow> bool \<Rightarrow> string \<Rightarrow> bool" where
  "scan_value p flag [] = flag"
| "scan_value p flag (c # cs) = (if p c then True else scan_value p flag cs)"

fun scan_tv :: "(char \<Rightarrow> bool) \<Rightarrow> bool \<Rightarrow> (int \<times> string) list \<Rightarrow> bool" where
  "scan_tv p flag [] = flag"
| "scan_tv p flag ((t, v) # tv) = (let flag' = scan_value p flag v in if flag' then flag' else scan_tv p flag' tv)"

fun scan_signals :: "(string \<Rightarrow> bool) \<Rightarrow> (char \<Rightarrow> bool) \<Rightarrow> bool \<Rightarrow> signal list \<Rightarrow> bool" where
  "scan_signals sel p flag [] = flag"
| "scan_signals sel p flag ((n, tv) # sigs) =
     scan_signals sel p (if \<not> flag \<and> sel n then scan_tv p flag tv else flag) sigs"

definition tainted :: "char \<Rightarrow> bool" where
  "tainted c \<longleftrightarrow> c \<noteq> CHR ''0''"

definition untainted :: "char \<Rightarrow> bool" where
  "untainted c \<longleftrightarrow> c = CHR ''0''"

subsection \<open>The experiments\<close>

definition is_gpio :: "string \<Rightarrow> bool" where
  "is_gpio n \<longleftrightarrow> has_sub ''gpio'' n \<and> has_sub ''_t0'' n"

definition is_spi :: "string \<Rightarrow> bool" where
  "is_spi n \<longleftrightarrow> has_sub ''udma'' n \<and> has_sub ''spim'' n \<and> has_sub ''_t0'' n"

definition is_socctrl :: "string \<Rightarrow> bool" where
  "is_socctrl n \<longleftrightarrow> has_sub ''soc'' n \<and> has_sub ''ctrl'' n \<and> has_sub ''_t0'' n"

definition is_regfile :: "string \<Rightarrow> bool" where
  "is_regfile n \<longleftrightarrow> has_sub ''id_stage'' n \<and> has_sub ''registers'' n \<and> has_sub ''mem_t0'' n"

definition is_irq_mask :: "string \<Rightarrow> bool" where
  "is_irq_mask n \<longleftrightarrow> has_sub ''fc_eu_i'' n \<and> has_sub ''mask'' n \<and> has_sub ''_t0'' n"

definition report_bug1 :: string where
  "report_bug1 = ''Bug 1 detected:  SPI and GPIO are tainted with the same store operation.''"

definition report_bug6 :: string where
  "report_bug6 = ''Bug 6 detected:  SoC control and GPIO (APB) are tainted with the same store operation.''"

definition report_bug8 :: string where
  "report_bug8 = ''Bug 8 detected:  SoC control and SPI and GPIO are tainted with the same store operation.''"

definition bug1_6_8 :: "signal list \<Rightarrow> string list" where
  "bug1_6_8 sigs =
     (let gpio = scan_signals is_gpio tainted False sigs;
          spi = scan_signals is_spi tainted False sigs;
          socctrl = scan_signals is_socctrl tainted False sigs
      in (if spi \<and> gpio then [report_bug1] else []) @
         (if socctrl \<and> gpio then [report_bug6] else []) @
         (if spi \<and> socctrl \<and> gpio then [report_bug8] else []))"

definition bug22 :: "signal list \<Rightarrow> string list" where
  "bug22 sigs =
     (if scan_signals is_regfile tainted False sigs then [''Bug 22 detected: ROM was smaller than expected.''] else [])"

definition bug4 :: "signal list \<Rightarrow> string list" where
  "bug4 sigs =
     (if scan_signals (has_sub ''gpio_lock_t0'') tainted False sigs
      then [''Bug 4 detected:  GPIO lock has been written to by software.''] else [])"

definition bug27 :: "signal list \<Rightarrow> string list" where
  "bug27 sigs =
     (if scan_signals is_irq_mask tainted False sigs
      then [''Bug 27 detected: Interrupt mask written from user mode.''] else [])"

definition bug5 :: "signal list \<Rightarrow> string list" where
  "bug5 sigs =
     (if scan_signals (has_sub ''gpio_lock_t0'') untainted False sigs
      then [''Bug 5 detected:  GPIO lock has been reset.''] else [])"

subsection \<open>Taint times\<close>

text \<open>
  The string \<open>'cs_registers_i'\<close> in the condition is not compared with anything and is always true;
  \<open>not candidate_csr_taint_time\<close> holds of \<open>None\<close> and of the time 0.
\<close>

definition is_csr :: "string \<Rightarrow> bool" where
  "is_csr n \<longleftrightarrow> has_sub ''q_t0'' n \<and>
     (has_sub ''mstatus'' n \<or> has_sub ''mcause'' n \<or> has_sub ''utvec_o'' n \<or> has_sub ''ucause_q'' n)"

fun time_value :: "int \<Rightarrow> int option \<times> bool \<Rightarrow> string \<Rightarrow> int option \<times> bool" where
  "time_value t st [] = st"
| "time_value t (cand, ok) (c # cs) =
     time_value t
       (if c \<noteq> CHR ''0'' then
          (case cand of None \<Rightarrow> (Some t, ok) | Some t' \<Rightarrow> (cand, if t \<noteq> t' then False else ok))
        else (cand, ok)) cs"

fun time_tv :: "int option \<times> bool \<Rightarrow> (int \<times> string) list \<Rightarrow> int option \<times> bool" where
  "time_tv st [] = st"
| "time_tv st ((t, v) # tv) = (let st' = time_value t st v in if \<not> snd st' then st' else time_tv st' tv)"

fun time_signals :: "int option \<times> bool \<Rightarrow> signal list \<Rightarrow> int option \<times> bool" where
  "time_signals st [] = st"
| "time_signals st ((n, tv) # sigs) =
     time_signals (if (fst st = None \<or> fst st = Some 0) \<and> is_csr n then time_tv st tv else st) sigs"

definition bug25 :: "signal list \<Rightarrow> string list" where
  "bug25 sigs =
     (if snd (time_signals (None, True) sigs)
      then [''Bug 25 hinted:   No mismatch in taint occurrence clock cycles.''] else [])"

definition experiment_names :: "string list" where
  "experiment_names = [''bug1_6_8'', ''bug22'', ''bug4'', ''bug27'', ''bug5'', ''bug25'']"

definition run_experiment :: "string \<Rightarrow> signal list \<Rightarrow> string list" where
  "run_experiment name sigs =
     (if name = ''bug1_6_8'' then bug1_6_8 sigs else if name = ''bug22'' then bug22 sigs
      else if name = ''bug4'' then bug4 sigs else if name = ''bug27'' then bug27 sigs
      else if name = ''bug5'' then bug5 sigs else if name = ''bug25'' then bug25 sigs else [])"

text \<open>The whole script, \<open>vcd\<close> reading the trace of a path.\<close>

definition scenarios :: "(string \<Rightarrow> signal list res) \<Rightarrow> string list res" where
  "scenarios vcd =
     res_map (\<lambda>out. out @ [''Experiment complete.''])
       (res_foldM (\<lambda>out name. res_map (\<lambda>sigs. out @ run_experiment name sigs) (vcd (''traces/'' @ name @ ''.vcd'')))
          [] experiment_names)"

subsection \<open>What the scans find\<close>

definition occurs :: "(string \<Rightarrow> bool) \<Rightarrow> (char \<Rightarrow> bool) \<Rightarrow> signal list \<Rightarrow> bool" where
  "occurs sel p sigs \<longleftrightarrow> list_ex (\<lambda>(n, tv). sel n \<and> list_ex (\<lambda>(t, v). list_ex p v) tv) sigs"

lemma scan_value_eq: "scan_value p flag v \<longleftrightarrow> flag \<or> list_ex p v"
  by (induction v) auto

lemma scan_tv_eq: "scan_tv p flag tv \<longleftrightarrow> flag \<or> list_ex (\<lambda>(t, v). list_ex p v) tv"
proof (induction tv arbitrary: flag)
  case (Cons x tv)
  then show ?case by (cases x) (simp add: scan_value_eq Let_def)
qed simp

lemma scan_signals_eq: "scan_signals sel p flag sigs \<longleftrightarrow> flag \<or> occurs sel p sigs"
proof (induction sigs arbitrary: flag)
  case (Cons x sigs)
  then show ?case by (cases x) (auto simp: scan_tv_eq occurs_def)
qed (simp add: occurs_def)

lemma reports_distinct: "report_bug1 \<noteq> report_bug6" "report_bug1 \<noteq> report_bug8" "report_bug6 \<noteq> report_bug8"
  by (simp_all add: report_bug1_def report_bug6_def report_bug8_def)

text \<open>Property C38. The report on bugs 1, 6 and 8 says what is tainted: each line appears exactly when
  every block it names has a signal with a tainted digit at some time, in whatever order the signals
  come, and never more than once.\<close>
theorem detection_exact:
  "set (bug1_6_8 sigs) =
     {m. (m = report_bug1 \<and>
            occurs is_spi tainted sigs \<and> occurs is_gpio tainted sigs) \<or>
         (m = report_bug6 \<and>
            occurs is_socctrl tainted sigs \<and> occurs is_gpio tainted sigs) \<or>
         (m = report_bug8 \<and>
            occurs is_spi tainted sigs \<and> occurs is_socctrl tainted sigs \<and> occurs is_gpio tainted sigs)} \<and>
   distinct (bug1_6_8 sigs)"
  using reports_distinct by (auto simp: bug1_6_8_def scan_signals_eq Let_def)

lemma time_value_none: "\<not> list_ex tainted v \<Longrightarrow> time_value t st v = st"
  by (induction t st v rule: time_value.induct) (auto simp: tainted_def)

lemma time_value_some:
  "time_value t (Some t', ok) v = (Some t', ok \<and> (list_ex tainted v \<longrightarrow> t = t'))"
  by (induction v arbitrary: ok) (auto simp: tainted_def)

lemma time_value_first: "list_ex tainted v \<Longrightarrow> time_value t (None, ok) v = (Some t, ok)"
  by (induction v) (auto simp: tainted_def time_value_some)

text \<open>The times at which a signal is tainted.\<close>

definition taint_times :: "(int \<times> string) list \<Rightarrow> int list" where
  "taint_times tv = map fst (filter (\<lambda>(t, v). list_ex tainted v) tv)"

lemma taint_times_simps [simp]:
  "taint_times [] = []"
  "taint_times ((t, v) # tv) = (if list_ex tainted v then t # taint_times tv else taint_times tv)"
  by (simp_all add: taint_times_def)

lemma time_tv_some:
  "time_tv (Some t', True) tv = (Some t', list_all (\<lambda>t. t = t') (taint_times tv))"
  by (induction tv) (auto simp: time_value_some Let_def)

lemma time_tv_none:
  "time_tv (None, True) tv =
     (case taint_times tv of [] \<Rightarrow> (None, True) | t # ts \<Rightarrow> (Some t, list_all (\<lambda>u. u = t) ts))"
  by (induction tv) (auto simp: time_value_none time_value_first time_tv_some Let_def)

lemma time_signals_skip:
  "list_all (\<lambda>(n, tv). is_csr n \<longrightarrow> taint_times tv = []) pre \<Longrightarrow>
   time_signals (None, True) (pre @ sigs) = time_signals (None, True) sigs"
  by (induction pre) (auto simp: time_tv_none)

lemma time_signals_done: "t \<noteq> 0 \<Longrightarrow> time_signals (Some t, ok) sigs = (Some t, ok)"
  by (induction sigs) auto

text \<open>Property C39. The hint for bug 25 depends on the first tainted register alone: once a signal of the
  selection is tainted at a time other than 0, the hint is given exactly when that signal's taint
  times are all equal, whatever the signals after it do.\<close>
theorem bug25_first_signal_only:
  assumes "list_all (\<lambda>(n, tv). is_csr n \<longrightarrow> taint_times tv = []) pre"
    and "is_csr n" and "taint_times tv = t # ts" and "t \<noteq> 0"
  shows "bug25 (pre @ (n, tv) # post) \<noteq> [] \<longleftrightarrow> list_all (\<lambda>u. u = t) ts"
  using assms by (simp add: bug25_def time_signals_skip time_tv_none time_signals_done)

theorem bug25_first_signal_only_witness:
  "bug25 ([(''clk'', [(0, ''1'')])] @ (''mstatus_q_t0'', [(0, ''00''), (5, ''01'')]) # [(''mcause_q_t0'', [(9, ''1'')])]) \<noteq> []"
proof (subst bug25_first_signal_only [where t = 5 and ts = "[]"])
  show "list_all (\<lambda>(n, tv). is_csr n \<longrightarrow> taint_times tv = []) [(''clk'', [(0, ''1'')])]" by code_simp
  show "is_csr ''mstatus_q_t0''" by code_simp
  show "taint_times [(0, ''00''), (5, ''01'')] = [5]" by code_simp
qed simp_all

end
