(* ===== verification/Py_Regex.thy ===== *)
theory Py_Regex imports Py_Prelude begin

section \<open>Regular expressions\<close>

text \<open>
  The fragment of Python's \<open>re\<close> the rewriting scripts use: literals, character sets, sequence,
  choice, optional and repeated parts (greedy or lazy), numbered groups and word boundaries.  The
  engine backtracks, so a pattern at a position has a list of matches, the preferred one first;
  \<open>search\<close> and \<open>subn\<close> take the head of that list at the leftmost position that has one.  A
  repetition only goes on after a round that consumed something and an empty match counts as none:
  no pattern of the scripts can match the empty string, nor can a part they repeat.  \<open>in_lang\<close> is
  the language of a pattern, and the engine finds a match exactly where a word of it starts.
\<close>

subsection \<open>Patterns and positions\<close>

datatype rx =
    Lit string
  | One "char \<Rightarrow> bool"
  | Seq rx rx
  | Alt rx rx
  | Maybe rx
  | Many bool rx
  | Grp nat rx
  | Bound

text \<open>A position: the character before it, the text from it on, the groups captured so far.\<close>

record pos =
  before :: "char option"
  ahead :: string
  grps :: "(nat \<times> string) list"

definition advance :: "nat \<Rightarrow> pos \<Rightarrow> pos" where
  "advance n p = p\<lparr>before := (if n = 0 then before p else Some (ahead p ! (n - 1))), ahead := drop n (ahead p)\<rparr>"

text \<open>What was consumed from one position to a later one.\<close>

definition consumed :: "pos \<Rightarrow> pos \<Rightarrow> string" where
  "consumed p q = take (length (ahead p) - length (ahead q)) (ahead p)"

text \<open>\<open>\w\<close>, \<open>\s\<close> and \<open>.\<close> without \<open>DOTALL\<close>, on 8-bit characters.\<close>

definition rx_word :: "char \<Rightarrow> bool" where
  "rx_word c \<longleftrightarrow> is_letter c \<or> is_digit c \<or> c = CHR ''_'' \<or>
     code_of c \<in> {170, 178, 179, 181, 185, 186, 188, 189, 190} \<or>
     (192 \<le> code_of c \<and> code_of c \<noteq> 215 \<and> code_of c \<noteq> 247)"

definition rx_space :: "char \<Rightarrow> bool" where
  "rx_space c \<longleftrightarrow> is_space c \<or> code_of c \<in> {133, 160}"

definition rx_dot :: "char \<Rightarrow> bool" where
  "rx_dot c \<longleftrightarrow> c \<noteq> CHR ''\<newline>''"

definition at_bound :: "pos \<Rightarrow> bool" where
  "at_bound p \<longleftrightarrow>
     (case before p of None \<Rightarrow> False | Some c \<Rightarrow> rx_word c) \<noteq>
     (case ahead p of [] \<Rightarrow> False | c # _ \<Rightarrow> rx_word c)"

subsection \<open>Matching\<close>

fun rounds :: "bool \<Rightarrow> (pos \<Rightarrow> pos list) \<Rightarrow> nat \<Rightarrow> pos \<Rightarrow> pos list" where
  "rounds greedy f 0 p = [p]"
| "rounds greedy f (Suc n) p =
     (let more = concat (map (rounds greedy f n) (filter (\<lambda>q. length (ahead q) < length (ahead p)) (f p)))
      in if greedy then more @ [p] else p # more)"

primrec rmatch :: "rx \<Rightarrow> pos \<Rightarrow> pos list" where
  "rmatch (Lit w) p = (if prefix w (ahead p) then [advance (length w) p] else [])"
| "rmatch (One P) p = (case ahead p of [] \<Rightarrow> [] | c # _ \<Rightarrow> if P c then [advance 1 p] else [])"
| "rmatch (Seq r s) p = concat (map (rmatch s) (rmatch r p))"
| "rmatch (Alt r s) p = rmatch r p @ rmatch s p"
| "rmatch (Maybe r) p = rmatch r p @ [p]"
| "rmatch (Many greedy r) p = rounds greedy (rmatch r) (length (ahead p)) p"
| "rmatch (Grp n r) p = map (\<lambda>q. q\<lparr>grps := (n, consumed p q) # grps q\<rparr>) (rmatch r p)"
| "rmatch Bound p = (if at_bound p then [p] else [])"

text \<open>\<open>r+\<close> and \<open>r+?\<close>, and a sequence of parts.\<close>

abbreviation Plus :: "bool \<Rightarrow> rx \<Rightarrow> rx" where
  "Plus greedy r \<equiv> Seq r (Many greedy r)"

fun seqs :: "rx list \<Rightarrow> rx" where
  "seqs [] = Lit []"
| "seqs [r] = r"
| "seqs (r # s # rs) = Seq r (seqs (s # rs))"

text \<open>The preferred match at a position, if it is not empty.\<close>

definition match_at :: "rx \<Rightarrow> pos \<Rightarrow> pos option" where
  "match_at r p =
     (case rmatch r p of [] \<Rightarrow> None
      | q # _ \<Rightarrow> if length (ahead q) < length (ahead p) then Some q else None)"

subsection \<open>Searching and replacing\<close>

text \<open>A replacement template: text and references to groups, of which group 0 is the whole match.\<close>

datatype piece = Txt string | Ref nat

fun piece_text :: "pos \<Rightarrow> pos \<Rightarrow> piece \<Rightarrow> string" where
  "piece_text p q (Txt s) = s"
| "piece_text p q (Ref n) =
     (if n = 0 then consumed p q else case map_of (grps q) n of None \<Rightarrow> [] | Some g \<Rightarrow> g)"

definition expand :: "piece list \<Rightarrow> pos \<Rightarrow> pos \<Rightarrow> string" where
  "expand t p q = concat (map (piece_text p q) t)"

abbreviation start :: "char option \<Rightarrow> string \<Rightarrow> pos" where
  "start b s \<equiv> \<lparr>before = b, ahead = s, grps = []\<rparr>"

text \<open>\<open>re.search(r, s) is not None\<close>, from a position on.\<close>

fun found_from :: "rx \<Rightarrow> char option \<Rightarrow> string \<Rightarrow> bool" where
  "found_from r b [] = False"
| "found_from r b (c # s) = (match_at r (start b (c # s)) \<noteq> None \<or> found_from r (Some c) s)"

definition re_found :: "rx \<Rightarrow> string \<Rightarrow> bool" where
  "re_found r s = found_from r None s"

lemma match_at_shorter: "match_at r p = Some q \<Longrightarrow> length (ahead q) < length (ahead p)"
  by (auto simp: match_at_def split: list.splits if_splits)

text \<open>The replacements from a position on, at most \<open>lim\<close> of them if that is given, and their number.\<close>

function subst_from :: "rx \<Rightarrow> piece list \<Rightarrow> nat option \<Rightarrow> char option \<Rightarrow> string \<Rightarrow> string \<times> nat" where
  "subst_from r t lim b [] = ([], 0)"
| "subst_from r t lim b (c # s) =
     (if lim = Some 0 then (c # s, 0)
      else case match_at r (start b (c # s)) of
        None \<Rightarrow> (case subst_from r t lim (Some c) s of (out, n) \<Rightarrow> (c # out, n))
      | Some q \<Rightarrow>
          (case subst_from r t (map_option (\<lambda>k. k - 1) lim) (before q) (ahead q) of
             (out, n) \<Rightarrow> (expand t (start b (c # s)) q @ out, n + 1)))"
  by pat_completeness auto

termination
  by (relation "measure (\<lambda>(r, t, lim, b, s). length s)") (auto dest: match_at_shorter)

definition re_subn :: "rx \<Rightarrow> piece list \<Rightarrow> nat option \<Rightarrow> string \<Rightarrow> string \<times> nat" where
  "re_subn r t lim s = subst_from r t lim None s"

abbreviation re_sub :: "rx \<Rightarrow> piece list \<Rightarrow> string \<Rightarrow> string" where
  "re_sub r t s \<equiv> fst (re_subn r t None s)"

subsection \<open>Where a match ends\<close>

lemma advance_simps [simp]:
  "ahead (advance n p) = drop n (ahead p)" "grps (advance n p) = grps p" "advance 0 p = p"
  by (simp_all add: advance_def)

definition later :: "pos \<Rightarrow> pos \<Rightarrow> bool" where
  "later p q \<longleftrightarrow> (\<exists>n\<le>length (ahead p). ahead q = drop n (ahead p) \<and> before q = before (advance n p))"

lemma later_refl [simp]: "later p p"
  by (auto simp: later_def intro: exI [of _ 0])

lemma later_trans:
  assumes "later p q" and "later q r"
  shows "later p r"
proof -
  obtain n where n: "n \<le> length (ahead p)" "ahead q = drop n (ahead p)" "before q = before (advance n p)"
    using assms(1) by (auto simp: later_def)
  obtain m where m: "m \<le> length (ahead q)" "ahead r = drop m (ahead q)" "before r = before (advance m q)"
    using assms(2) by (auto simp: later_def)
  have "n + m \<le> length (ahead p)" using n m by auto
  moreover have "ahead r = drop (n + m) (ahead p)" using n m by (simp add: add.commute)
  moreover have "before r = before (advance (n + m) p)"
    using n m by (cases m) (auto simp: advance_def)
  ultimately show ?thesis unfolding later_def by blast
qed

lemma later_advance [intro]: "n \<le> length (ahead p) \<Longrightarrow> later p (advance n p)"
  by (auto simp: later_def)

lemma later_grps [simp]: "later p (q\<lparr>grps := g\<rparr>) = later p q"
  by (simp add: later_def)

lemma rounds_later:
  assumes "\<And>p q. q \<in> set (f p) \<Longrightarrow> later p q"
  shows "q \<in> set (rounds g f n p) \<Longrightarrow> later p q"
proof (induction n arbitrary: p)
  case (Suc n)
  then consider "q = p" | m where "m \<in> set (f p)" "q \<in> set (rounds g f n m)"
    by (auto simp: Let_def split: if_splits)
  then show ?case
  proof cases
    case 2
    with Suc.IH assms show ?thesis by (blast intro: later_trans)
  qed simp
qed simp

lemma rmatch_later: "q \<in> set (rmatch r p) \<Longrightarrow> later p q"
proof (induction r arbitrary: p q)
  case (Lit w)
  then show ?case by (auto simp: prefix_length_le split: if_splits)
next
  case (One P)
  then show ?case by (cases "ahead p") (auto intro!: later_advance split: if_splits)
next
  case (Seq r s)
  then obtain m where "m \<in> set (rmatch r p)" "q \<in> set (rmatch s m)" by auto
  with Seq.IH have "later p m" "later m q" by blast+
  then show ?case by (rule later_trans)
next
  case (Many g r)
  then show ?case using rounds_later [of "rmatch r"] by auto
qed (auto split: if_splits)

lemma later_ahead: "later p q \<Longrightarrow> ahead p = consumed p q @ ahead q"
  by (auto simp: later_def consumed_def)

lemma later_length: "later p q \<Longrightarrow> length (ahead q) \<le> length (ahead p)"
  by (auto simp: later_def)

lemma consumed_refl [simp]: "consumed p p = []"
  by (simp add: consumed_def)

lemma consumed_grps [simp]:
  "consumed p (q\<lparr>grps := g\<rparr>) = consumed p q" "consumed (p\<lparr>grps := g\<rparr>) q = consumed p q"
  by (simp_all add: consumed_def)

lemma consumed_trans:
  assumes "later p m" and "later m q"
  shows "consumed p q = consumed p m @ consumed m q"
proof -
  have "ahead p = consumed p m @ consumed m q @ ahead q" "ahead p = consumed p q @ ahead q"
    using later_ahead assms later_trans by metis+
  then show ?thesis by simp
qed

lemmas match_intros = later_advance later_trans rmatch_later

subsection \<open>The language of a pattern\<close>

text \<open>A word boundary stands for the empty word; where it may occur is not said by the language.\<close>

inductive in_lang :: "rx \<Rightarrow> string \<Rightarrow> bool" where
  lang_Lit: "in_lang (Lit w) w"
| lang_One: "P c \<Longrightarrow> in_lang (One P) [c]"
| lang_Seq: "in_lang r u \<Longrightarrow> in_lang s v \<Longrightarrow> in_lang (Seq r s) (u @ v)"
| lang_Alt1: "in_lang r u \<Longrightarrow> in_lang (Alt r s) u"
| lang_Alt2: "in_lang s u \<Longrightarrow> in_lang (Alt r s) u"
| lang_Maybe0: "in_lang (Maybe r) []"
| lang_Maybe1: "in_lang r u \<Longrightarrow> in_lang (Maybe r) u"
| lang_Many0: "in_lang (Many g r) []"
| lang_Many1: "in_lang r u \<Longrightarrow> u \<noteq> [] \<Longrightarrow> in_lang (Many g r) v \<Longrightarrow> in_lang (Many g r) (u @ v)"
| lang_Grp: "in_lang r u \<Longrightarrow> in_lang (Grp n r) u"
| lang_Bound: "in_lang Bound []"

inductive_simps in_lang_simps [simp]:
  "in_lang (Lit w) u" "in_lang (One P) u" "in_lang (Seq r s) u" "in_lang (Alt r s) u"
  "in_lang (Maybe r) u" "in_lang (Grp n r) u" "in_lang Bound u"

inductive_cases in_lang_ManyE: "in_lang (Many g r) u"

lemma in_lang_seqs [simp]: "in_lang (seqs (r # s # rs)) u \<longleftrightarrow> in_lang (Seq r (seqs (s # rs))) u"
  by simp

lemma in_lang_Many_One: "in_lang (Many g (One P)) u \<longleftrightarrow> list_all P u"
proof
  show "in_lang (Many g (One P)) u \<Longrightarrow> list_all P u"
    by (induction "Many g (One P)" u rule: in_lang.induct) auto
  show "list_all P u \<Longrightarrow> in_lang (Many g (One P)) u"
  proof (induction u)
    case (Cons c u)
    then show ?case using lang_Many1 [of "One P" "[c]" g u] by simp
  qed (rule lang_Many0)
qed

text \<open>Every match consumes a word of the language.\<close>

lemma rounds_lang:
  assumes "\<And>p q. q \<in> set (rmatch r p) \<Longrightarrow> in_lang r (consumed p q)"
  shows "q \<in> set (rounds g (rmatch r) n p) \<Longrightarrow> in_lang (Many g r) (consumed p q)"
proof (induction n arbitrary: p)
  case (Suc n)
  then consider "q = p" | m where "m \<in> set (rmatch r p)" "length (ahead m) < length (ahead p)"
      "q \<in> set (rounds g (rmatch r) n m)"
    by (auto simp: Let_def split: if_splits)
  then show ?case
  proof cases
    case 2
    then have "later p m" "later m q" using rmatch_later rounds_later [of "rmatch r"] by blast+
    then have split: "consumed p q = consumed p m @ consumed m q" by (rule consumed_trans)
    have "consumed p m \<noteq> []" using later_ahead [OF \<open>later p m\<close>] 2(2) by auto
    then show ?thesis unfolding split using assms [OF 2(1)] Suc.IH [OF 2(3)] by (intro lang_Many1)
  qed (simp add: lang_Many0)
qed (simp add: lang_Many0)

lemma rmatch_lang: "q \<in> set (rmatch r p) \<Longrightarrow> in_lang r (consumed p q)"
proof (induction r arbitrary: p q)
  case (Lit w)
  then show ?case by (auto simp: consumed_def prefix_def split: if_splits)
next
  case (One P)
  then show ?case by (cases "ahead p") (auto simp: consumed_def split: if_splits)
next
  case (Seq r s)
  then obtain m where m: "m \<in> set (rmatch r p)" "q \<in> set (rmatch s m)" by auto
  then have "consumed p q = consumed p m @ consumed m q" by (intro consumed_trans rmatch_later)
  with Seq.IH(1) [OF m(1)] Seq.IH(2) [OF m(2)] show ?case by auto
next
  case (Many g r)
  then show ?case using rounds_lang [of r q g] by simp
qed (auto split: if_splits)

text \<open>Without word boundaries, every word of the language at a position is consumed by some match.\<close>

primrec unbound :: "rx \<Rightarrow> bool" where
  "unbound (Lit w) = True"
| "unbound (One P) = True"
| "unbound (Seq r s) = (unbound r \<and> unbound s)"
| "unbound (Alt r s) = (unbound r \<and> unbound s)"
| "unbound (Maybe r) = unbound r"
| "unbound (Many g r) = unbound r"
| "unbound (Grp n r) = unbound r"
| "unbound Bound = False"

lemma rmatch_complete:
  "in_lang r w \<Longrightarrow> unbound r \<Longrightarrow> ahead p = w @ s \<Longrightarrow> \<exists>q\<in>set (rmatch r p). ahead q = s"
proof (induction arbitrary: p s rule: in_lang.induct)
  case (lang_Seq r u s' v)
  then obtain m where m: "m \<in> set (rmatch r p)" "ahead m = v @ s" by (metis append.assoc unbound.simps(3))
  with lang_Seq obtain q where "q \<in> set (rmatch s' m)" "ahead q = s" by (metis unbound.simps(3))
  with m show ?case by auto
next
  case (lang_Many0 g r)
  then show ?case by (cases "length (ahead p)") (auto simp: Let_def)
next
  case (lang_Many1 r u g v)
  then obtain m where m: "m \<in> set (rmatch r p)" "ahead m = v @ s" by (metis append.assoc unbound.simps(6))
  obtain q where q: "q \<in> set (rmatch (Many g r) m)" "ahead q = s" using lang_Many1 m(2) by metis
  have less: "length (ahead m) < length (ahead p)" using lang_Many1 m by simp
  then obtain n where n: "length (ahead p) = Suc n" "length (ahead m) \<le> n" by (cases "length (ahead p)") auto
  have "set (rounds g (rmatch r) k m') \<subseteq> set (rounds g (rmatch r) (k + d) m')" for k d m'
  proof (induction k arbitrary: m')
    case 0
    show ?case by (cases d) (auto simp: Let_def)
  next
    case (Suc k)
    then show ?case by (fastforce simp: Let_def)
  qed
  from this [of "length (ahead m)" m "n - length (ahead m)"] have "q \<in> set (rounds g (rmatch r) n m)"
    using q(1) n(2) by auto
  with n m less have "q \<in> set (rmatch (Many g r) p)" by (auto simp: Let_def)
  with q(2) show ?case by blast
qed (fastforce simp: Let_def)+

subsection \<open>Where a search succeeds\<close>

definition nonempty_lang :: "rx \<Rightarrow> bool" where
  "nonempty_lang r \<longleftrightarrow> \<not> in_lang r []"

lemma match_at_Some:
  assumes "match_at r p = Some q"
  shows "q \<in> set (rmatch r p)" and "later p q" and "in_lang r (consumed p q)" and "consumed p q \<noteq> []"
    and "ahead p = consumed p q @ ahead q"
proof -
  show q: "q \<in> set (rmatch r p)" using assms by (auto simp: match_at_def split: list.splits if_splits)
  then show "later p q" and "in_lang r (consumed p q)" by (rule rmatch_later rmatch_lang)+
  then show *: "ahead p = consumed p q @ ahead q" by (intro later_ahead)
  show "consumed p q \<noteq> []" using * match_at_shorter [OF assms] by auto
qed

lemma match_at_complete:
  assumes "unbound r" and "nonempty_lang r" and "in_lang r w" and "ahead p = w @ s"
  shows "match_at r p \<noteq> None"
proof -
  obtain q where "q \<in> set (rmatch r p)" using rmatch_complete [OF assms(3,1,4)] by blast
  then obtain m ms where ms: "rmatch r p = m # ms" by (cases "rmatch r p") auto
  then have "in_lang r (consumed p m)" "later p m" using rmatch_lang [of m r p] rmatch_later [of m r p] by simp_all
  then have "length (ahead m) < length (ahead p)"
    using assms(2) later_ahead [of p m] by (cases "consumed p m = []") (auto simp: nonempty_lang_def)
  with ms show ?thesis by (simp add: match_at_def)
qed

text \<open>A search succeeds exactly when a word of the language occurs.\<close>

lemma found_from_iff:
  assumes "unbound r" and "nonempty_lang r"
  shows "found_from r b s \<longleftrightarrow> (\<exists>u w v. s = u @ w @ v \<and> in_lang r w)"
proof (induction s arbitrary: b)
  case Nil
  then show ?case using assms(2) by (auto simp: nonempty_lang_def)
next
  case (Cons c s)
  show ?case
  proof
    assume "found_from r b (c # s)"
    then consider q where "match_at r (start b (c # s)) = Some q" | "found_from r (Some c) s" by auto
    then show "\<exists>u w v. c # s = u @ w @ v \<and> in_lang r w"
    proof cases
      case 1
      have "c # s = [] @ consumed (start b (c # s)) q @ ahead q" using match_at_Some(5) [OF 1] by simp
      with match_at_Some(3) [OF 1] show ?thesis by blast
    next
      case 2
      with Cons obtain u w v where "s = u @ w @ v" "in_lang r w" by blast
      then have "c # s = (c # u) @ w @ v" by simp
      with \<open>in_lang r w\<close> show ?thesis by blast
    qed
  next
    assume "\<exists>u w v. c # s = u @ w @ v \<and> in_lang r w"
    then obtain u w v where *: "c # s = u @ w @ v" "in_lang r w" by blast
    show "found_from r b (c # s)"
    proof (cases u)
      case Nil
      with *(1) have "match_at r (start b (c # s)) \<noteq> None" by (intro match_at_complete [OF assms *(2)]) simp
      then show ?thesis by simp
    next
      case (Cons d u')
      with *(1) have "s = u' @ w @ v" by simp
      with *(2) have "found_from r (Some c) s" unfolding Cons.IH by blast
      then show ?thesis by simp
    qed
  qed
qed

lemma re_found_iff:
  assumes "unbound r" and "nonempty_lang r"
  shows "re_found r s \<longleftrightarrow> (\<exists>u w v. s = u @ w @ v \<and> in_lang r w)"
  using found_from_iff [OF assms] by (simp add: re_found_def)

subsection \<open>The first match and what replaces it\<close>

fun first_match :: "rx \<Rightarrow> char option \<Rightarrow> string \<Rightarrow> (string \<times> pos \<times> pos) option" where
  "first_match r b [] = None"
| "first_match r b (c # s) =
     (case match_at r (start b (c # s)) of
        Some q \<Rightarrow> Some ([], start b (c # s), q)
      | None \<Rightarrow> map_option (\<lambda>(pre, p, q). (c # pre, p, q)) (first_match r (Some c) s))"

lemma found_first: "found_from r b s \<longleftrightarrow> first_match r b s \<noteq> None"
  by (induction s arbitrary: b) (auto split: option.splits)

lemma first_match_Some:
  "first_match r b s = Some (pre, p, q) \<Longrightarrow>
     s = pre @ ahead p \<and> match_at r p = Some q \<and> grps p = [] \<and>
     (before p = (if pre = [] then b else Some (last pre)))"
proof (induction s arbitrary: b pre)
  case (Cons c s)
  then show ?case by (fastforce split: option.splits)
qed simp

lemma subst_from_first:
  assumes "lim \<noteq> Some 0" and "first_match r b s = Some (pre, p, q)"
  shows "subst_from r t lim b s =
    (case subst_from r t (map_option (\<lambda>k. k - 1) lim) (before q) (ahead q) of
       (out, n) \<Rightarrow> (pre @ expand t p q @ out, Suc n))"
  using assms(2)
proof (induction s arbitrary: b pre)
  case (Cons c s)
  then show ?case using assms(1) by (fastforce split: option.splits prod.splits)
qed simp

lemma subst_from_lim0 [simp]: "subst_from r t (Some 0) b s = (s, 0)"
  by (cases s) simp_all

lemma subst_from_none: "first_match r b s = None \<Longrightarrow> subst_from r t lim b s = (s, 0)"
proof (induction s arbitrary: b)
  case (Cons c s)
  then show ?case by (auto split: option.splits)
qed simp

lemma subst_count: "lim \<noteq> Some 0 \<Longrightarrow> snd (subst_from r t lim b s) = 0 \<longleftrightarrow> \<not> found_from r b s"
  using subst_from_none [of r b s t lim] subst_from_first [of lim r b s _ _ _ t]
  by (cases "first_match r b s") (auto simp: found_first split: prod.splits)

text \<open>At most one replacement: nothing happens, or the first match is replaced.\<close>

lemma re_subn_once:
  "re_subn r t (Some 1) s =
     (case first_match r None s of
        None \<Rightarrow> (s, 0)
      | Some (pre, p, q) \<Rightarrow> (pre @ expand t p q @ ahead q, 1))"
  using subst_from_none [of r None s t "Some 1"] subst_from_first [of "Some 1" r None s _ _ _ t]
  by (auto simp: re_subn_def split: option.splits)

subsection \<open>Sequences of parts and their groups\<close>

primrec no_grp :: "rx \<Rightarrow> bool" where
  "no_grp (Lit w) = True"
| "no_grp (One P) = True"
| "no_grp (Seq r s) = (no_grp r \<and> no_grp s)"
| "no_grp (Alt r s) = (no_grp r \<and> no_grp s)"
| "no_grp (Maybe r) = no_grp r"
| "no_grp (Many g r) = no_grp r"
| "no_grp (Grp n r) = False"
| "no_grp Bound = True"

lemma no_grp_rounds:
  assumes "\<And>p. \<forall>q\<in>set (f p). grps q = grps p"
  shows "\<forall>q\<in>set (rounds g f n p). grps q = grps p"
proof (induction n arbitrary: p)
  case (Suc n)
  have "grps q = grps p" if "m \<in> set (f p)" "q \<in> set (rounds g f n m)" for m q
    using bspec [OF assms that(1)] bspec [OF Suc that(2)] by (rule trans [rotated])
  then show ?case by (auto simp: Let_def)
qed simp

lemma no_grp_all: "no_grp r \<Longrightarrow> \<forall>q\<in>set (rmatch r p). grps q = grps p"
proof (induction r arbitrary: p)
  case (One P)
  then show ?case by (cases "ahead p") auto
next
  case (Seq r s)
  have "grps q = grps p" if "m \<in> set (rmatch r p)" "q \<in> set (rmatch s m)" for m q
    using Seq.prems bspec [OF Seq.IH(1) that(1)] bspec [OF Seq.IH(2) that(2)] by simp
  then show ?case by auto
next
  case (Many g r)
  then show ?case by (simp only: rmatch.simps no_grp.simps) (rule no_grp_rounds, blast)
qed (auto split: if_splits)

lemma no_grp_grps: "q \<in> set (rmatch r p) \<Longrightarrow> no_grp r \<Longrightarrow> grps q = grps p"
  using no_grp_all by blast

text \<open>A match of a sequence, part by part.\<close>

lemma rmatch_SeqE:
  assumes "q \<in> set (rmatch (Seq r s) p)"
  obtains m where "m \<in> set (rmatch r p)" and "q \<in> set (rmatch s m)"
    and "consumed p q = consumed p m @ consumed m q"
proof -
  obtain m where m: "m \<in> set (rmatch r p)" "q \<in> set (rmatch s m)" using assms by auto
  moreover have "consumed p q = consumed p m @ consumed m q"
    using m by (intro consumed_trans rmatch_later)
  ultimately show thesis by (rule that)
qed

lemma rmatch_plainE:
  assumes "q \<in> set (rmatch r p)" and "no_grp r"
  obtains "in_lang r (consumed p q)" and "grps q = grps p"
  using assms no_grp_grps rmatch_lang by blast

lemma rmatch_GrpE:
  assumes "q \<in> set (rmatch (Grp n r) p)" and "no_grp r"
  obtains "in_lang r (consumed p q)" and "grps q = (n, consumed p q) # grps p"
  using assms no_grp_grps rmatch_lang [of _ r p] by auto

subsection \<open>Loops of replacements\<close>

text \<open>\<open>while True: new = re.sub(...); if new == old: break\<close>; a loop that does not end has no value.\<close>

partial_function (option) sub_loop :: "rx \<Rightarrow> piece list \<Rightarrow> string \<Rightarrow> string option" where
  "sub_loop r t s =
     (let s' = re_sub r t s in if s' = s then Some s' else sub_loop r t s')"

text \<open>
  Replacements that make the text smaller in a well-founded order which is kept by what surrounds
  them: a pass either changes nothing or makes the text smaller, so the loop ends, and it ends with
  a text without matches.
\<close>

locale shrinking =
  fixes lt :: "string \<Rightarrow> string \<Rightarrow> bool" and r :: rx and t :: "piece list"
  assumes lt_wf: "wf {(u, v). lt u v}"
    and lt_trans: "lt u v \<Longrightarrow> lt v w \<Longrightarrow> lt u w"
    and lt_context: "lt u v \<Longrightarrow> lt (x @ u @ y) (x @ v @ y)"
    and lt_step: "match_at r p = Some q \<Longrightarrow> grps p = [] \<Longrightarrow> lt (expand t p q) (consumed p q)"
begin

lemma lt_irrefl: "\<not> lt u u"
  using wf_not_refl [OF lt_wf, of u] by simp

lemma subst_shrinks:
  "(if snd (subst_from r t lim b s) = 0 then fst (subst_from r t lim b s) = s
    else lt (fst (subst_from r t lim b s)) s)"
proof (induction "length s" arbitrary: lim b s rule: less_induct)
  case less
  consider "lim = Some 0 \<or> first_match r b s = None"
    | pre p q where "lim \<noteq> Some 0" "first_match r b s = Some (pre, p, q)"
    by (cases "first_match r b s") auto
  then show ?case
  proof cases
    case 1
    then show ?thesis using subst_from_none [of r b s t lim] by auto
  next
    case 2
    from first_match_Some [OF 2(2)] have s: "s = pre @ ahead p" and m: "match_at r p = Some q" "grps p = []"
      by auto
    define rest where "rest = subst_from r t (map_option (\<lambda>k. k - 1) lim) (before q) (ahead q)"
    have out: "fst (subst_from r t lim b s) = pre @ expand t p q @ fst rest"
      "snd (subst_from r t lim b s) = Suc (snd rest)"
      using subst_from_first [OF 2, of t] by (simp_all add: rest_def split: prod.splits)
    have p: "ahead p = consumed p q @ ahead q" by (rule match_at_Some(5) [OF m(1)])
    have "length (ahead q) < length s" using match_at_shorter [OF m(1)] s by simp
    from less [OF this, of "map_option (\<lambda>k. k - 1) lim" "before q"]
    have rest: "fst rest = ahead q \<or> lt (fst rest) (ahead q)"
      unfolding rest_def [symmetric] by (simp split: if_splits)
    have step: "lt (pre @ expand t p q @ ahead q) (pre @ consumed p q @ ahead q)"
      by (rule lt_context [OF lt_step [OF m]])
    show ?thesis
      unfolding out
    proof (cases "fst rest = ahead q")
      case True
      then show "if Suc (snd rest) = 0 then pre @ expand t p q @ fst rest = s
          else lt (pre @ expand t p q @ fst rest) s"
        using step by (simp add: s p)
    next
      case False
      with rest have "lt ((pre @ expand t p q) @ fst rest @ []) ((pre @ expand t p q) @ ahead q @ [])"
        by (intro lt_context) simp
      with step have "lt (pre @ expand t p q @ fst rest) (pre @ consumed p q @ ahead q)"
        by (auto intro: lt_trans)
      then show "if Suc (snd rest) = 0 then pre @ expand t p q @ fst rest = s
          else lt (pre @ expand t p q @ fst rest) s"
        by (simp add: s p)
    qed
  qed
qed

lemma unchanged_iff: "re_sub r t s = s \<longleftrightarrow> \<not> re_found r s"
proof (cases "snd (subst_from r t None None s) = 0")
  case True
  then show ?thesis using subst_shrinks [of None None s] subst_count [of None r t None s]
    by (simp add: re_subn_def re_found_def)
next
  case False
  then have "lt (re_sub r t s) s" using subst_shrinks [of None None s] by (simp add: re_subn_def)
  moreover have "re_found r s" using False subst_count [of None r t None s] by (simp add: re_found_def)
  ultimately show ?thesis using lt_irrefl [of s] by auto
qed

lemma sub_loop_step:
  "sub_loop r t s = (if re_sub r t s = s then Some s else sub_loop r t (re_sub r t s))"
  by (subst sub_loop.simps) (auto simp: Let_def)

lemma loop_ends: "\<exists>y. sub_loop r t s = Some y \<and> \<not> re_found r y"
proof (induction s rule: wf_induct_rule [OF lt_wf])
  case (1 s)
  show ?case
  proof (cases "re_sub r t s = s")
    case True
    then have "\<not> re_found r s" by (rule iffD1 [OF unchanged_iff])
    moreover have "sub_loop r t s = Some s" using True by (subst sub_loop_step) (rule if_P)
    ultimately show ?thesis by blast
  next
    case False
    then have "snd (subst_from r t None None s) \<noteq> 0"
      using subst_shrinks [of None None s] by (metis re_subn_def)
    then have "lt (re_sub r t s) s"
      using subst_shrinks [of None None s] by (simp add: re_subn_def)
    then have "\<exists>y. sub_loop r t (re_sub r t s) = Some y \<and> \<not> re_found r y" by (intro 1) simp
    moreover have "sub_loop r t s = sub_loop r t (re_sub r t s)" using False by (subst sub_loop_step) (rule if_not_P)
    ultimately show ?thesis by simp
  qed
qed

end

subsection \<open>Replacements that preserve something\<close>

text \<open>
  A quantity that adds up over the parts of a text and that no replacement changes is the same
  before and after, for one pass and for the loop.
\<close>

locale preserving =
  fixes f :: "string \<Rightarrow> 'a::monoid_add" and r :: rx and t :: "piece list"
  assumes f_append: "f (u @ v) = f u + f v"
    and f_step: "match_at r p = Some q \<Longrightarrow> grps p = [] \<Longrightarrow> f (expand t p q) = f (consumed p q)"
begin

lemma subst_preserves: "f (fst (subst_from r t lim b s)) = f s"
proof (induction "length s" arbitrary: lim b s rule: less_induct)
  case less
  consider "lim = Some 0 \<or> first_match r b s = None"
    | pre p q where "lim \<noteq> Some 0" "first_match r b s = Some (pre, p, q)"
    by (cases "first_match r b s") auto
  then show ?case
  proof cases
    case 1
    then show ?thesis using subst_from_none [of r b s t lim] by auto
  next
    case 2
    from first_match_Some [OF 2(2)] have s: "s = pre @ ahead p" and m: "match_at r p = Some q" "grps p = []"
      by auto
    have p: "ahead p = consumed p q @ ahead q" by (rule match_at_Some(5) [OF m(1)])
    have "length (ahead q) < length s" using match_at_shorter [OF m(1)] s by simp
    from less [OF this, of "map_option (\<lambda>k. k - 1) lim" "before q"] show ?thesis
      using subst_from_first [OF 2, of t]
      by (simp add: s p f_append f_step [OF m] split: prod.splits)
  qed
qed

lemma loop_preserves:
  assumes "sub_loop r t s = Some y"
  shows "f y = f s"
proof -
  have "r = r \<longrightarrow> t = t \<longrightarrow> f y = f s"
    using _ assms
  proof (rule sub_loop.raw_induct [where P = "\<lambda>r' t' s' y'. r' = r \<longrightarrow> t' = t \<longrightarrow> f y' = f s'"], intro impI)
    fix loop r' t' s' y'
    assume IH: "\<And>r' t' s' y'. loop r' t' s' = Some y' \<Longrightarrow> r' = r \<longrightarrow> t' = t \<longrightarrow> f y' = f s'"
      and step: "(let s2 = re_sub r' t' s' in if s2 = s' then Some s2 else loop r' t' s2) = Some y'"
      and "r' = r" "t' = t"
    show "f y' = f s'"
    proof (cases "re_sub r' t' s' = s'")
      case True
      then show ?thesis using step by (simp add: Let_def)
    next
      case False
      then have "loop r' t' (re_sub r' t' s') = Some y'" using step by (simp add: Let_def)
      then have "f y' = f (re_sub r' t' s')" using IH \<open>r' = r\<close> \<open>t' = t\<close> by blast
      then show ?thesis using subst_preserves \<open>r' = r\<close> \<open>t' = t\<close> by (simp add: re_subn_def)
    qed
  qed
  then show ?thesis by simp
qed

end

text \<open>
  Replacements that do both: the loop ends, with a text without matches and with the same quantity.
\<close>

locale moving = shrinking lt r t + preserving f r t
  for lt :: "string \<Rightarrow> string \<Rightarrow> bool" and f :: "string \<Rightarrow> 'a::monoid_add" and r :: rx and t :: "piece list"
begin

lemma loop_moves: "\<exists>y. sub_loop r t s = Some y \<and> \<not> re_found r y \<and> f y = f s"
  using loop_ends [of s] loop_preserves [of s] by blast

end

subsection \<open>Replacements as single steps\<close>

text \<open>
  A pass and the loop as a sequence of steps, each of which replaces one match where it stands.
\<close>

locale stepwise =
  fixes R :: "string \<Rightarrow> string \<Rightarrow> bool" and r :: rx and t :: "piece list"
  assumes R_context: "R u v \<Longrightarrow> R (x @ u @ y) (x @ v @ y)"
    and R_step: "match_at r p = Some q \<Longrightarrow> grps p = [] \<Longrightarrow> R (consumed p q) (expand t p q)"
begin

lemma R_context_steps: "R\<^sup>*\<^sup>* u v \<Longrightarrow> R\<^sup>*\<^sup>* (x @ u) (x @ v)"
proof (induction rule: rtranclp_induct)
  case (step v w)
  then show ?case using R_context [OF step(2), of x "[]"] by (auto intro: rtranclp.rtrancl_into_rtrancl)
qed simp

lemma subst_steps: "R\<^sup>*\<^sup>* s (fst (subst_from r t lim b s))"
proof (induction "length s" arbitrary: lim b s rule: less_induct)
  case less
  consider "lim = Some 0 \<or> first_match r b s = None"
    | pre p q where "lim \<noteq> Some 0" "first_match r b s = Some (pre, p, q)"
    by (cases "first_match r b s") auto
  then show ?case
  proof cases
    case 1
    then show ?thesis using subst_from_none [of r b s t lim] by auto
  next
    case 2
    from first_match_Some [OF 2(2)] have s: "s = pre @ ahead p" and m: "match_at r p = Some q" "grps p = []"
      by auto
    have p: "ahead p = consumed p q @ ahead q" by (rule match_at_Some(5) [OF m(1)])
    define rest where "rest = subst_from r t (map_option (\<lambda>k. k - 1) lim) (before q) (ahead q)"
    have out: "fst (subst_from r t lim b s) = (pre @ expand t p q) @ fst rest"
      using subst_from_first [OF 2, of t] by (simp add: rest_def split: prod.splits)
    have "length (ahead q) < length s" using match_at_shorter [OF m(1)] s by simp
    from less [OF this] have "R\<^sup>*\<^sup>* (ahead q) (fst rest)" by (simp add: rest_def)
    then have "R\<^sup>*\<^sup>* ((pre @ expand t p q) @ ahead q) (fst (subst_from r t lim b s))"
      unfolding out by (rule R_context_steps)
    moreover have "R s ((pre @ expand t p q) @ ahead q)"
      using R_context [OF R_step [OF m], of pre "ahead q"] by (simp add: s p)
    ultimately show ?thesis by (rule converse_rtranclp_into_rtranclp [rotated])
  qed
qed

lemma loop_steps:
  assumes "sub_loop r t s = Some y"
  shows "R\<^sup>*\<^sup>* s y"
proof -
  have "r = r \<longrightarrow> t = t \<longrightarrow> R\<^sup>*\<^sup>* s y"
    using _ assms
  proof (rule sub_loop.raw_induct [where P = "\<lambda>r' t' s' y'. r' = r \<longrightarrow> t' = t \<longrightarrow> R\<^sup>*\<^sup>* s' y'"], intro impI)
    fix loop r' t' s' y'
    assume IH: "\<And>r' t' s' y'. loop r' t' s' = Some y' \<Longrightarrow> r' = r \<longrightarrow> t' = t \<longrightarrow> R\<^sup>*\<^sup>* s' y'"
      and step: "(let s2 = re_sub r' t' s' in if s2 = s' then Some s2 else loop r' t' s2) = Some y'"
      and "r' = r" "t' = t"
    show "R\<^sup>*\<^sup>* s' y'"
    proof (cases "re_sub r' t' s' = s'")
      case True
      then show ?thesis using step by (simp add: Let_def)
    next
      case False
      then have "loop r' t' (re_sub r' t' s') = Some y'" using step by (simp add: Let_def)
      then have "R\<^sup>*\<^sup>* (re_sub r' t' s') y'" using IH \<open>r' = r\<close> \<open>t' = t\<close> by blast
      moreover have "R\<^sup>*\<^sup>* s' (re_sub r' t' s')" using subst_steps \<open>r' = r\<close> \<open>t' = t\<close> by (simp add: re_subn_def)
      ultimately show ?thesis by (rule rtranclp_trans [rotated])
    qed
  qed
  then show ?thesis by simp
qed

end

subsection \<open>Lazy repetitions stop at the first chance\<close>

text \<open>A pattern for any one character, in one way or several.\<close>

definition single :: "rx \<Rightarrow> bool" where
  "single x \<longleftrightarrow> (\<forall>p. set (rmatch x p) \<subseteq> {advance 1 p} \<and> (rmatch x p = [] \<longleftrightarrow> ahead p = []))"

lemma advance_advance:
  "n \<le> length (ahead p) \<Longrightarrow> advance m (advance n p) = advance (n + m) p"
  by (cases m) (auto simp: advance_def add.commute)

lemma concat_map_head:
  assumes "concat (map f xs) = y # ys"
  shows "\<exists>x\<in>set xs. \<exists>zs. f x = y # zs"
  using assms by (induction xs) (auto simp: append_eq_Cons_conv)

lemma concat_map_same:
  assumes "concat (map f xs) = y # ys" and "set xs \<subseteq> {x}"
  shows "\<exists>zs. f x = y # zs"
  using concat_map_head [OF assms(1)] assms(2) by auto

lemma concat_map_concat: "concat (map f (concat xss)) = concat (map (\<lambda>xs. concat (map f xs)) xss)"
  by (induction xss) simp_all

lemma rmatch_Seq: "rmatch (Seq r s) = (\<lambda>p. concat (map (rmatch s) (rmatch r p)))"
  by (rule ext) simp

lemma rounds_lazy_head:
  assumes "single x"
  shows "concat (map k (rounds False (rmatch x) (length (ahead p)) p)) = q # l \<Longrightarrow>
    \<exists>n\<le>length (ahead p). (\<exists>l. k (advance n p) = q # l) \<and> (\<forall>j<n. k (advance j p) = [])"
proof (induction "length (ahead p)" arbitrary: p l)
  case 0
  then show ?case by (auto intro!: exI [of _ 0])
next
  case (Suc n)
  let ?ms = "filter (\<lambda>m. length (ahead m) < length (ahead p)) (rmatch x p)"
  have rounds: "rounds False (rmatch x) (length (ahead p)) p = p # concat (map (rounds False (rmatch x) n) ?ms)"
    using Suc(2) by (cases "length (ahead p)") (auto simp: Let_def)
  show ?case
  proof (cases "k p")
    case (Cons q' l')
    then show ?thesis using Suc(3) by (auto simp: rounds intro!: exI [of _ 0])
  next
    case Nil
    let ?p = "advance 1 p"
    have len: "n = length (ahead ?p)" using Suc(2) by simp
    from Suc(3) Nil have "concat (map (\<lambda>m. concat (map k (rounds False (rmatch x) n m))) ?ms) = q # l"
      by (simp add: rounds concat_map_concat o_def rmatch_Seq)
    moreover have "set ?ms \<subseteq> {?p}" using assms unfolding single_def by auto
    ultimately obtain l' where "concat (map k (rounds False (rmatch x) n ?p)) = q # l'"
      using concat_map_same by fast
    then obtain i where i: "i \<le> length (ahead ?p)" "\<exists>l. k (advance i ?p) = q # l" "\<forall>j<i. k (advance j ?p) = []"
      using Suc(1) [OF len] len by auto
    have adv: "advance j (advance (Suc 0) p) = advance (Suc j) p" for j using advance_advance [of 1 p j] Suc(2) by simp
    have "\<forall>j<Suc i. k (advance j p) = []" using Nil i(3) adv by (auto simp: less_Suc_eq_0_disj)
    then show ?thesis using i Suc(2) by (intro exI [of _ "Suc i"]) (auto simp: adv)
  qed
qed

text \<open>In a match of \<open>a x+? s\<close> the part \<open>x+?\<close> has the least length at which \<open>s\<close> follows.\<close>

lemma lazy_part:
  assumes "match_at (Seq a (Seq (Plus False x) s)) p = Some q" and "single x"
  shows "\<exists>m n. m \<in> set (rmatch a p) \<and> 1 \<le> n \<and> n \<le> length (ahead m) \<and> q \<in> set (rmatch s (advance n m)) \<and>
           (\<forall>j. 1 \<le> j \<and> j < n \<longrightarrow> rmatch s (advance j m) = [])"
proof -
  obtain l where "concat (map (rmatch (Seq (Plus False x) s)) (rmatch a p)) = q # l"
    using assms(1) by (auto simp: match_at_def split: list.splits if_splits)
  then obtain m l where m: "m \<in> set (rmatch a p)" and *: "rmatch (Seq (Plus False x) s) m = q # l"
    using concat_map_head by fast
  from * have "concat (map (\<lambda>m. concat (map (rmatch s) (rmatch (Many False x) m))) (rmatch x m)) = q # l"
    by (simp add: concat_map_concat o_def rmatch_Seq)
  moreover have "set (rmatch x m) \<subseteq> {advance 1 m}" using assms(2) by (simp add: single_def)
  ultimately obtain l' where "concat (map (rmatch s) (rmatch (Many False x) (advance 1 m))) = q # l'"
    using concat_map_same by fast
  then obtain i where i: "i \<le> length (ahead (advance 1 m))" "\<exists>l. rmatch s (advance i (advance 1 m)) = q # l"
      "\<forall>j<i. rmatch s (advance j (advance 1 m)) = []"
    using rounds_lazy_head [OF assms(2), of "rmatch s" "advance 1 m" q l'] by auto
  have ne: "ahead m \<noteq> []"
  proof
    assume "ahead m = []"
    then have "rmatch x m = []" using assms(2) by (simp add: single_def)
    then show False using * by simp
  qed
  then have adv: "advance j (advance (Suc 0) m) = advance (Suc j) m" for j
    using advance_advance [of 1 m j] by (cases "ahead m") auto
  show ?thesis
  proof (intro exI conjI)
    show "q \<in> set (rmatch s (advance (Suc i) m))" using i(2) by (auto simp: adv)
    show "\<forall>j. 1 \<le> j \<and> j < Suc i \<longrightarrow> rmatch s (advance j m) = []"
      using i(3) adv by (metis Suc_le_D Suc_less_eq One_nat_def)
    show "Suc i \<le> length (ahead m)" using i(1) ne by (cases "ahead m") auto
  qed (use m in simp_all)
qed

lemma match_at_assoc: "match_at (Seq (Seq a b) c) p = match_at (Seq a (Seq b c)) p"
  by (simp add: match_at_def concat_map_concat o_def rmatch_Seq)

text \<open>Without word boundaries the character before a position does not matter.\<close>

definition alike :: "pos \<Rightarrow> pos \<Rightarrow> bool" where
  "alike p q \<longleftrightarrow> ahead p = ahead q \<and> grps p = grps q"

lemma list_all2_concat_map:
  assumes "list_all2 R xs ys" and "\<And>x y. R x y \<Longrightarrow> list_all2 S (f x) (g y)"
  shows "list_all2 S (concat (map f xs)) (concat (map g ys))"
  using assms(1) by (induction rule: list_all2_induct) (auto intro: list_all2_appendI assms(2))

lemma alike_filter:
  "list_all2 alike xs ys \<Longrightarrow> list_all2 alike (filter (\<lambda>q. length (ahead q) < n) xs) (filter (\<lambda>q. length (ahead q) < n) ys)"
  by (induction rule: list_all2_induct) (auto simp: alike_def)

lemma rounds_alike:
  assumes "\<And>p p'. alike p p' \<Longrightarrow> list_all2 alike (f p) (f p')"
  shows "alike p p' \<Longrightarrow> list_all2 alike (rounds g f n p) (rounds g f n p')"
proof (induction n arbitrary: p p')
  case (Suc n)
  have "list_all2 alike (concat (map (rounds g f n) (filter (\<lambda>q. length (ahead q) < length (ahead p)) (f p))))
      (concat (map (rounds g f n) (filter (\<lambda>q. length (ahead q) < length (ahead p')) (f p'))))"
    using assms [OF Suc.prems] Suc.prems
    by (intro list_all2_concat_map [where R = alike] Suc.IH) (simp_all add: alike_def alike_filter)
  then show ?case using Suc.prems by (auto simp: Let_def intro: list_all2_appendI)
qed simp

lemma rmatch_alike: "unbound r \<Longrightarrow> alike p p' \<Longrightarrow> list_all2 alike (rmatch r p) (rmatch r p')"
proof (induction r arbitrary: p p')
  case (One P)
  then show ?case by (auto simp: alike_def split: list.splits)
next
  case (Seq r s)
  then show ?case by (auto intro!: list_all2_concat_map [where R = alike])
next
  case (Many g r)
  then have "length (ahead p) = length (ahead p')" by (simp add: alike_def)
  with Many show ?case by (auto intro!: rounds_alike)
next
  case (Grp n r)
  then have "list_all2 alike (rmatch r p) (rmatch r p')" by simp
  then show ?case using Grp.prems(2)
    by (auto simp: list_all2_map1 list_all2_map2 alike_def consumed_def elim!: list_all2_mono)
qed (auto simp: alike_def intro: list_all2_appendI)

lemma match_at_alike:
  assumes "unbound r" and "alike p p'"
  shows "rel_option alike (match_at r p) (match_at r p')"
  using rmatch_alike [OF assms] assms(2)
  by (cases "rmatch r p"; cases "rmatch r p'") (auto simp: match_at_def alike_def)

lemma expand_alike: "alike p p' \<Longrightarrow> alike q q' \<Longrightarrow> expand t p q = expand t p' q'"
proof -
  assume "alike p p'" "alike q q'"
  then have "piece_text p q x = piece_text p' q' x" for x by (cases x) (simp_all add: alike_def consumed_def)
  then have "piece_text p q = piece_text p' q'" by (rule ext)
  then show ?thesis by (simp add: expand_def)
qed

lemma subst_from_before: "unbound r \<Longrightarrow> subst_from r t lim b s = subst_from r t lim b' s"
proof (induction "length s" arbitrary: lim b b' s rule: less_induct)
  case less
  show ?case
  proof (cases s)
    case (Cons c s')
    have al: "alike (start b s) (start b' s)" by (simp add: alike_def)
    from match_at_alike [OF less.prems this]
    consider "match_at r (start b s) = None" "match_at r (start b' s) = None"
      | q q' where "match_at r (start b s) = Some q" "match_at r (start b' s) = Some q'" "alike q q'"
      by (cases "match_at r (start b s)"; cases "match_at r (start b' s)") auto
    then show ?thesis
    proof cases
      case 1
      then show ?thesis by (simp add: Cons)
    next
      case 2
      have "length (ahead q) < length s" using match_at_shorter [OF 2(1)] by simp
      from less(1) [OF this less.prems] 2(3)
      have "subst_from r t k (before q) (ahead q) = subst_from r t k (before q') (ahead q')" for k
        by (simp add: alike_def)
      moreover have "expand t (start b s) q = expand t (start b' s) q'" by (rule expand_alike [OF al 2(3)])
      ultimately show ?thesis using 2 by (simp add: Cons)
    qed
  qed simp
qed

end
