(* ===== verification/Cellift_Rewrite.thy ===== *)
theory Cellift_Rewrite imports Py_Regex "HOL-Library.Multiset" begin

section \<open>Preparing the Verilog sources for instrumentation\<close>

text \<open>
  The scripts of \<open>cellift/python_scripts\<close>: each reads a Verilog file, rewrites its text with regular
  expressions, checks that what it expects was there, and writes the result.  A pattern is the tree
  of the regular expression in the source, which is quoted above it; groups that no template refers
  to are left out.  A script is modelled with its command line (\<open>argv\<close>, with the name of the script
  first) and the reading of files as a parameter; its result is the file written, or the exception.
  What is printed is left out.
\<close>

subsection \<open>Parts of patterns\<close>

abbreviation NL :: rx where
  "NL \<equiv> Lit ''\<newline>''"

definition not_nl :: "char \<Rightarrow> bool" where
  "not_nl c \<longleftrightarrow> c \<noteq> CHR ''\<newline>''"

definition ident_char :: "char \<Rightarrow> bool" where
  "ident_char c \<longleftrightarrow> is_letter c \<or> is_digit c \<or> c = CHR ''_''"

text \<open>\<open>(.|\n)\<close>, where the dot does or does not match a newline; \<open>(\s|\n)\<close>.\<close>

definition any_or_nl :: "bool \<Rightarrow> rx" where
  "any_or_nl dotall = Alt (One (\<lambda>c. dotall \<or> rx_dot c)) NL"

definition space_or_nl :: rx where
  "space_or_nl = Alt (One rx_space) NL"

subsection \<open>Command lines\<close>

definition arg :: "string list \<Rightarrow> nat \<Rightarrow> string res" where
  "arg argv i = (if i < length argv then Inr (argv ! i) else Inl IndexError)"

text \<open>Read one file, rewrite its text, write another.\<close>

definition rewrite_file ::
  "(string \<Rightarrow> string res) \<Rightarrow> (string \<Rightarrow> string res) \<Rightarrow> string \<Rightarrow> string \<Rightarrow> (string \<times> string) res" where
  "rewrite_file read f src tgt =
     res_bind (read src) (\<lambda>content. res_map (Pair tgt) (f content))"

subsection \<open>Global imports\<close>

text \<open>\<open>(?:\s|\n|(?://|`)[^\n]*\n)*\<close>: white space, comments and directives.\<close>

definition SKIPPED :: rx where
  "SKIPPED =
     Many True (Alt (One rx_space)
       (Alt NL (seqs [Alt (Lit ''//'') (Lit ''`''), Many True (One not_nl), NL])))"

text \<open>\<open>import [a-zA-Z0-9_]+::\*;\<close>\<close>

definition IMPORT :: rx where
  "IMPORT = seqs [Lit ''import '', Plus True (One ident_char), Lit ''::*;'']"

text \<open>\<open>\n\s*(import ...)(...)((?:module|interface)(?:\s|\n)+[a-zA-Z0-9_]+)\<close>\<close>

definition MODULE_HEAD :: rx where
  "MODULE_HEAD =
     seqs [Alt (Lit ''module'') (Lit ''interface''), Plus True space_or_nl, Plus True (One ident_char)]"

definition IMPORT_MODULE :: rx where
  "IMPORT_MODULE = seqs [NL, Many True (One rx_space), Grp 1 IMPORT, Grp 2 SKIPPED, Grp 3 MODULE_HEAD]"

definition IMPORT_MODULE_NEW :: "piece list" where
  "IMPORT_MODULE_NEW = [Ref 2, Ref 3, Txt '' '', Ref 1]"

text \<open>\<open>\n\s*(import ...)(...)((?:package)(?:\s|\n)+[a-zA-Z0-9_]+\s*;)\<close>\<close>

definition PACKAGE_HEAD :: rx where
  "PACKAGE_HEAD =
     seqs [Lit ''package'', Plus True space_or_nl, Plus True (One ident_char), Many True (One rx_space), Lit '';'']"

definition IMPORT_PACKAGE :: rx where
  "IMPORT_PACKAGE = seqs [NL, Many True (One rx_space), Grp 1 IMPORT, Grp 2 SKIPPED, Grp 3 PACKAGE_HEAD]"

definition IMPORT_PACKAGE_NEW :: "piece list" where
  "IMPORT_PACKAGE_NEW = [Ref 2, Ref 3, Txt ''\<newline>'', Ref 1]"

text \<open>The two loops; \<open>None\<close> if one of them does not end.\<close>

definition fix_global_imports :: "string \<Rightarrow> string option" where
  "fix_global_imports s =
     Option.bind (sub_loop IMPORT_MODULE IMPORT_MODULE_NEW s) (sub_loop IMPORT_PACKAGE IMPORT_PACKAGE_NEW)"

definition fix_global_imports_main ::
  "(string \<Rightarrow> string res) \<Rightarrow> string list \<Rightarrow> (string \<times> string) res option" where
  "fix_global_imports_main read argv =
     (if length argv < 3 then Some (Inl ValueError)
      else case read (argv ! 1) of
        Inl e \<Rightarrow> Some (Inl e)
      | Inr s \<Rightarrow> map_option (\<lambda>y. Inr (argv ! 2, y)) (fix_global_imports s))"

subsection \<open>Removing modules\<close>

text \<open>
  \<open>module(\s|n)+{}(\s|\n)*(\(|#|import)(.|\n)+?endmodule[^\n]*\n\<close>, into which the name is formatted.  A name
  of letters, digits and underscores stands for itself in it.  For any other name what \<open>re.subn\<close> does
  with the text of the pattern is a parameter: special characters of the name have their meaning
  there, and it may be none that \<open>re\<close> accepts.
\<close>

definition MODULE_DEF :: "string \<Rightarrow> rx" where
  "MODULE_DEF name =
     seqs [Lit ''module'', Plus True (Alt (One rx_space) (Lit ''n'')), Lit name, Many True space_or_nl,
           Alt (Lit ''('') (Alt (Lit ''#'') (Lit ''import'')), Plus False (any_or_nl True),
           Lit ''endmodule'', Many True (One not_nl), NL]"

definition plain_name :: "string \<Rightarrow> bool" where
  "plain_name name \<longleftrightarrow> list_all ident_char name"

definition module_pattern :: "string \<Rightarrow> string" where
  "module_pattern name =
     ''module('' @ [CHR 0x5C] @ ''s|n)+'' @ name @ ''('' @ [CHR 0x5C] @ ''s|\<newline>)*('' @ [CHR 0x5C] @
     ''(|#|import)(.|\<newline>)+?endmodule[^\<newline>]*\<newline>''"

type_synonym subn_lib = "string \<Rightarrow> string \<Rightarrow> string \<Rightarrow> nat \<Rightarrow> (string \<times> nat) res"

definition remove_module :: "subn_lib \<Rightarrow> string \<Rightarrow> string \<Rightarrow> (string \<times> nat) res" where
  "remove_module lib name s =
     (if plain_name name then Inr (re_subn (MODULE_DEF name) [Txt ''\<newline>''] (Some 1) s)
      else lib (module_pattern name) ''\<newline>'' s 1)"

definition remove_modules :: "subn_lib \<Rightarrow> string list \<Rightarrow> string \<Rightarrow> string res" where
  "remove_modules lib names s = res_foldM (\<lambda>s name. res_map fst (remove_module lib name s)) s names"

definition remove_modules_main ::
  "subn_lib \<Rightarrow> (string \<Rightarrow> string res) \<Rightarrow> string list \<Rightarrow> (string \<times> string) res" where
  "remove_modules_main lib read argv =
     res_bind (arg argv 1) (\<lambda>src.
     res_bind (read src) (\<lambda>s.
     res_bind (remove_modules lib (drop 3 argv) s) (\<lambda>out. res_map (\<lambda>tgt. (tgt, out)) (arg argv 2))))"

subsection \<open>Removing what synthesis skips\<close>

text \<open>\<open>\n\s*//\s*(pragma|synopsys) translate_off(.|\n)+?(pragma|synopsys) translate_on\<close>\<close>

definition TOOL :: rx where
  "TOOL = Alt (Lit ''pragma'') (Lit ''synopsys'')"

definition TRANSLATE_OFF :: rx where
  "TRANSLATE_OFF =
     seqs [NL, Many True (One rx_space), Lit ''//'', Many True (One rx_space), TOOL, Lit '' translate_off'']"

definition TRANSLATE_ON :: rx where
  "TRANSLATE_ON = Seq TOOL (Lit '' translate_on'')"

definition PRAGMA_TRANSLATE_OFF_REGEX :: rx where
  "PRAGMA_TRANSLATE_OFF_REGEX = Seq TRANSLATE_OFF (Seq (Plus False (any_or_nl True)) TRANSLATE_ON)"

definition remove_translate_off :: "string \<Rightarrow> string" where
  "remove_translate_off s = re_sub PRAGMA_TRANSLATE_OFF_REGEX [] s"

definition remove_translate_off_main ::
  "(string \<Rightarrow> string res) \<Rightarrow> string list \<Rightarrow> (string \<times> string) res" where
  "remove_translate_off_main read argv =
     res_bind (arg argv 1) (\<lambda>src. res_bind (arg argv 2) (\<lambda>tgt.
       rewrite_file read (\<lambda>s. Inr (remove_translate_off s)) src tgt))"

subsection \<open>The black box attribute\<close>

definition BLACKBOX_ATTR_TEXT :: string where
  "BLACKBOX_ATTR_TEXT = ''\<newline>(* blackbox *)''"

text \<open>\<open>\n\s*module\s+model_6144x32_2048x32scm\b\<close>\<close>

definition IFT_SCM_MODULE_DEF_REGEX :: rx where
  "IFT_SCM_MODULE_DEF_REGEX =
     seqs [NL, Many True (One rx_space), Lit ''module'', Plus True (One rx_space),
           Lit ''model_6144x32_2048x32scm'', Bound]"

definition insert_blackbox_attrs :: "string \<Rightarrow> string res" where
  "insert_blackbox_attrs s =
     (case re_subn IFT_SCM_MODULE_DEF_REGEX [Txt BLACKBOX_ATTR_TEXT, Ref 0] None s of
        (content, nb_subs) \<Rightarrow> if nb_subs \<noteq> 1 then Inl ValueError else Inr content)"

definition insert_blackbox_attrs_main ::
  "(string \<Rightarrow> string res) \<Rightarrow> string list \<Rightarrow> (string \<times> string) res" where
  "insert_blackbox_attrs_main read argv =
     res_bind (arg argv 1) (\<lambda>src. res_bind (arg argv 2) (\<lambda>tgt.
       rewrite_file read insert_blackbox_attrs src tgt))"

subsection \<open>Replacing instances\<close>

text \<open>\<open>soc_clk_rst_gen\s+i_clk_rst_gen(?:(?:.|\n)+?);\<close>, with and without \<open>DOTALL\<close>.\<close>

definition CLK_RST_GEN :: "bool \<Rightarrow> rx" where
  "CLK_RST_GEN dotall =
     seqs [Lit ''soc_clk_rst_gen'', Plus True (One rx_space), Lit ''i_clk_rst_gen'',
           Plus False (any_or_nl dotall), Lit '';'']"

text \<open>\<open>(r_fetchen\s*<=\s*1?'[a-zA-Z])[01]\<close>\<close>

definition R_FETCHEN :: rx where
  "R_FETCHEN =
     Seq (Grp 1 (seqs [Lit ''r_fetchen'', Many True (One rx_space), Lit ''<='', Many True (One rx_space),
                       Maybe (Lit ''1''), Lit [CHR 0x27], One is_letter]))
         (One (\<lambda>c. c = CHR ''0'' \<or> c = CHR ''1''))"

definition CLK_ASSIGNS :: string where
  "CLK_ASSIGNS =
     ''\<newline>'' @
     ''    assign s_soc_clk = dft_test_mode_i ? test_clk_i : ref_clk_i;\<newline>'' @
     ''    assign s_cluster_clk = dft_test_mode_i ? test_clk_i : ref_clk_i;\<newline>'' @
     ''    assign s_periph_clk = dft_test_mode_i ? test_clk_i : ref_clk_i;\<newline>'' @
     ''    assign s_soc_rstn = rstn_glob_i;\<newline>'' @
     ''    assign s_cluster_rstn = rstn_glob_i;\<newline>'' @
     ''\<newline>'' @
     ''    // Ignore the FLL bus transactions for now.\<newline>'' @
     (''    assign s_soc_fll_master.ack = '' @ [CHR 0x27] @ ''1;\<newline>'') @
     (''    assign s_soc_fll_master.r_data = '' @ [CHR 0x27] @ ''0;\<newline>'') @
     (''    assign s_soc_fll_master.lock = '' @ [CHR 0x27] @ ''1;\<newline>'') @
     (''    assign s_per_fll_master.ack = '' @ [CHR 0x27] @ ''1;\<newline>'') @
     (''    assign s_per_fll_master.r_data = '' @ [CHR 0x27] @ ''0;\<newline>'') @
     (''    assign s_per_fll_master.lock = '' @ [CHR 0x27] @ ''1;\<newline>'') @
     (''    assign s_cluster_fll_master.ack = '' @ [CHR 0x27] @ ''1;\<newline>'') @
     (''    assign s_cluster_fll_master.r_data = '' @ [CHR 0x27] @ ''0;\<newline>'') @
     (''    assign s_cluster_fll_master.lock = '' @ [CHR 0x27] @ ''1;\<newline>'')"

definition EXACT1_OLD :: string where
  "EXACT1_OLD =
     ''      generic_memory #(\<newline>'' @
     ''         .ADDR_WIDTH ( MEM_ADDR_WIDTH_PRI  ),\<newline>'' @
     ''         .DATA_WIDTH ( 32                  )\<newline>'' @
     ''      ) bank_sram_pri1_i (\<newline>'' @
     ''         .CLK   ( clk_i                      ),\<newline>'' @
     (''         .INITN ( 1'' @ [CHR 0x27] @ ''b1                       ),\<newline>'') @
     ''         .CEN   ( mem_pri_slave[1].csn       ),\<newline>'' @
     ''         .BEN   ( ~mem_pri_slave[1].be       ),\<newline>'' @
     ''         .WEN   ( mem_pri_slave[1].wen       ),\<newline>'' @
     ''         .A     ( mem_pri_slave[1].add[MEM_ADDR_WIDTH_PRI-1:0] ),\<newline>'' @
     ''         .D     ( mem_pri_slave[1].wdata     ),\<newline>'' @
     ''         .Q     ( mem_pri_slave[1].rdata     )\<newline>'' @
     ''      );''"

definition EXACT1_NEW :: string where
  "EXACT1_NEW =
     ''\<newline>'' @
     ''    ift_sram #(\<newline>'' @
     ''      .NumWords  ( BANK_SIZE_PRI1 ),\<newline>'' @
     ''      .DataWidth ( 32             ),\<newline>'' @
     ''      .NumPorts  ( 1              ),\<newline>'' @
     ''      .Latency   ( 1              ),\<newline>'' @
     ''      .NumBanks( 1 ),\<newline>'' @
     ''      .BankId( 0 ),\<newline>'' @
     (''      .AddrOffset( 32'' @ [CHR 0x27] @ ''h1C00_8000 )\<newline>'') @
     ''    ) bank_sram_pri1_i (\<newline>'' @
     ''      .clk_i,\<newline>'' @
     ''      .rst_ni,\<newline>'' @
     ''      .req_i   ( ~mem_pri_slave[1].csn                  ),\<newline>'' @
     ''      .we_i    ( ~mem_pri_slave[1].wen                  ),\<newline>'' @
     ''      .addr_i  (  mem_pri_slave[1].add[MEM_ADDR_WIDTH_PRI-1:0] ),\<newline>'' @
     ''      .wdata_i (  mem_pri_slave[1].wdata                ),\<newline>'' @
     ''      .be_i    (  mem_pri_slave[1].be                   ),\<newline>'' @
     ''      .rdata_o (  mem_pri_slave[1].rdata                )\<newline>'' @
     ''    );''"

definition EXACT2_OLD :: string where
  "EXACT2_OLD =
     ''                  model_sram_28672x32_scm_512x32 bank_i (\<newline>'' @
     ''                     .CLK   ( clk_i                                ),\<newline>'' @
     ([CHR 0x09] @ [CHR 0x09] @ ''     .RSTN  ( rst_ni                               ),\<newline>'') @
     ''                     .D     ( mem_slave[i].wdata                   ),\<newline>'' @
     ''                     .A     ( mem_slave[i].add[MEM_ADDR_WIDTH-1:0] ),\<newline>'' @
     ''                     .CEN   ( mem_slave[i].csn                     ),\<newline>'' @
     ''                     .WEN   ( mem_slave[i].wen                     ),\<newline>'' @
     ''                     .BEN   ( ~mem_slave[i].be                     ),\<newline>'' @
     ''                     .Q     ( mem_slave[i].rdata                   )\<newline>'' @
     ''                  );''"

definition EXACT2_NEW :: string where
  "EXACT2_NEW =
     ''       ift_sram #(\<newline>'' @
     ''         .NumWords  ( BANK_SIZE_INTL_SRAM ),\<newline>'' @
     ''         .DataWidth ( 32                  ),\<newline>'' @
     ''         .NumPorts  ( 1                   ),\<newline>'' @
     ''         .NumBanks(NB_BANKS),\<newline>'' @
     ''         .BankId( i ),\<newline>'' @
     (''      .AddrOffset( 32'' @ [CHR 0x27] @ ''h1C01_0000 )\<newline>'') @
     ''       ) bank_i (\<newline>'' @
     ''         .clk_i,\<newline>'' @
     ''         .rst_ni,\<newline>'' @
     ''         .req_i   ( ~mem_slave[i].csn                                  ),\<newline>'' @
     ''         .we_i    ( ~mem_slave[i].wen                                  ),\<newline>'' @
     ''         .addr_i  (  mem_slave[i].add[MEM_ADDR_WIDTH-1:0] ), // Remove LSBs for byte addressing (2 bits)\<newline>'' @
     ''                                                                                                              // and bank selection (log2(NB_BANKS) bits)\<newline>'' @
     ''         .wdata_i (  mem_slave[i].wdata                                ),\<newline>'' @
     ''         .be_i    (  mem_slave[i].be                                   ),\<newline>'' @
     ''         .rdata_o (  mem_slave[i].rdata                                )\<newline>'' @
     ''       );''"

definition EXACT3_OLD :: string where
  "EXACT3_OLD =
     ''boot_rom #(\<newline>'' @
     ''        .ROM_ADDR_WIDTH(ROM_ADDR_WIDTH)\<newline>'' @
     ''    ) boot_rom_i (\<newline>'' @
     ''        .clk_i       ( s_soc_clk       ),\<newline>'' @
     ''        .rst_ni      ( s_soc_rstn      ),\<newline>'' @
     (''        .init_ni     ( 1'' @ [CHR 0x27] @ ''b1            ),\<newline>'') @
     ''        .mem_slave   ( s_mem_rom_bus   ),\<newline>'' @
     ''        .test_mode_i ( dft_test_mode_i )\<newline>'' @
     ''    );''"

definition EXACT3_NEW :: string where
  "EXACT3_NEW =
     ''ift_boot_rom_hdac #(\<newline>'' @
     ''        .ROM_ADDR_WIDTH(ROM_ADDR_WIDTH)\<newline>'' @
     ''    ) boot_rom_i (\<newline>'' @
     ''        .clk_i       ( s_soc_clk           ),\<newline>'' @
     ''        .rst_ni      ( s_soc_rstn          ),\<newline>'' @
     (''        .init_ni     ( 1'' @ [CHR 0x27] @ ''b1                ),\<newline>'') @
     ''        .wdata       ( s_mem_rom_bus.wdata ),\<newline>'' @
     ''        .add         ( s_mem_rom_bus.add   ),\<newline>'' @
     ''        .csn         ( s_mem_rom_bus.csn   ),\<newline>'' @
     ''        .wen         ( s_mem_rom_bus.wen   ),\<newline>'' @
     ''        .be          ( s_mem_rom_bus.be    ),\<newline>'' @
     ''        .id          ( s_mem_rom_bus.id    ),\<newline>'' @
     ''        .rdata       ( s_mem_rom_bus.rdata ),\<newline>'' @
     ''        .test_mode_i ( dft_test_mode_i     )\<newline>'' @
     ''    );''"

text \<open>The pattern of the check, that of the replacement, and the template.\<close>

definition REPLACEMENTS_REGEX :: "(rx \<times> rx \<times> piece list) list" where
  "REPLACEMENTS_REGEX =
     [(CLK_RST_GEN False, CLK_RST_GEN True, [Txt CLK_ASSIGNS]),
      (R_FETCHEN, R_FETCHEN, [Ref 1, Txt ''1''])]"

definition REPLACEMENTS_EXACT :: "(string \<times> string) list" where
  "REPLACEMENTS_EXACT =
     [(EXACT1_OLD, EXACT1_NEW), (EXACT2_OLD, EXACT2_NEW), (EXACT3_OLD, EXACT3_NEW)]"

definition TO_ADD :: "string list" where
  "TO_ADD = []"

text \<open>\<open>content.replace(old, new)\<close> for a nonempty \<open>old\<close>.\<close>

function py_replace :: "string \<Rightarrow> string \<Rightarrow> string \<Rightarrow> string" where
  "py_replace old new [] = []"
| "py_replace old new (c # s) =
     (if old \<noteq> [] \<and> prefix old (c # s) then new @ py_replace old new (drop (length old) (c # s))
      else c # py_replace old new s)"
  by pat_completeness auto

termination
  by (relation "measure (\<lambda>(old, new, s). length s)") auto

definition replace_regex :: "string \<Rightarrow> (rx \<times> rx \<times> piece list) \<Rightarrow> string res" where
  "replace_regex content elem =
     (case elem of (check, old, new) \<Rightarrow>
        if \<not> re_found check content then Inl ValueError else Inr (re_sub old new content))"

definition replace_exact :: "string \<Rightarrow> (string \<times> string) \<Rightarrow> string res" where
  "replace_exact content elem =
     (case elem of (old, new) \<Rightarrow>
        if \<not> has_sub old content then Inl ValueError else Inr (py_replace old new content))"

definition replace_instances :: "string \<Rightarrow> string res" where
  "replace_instances content =
     res_bind (res_foldM replace_regex content REPLACEMENTS_REGEX) (\<lambda>content.
     res_bind (res_foldM replace_exact content REPLACEMENTS_EXACT) (\<lambda>content.
       Inr (content @ py_join ''\<newline>\<newline>'' TO_ADD)))"

definition replace_instances_main ::
  "(string \<Rightarrow> string res) \<Rightarrow> string list \<Rightarrow> (string \<times> string) res" where
  "replace_instances_main read argv =
     (if length argv \<noteq> 3 then Inl AssertionError
      else rewrite_file read replace_instances (argv ! 1) (argv ! 2))"

subsection \<open>Names of instrumented memories\<close>

text \<open>\<open>\\\$paramod[\w\\='$]+\s+\<close>\<close>

definition PARAMOD :: rx where
  "PARAMOD =
     seqs [Lit ([CHR 0x5C] @ ''$paramod''),
           Plus True (One (\<lambda>c. rx_word c \<or> c \<in> {CHR 0x5C, CHR ''='', CHR 0x27, CHR ''$''})),
           Plus True (One rx_space)]"

text \<open>
  \<open>boot_rom_i\<close>, \<open>\\l2_ram_i\.CUTS\[(\d)\]\.bank_i\<close> and \<open>\\l2_ram_i\.bank_sram_pri1_i\<close> after it, and
  \<open>model_6144x32_2048x32scm(?:(?:.|\n)+?)\)[\s\n]*;\<close>.
\<close>

definition DEPARAM_REGEX :: "rx list" where
  "DEPARAM_REGEX =
     [Seq PARAMOD (Lit ''boot_rom_i''),
      Seq PARAMOD (seqs [Lit ([CHR 0x5C] @ ''l2_ram_i.CUTS[''), Grp 1 (One is_digit), Lit ''].bank_i'']),
      Seq PARAMOD (Lit ([CHR 0x5C] @ ''l2_ram_i.bank_sram_pri1_i'')),
      seqs [Lit ''model_6144x32_2048x32scm'', Plus False (any_or_nl False), Lit '')'',
            Many True (One (\<lambda>c. rx_space c \<or> c = CHR ''\<newline>'')), Lit '';'']]"

definition DEPARAM_REPLACE0 :: "piece list" where
  "DEPARAM_REPLACE0 =
     [Txt (''ift_boot_rom_hdac boot_rom_i'')]"

definition DEPARAM_REPLACE1 :: "piece list" where
  "DEPARAM_REPLACE1 =
     [Txt (''ift_sram #(\<newline>'' @
           (''    .NumWords(32'' @ [CHR 0x27] @ ''h7000),\<newline>'') @
           ''    .DataWidth(32),\<newline>'' @
           ''    .NumBanks(4),\<newline>'' @
           ''    .BankId(''),
      Ref 1,
      Txt (''),\<newline>'' @
           (''    .AddrOffset(32'' @ [CHR 0x27] @ ''h1C01_0000 + 4*32'' @ [CHR 0x27] @ ''h7000*'')),
      Ref 1,
      Txt ('')\<newline>'' @
           ''    ) interleaved_sram_''),
      Ref 1,
      Txt (''_i\<newline>'')]"

definition DEPARAM_REPLACE2 :: "piece list" where
  "DEPARAM_REPLACE2 =
     [Txt (''ift_sram #(\<newline>'' @
           (''    .NumWords(32'' @ [CHR 0x27] @ ''h2000),\<newline>'') @
           ''    .DataWidth(32),\<newline>'' @
           ''    .NumBanks(1),\<newline>'' @
           ''    .BankId(0),\<newline>'' @
           (''    .AddrOffset(32'' @ [CHR 0x27] @ ''h1C00_8000)\<newline>'') @
           ''    ) pri1_sram_i\<newline>'')]"

definition DEPARAM_REPLACE3 :: "piece list" where
  "DEPARAM_REPLACE3 =
     [Txt (''\<newline>'' @
           (''  assign '' @ [CHR 0x5C] @ ''s_mem_l2_pri_bus[0].rdata = 0;\<newline>'') @
           (''  assign '' @ [CHR 0x5C] @ ''fc_subsystem_i.fc_demux_data_i.rdata_port1 = 0;\<newline>'') @
           (''  assign '' @ [CHR 0x5C] @ ''fc_subsystem_i.fc_demux_data_i.rdata_port1_t0 = 0;\<newline>'') @
           (''  assign '' @ [CHR 0x5C] @ ''fc_subsystem_i.fc_demux_instr_i.rdata_port1 = 0;\<newline>'') @
           (''  assign '' @ [CHR 0x5C] @ ''fc_subsystem_i.fc_demux_instr_i.rdata_port1_t0 = 0;\<newline>'') @
           (''  assign '' @ [CHR 0x5C] @ ''s_mem_l2_pri_bus[0].rdata_t0 = 0;\<newline>''))]"

definition deparam_step :: "string \<Rightarrow> rx \<times> piece list \<Rightarrow> string res" where
  "deparam_step content elem =
     (case elem of (old, new) \<Rightarrow>
        case re_subn old new None content of (content, num_subs) \<Rightarrow>
          if \<not> 0 < num_subs then Inl AssertionError else Inr content)"

definition deparam_names :: "string \<Rightarrow> string res" where
  "deparam_names content =
     res_foldM deparam_step content
       (zip DEPARAM_REGEX [DEPARAM_REPLACE0, DEPARAM_REPLACE1, DEPARAM_REPLACE2, DEPARAM_REPLACE3])"

text \<open>The message about missing arguments does not end the script: a missing target is only noticed when writing.\<close>

definition deparam_names_main ::
  "(string \<Rightarrow> string res) \<Rightarrow> string list \<Rightarrow> (string \<times> string) res" where
  "deparam_names_main read argv =
     res_bind (arg argv 1) (\<lambda>src.
     res_bind (read src) (\<lambda>s.
     res_bind (deparam_names s) (\<lambda>out. res_map (\<lambda>tgt. (tgt, out)) (arg argv 2))))"

subsection \<open>The loops over imports end\<close>

lemma import_no_grp [simp]: "no_grp IMPORT" "no_grp SKIPPED" "no_grp MODULE_HEAD" "no_grp PACKAGE_HEAD"
  by (simp_all add: IMPORT_def SKIPPED_def MODULE_HEAD_def PACKAGE_HEAD_def space_or_nl_def)

text \<open>What a match of either pattern consists of.\<close>

lemma import_match:
  assumes "match_at (seqs [NL, Many True (One rx_space), Grp 1 IMPORT, Grp 2 SKIPPED, Grp 3 head]) p = Some q"
    and "no_grp head" and "grps p = []"
  obtains ws imp skipped decl where "consumed p q = ''\<newline>'' @ ws @ imp @ skipped @ decl"
    and "list_all rx_space ws" and "in_lang IMPORT imp" and "in_lang SKIPPED skipped" and "in_lang head decl"
    and "map_of (grps q) 1 = Some imp" and "map_of (grps q) 2 = Some skipped" and "map_of (grps q) 3 = Some decl"
proof -
  have "q \<in> set (rmatch (Seq NL (Seq (Many True (One rx_space))
      (Seq (Grp 1 IMPORT) (Seq (Grp 2 SKIPPED) (Grp 3 head))))) p)"
    using match_at_Some(1) [OF assms(1)] by (simp only: seqs.simps)
  then obtain m1 m2 m3 m4 where
    m1: "m1 \<in> set (rmatch NL p)" "consumed p q = consumed p m1 @ consumed m1 q" and
    m2: "m2 \<in> set (rmatch (Many True (One rx_space)) m1)" "consumed m1 q = consumed m1 m2 @ consumed m2 q" and
    m3: "m3 \<in> set (rmatch (Grp 1 IMPORT) m2)" "consumed m2 q = consumed m2 m3 @ consumed m3 q" and
    m4: "m4 \<in> set (rmatch (Grp 2 SKIPPED) m3)" "consumed m3 q = consumed m3 m4 @ consumed m4 q" and
    q: "q \<in> set (rmatch (Grp 3 head) m4)"
    by (elim rmatch_SeqE)
  have g1: "grps m1 = []" "in_lang NL (consumed p m1)"
    using rmatch_plainE [OF m1(1)] assms(3) by auto
  have g2: "grps m2 = []" "in_lang (Many True (One rx_space)) (consumed m1 m2)"
    using rmatch_plainE [OF m2(1)] g1(1) by auto
  have g3: "grps m3 = [(1, consumed m2 m3)]" "in_lang IMPORT (consumed m2 m3)"
    using rmatch_GrpE [OF m3(1)] g2(1) by auto
  have g4: "grps m4 = [(2, consumed m3 m4), (1, consumed m2 m3)]" "in_lang SKIPPED (consumed m3 m4)"
    using rmatch_GrpE [OF m4(1)] g3(1) by auto
  have g5: "grps q = [(3, consumed m4 q), (2, consumed m3 m4), (1, consumed m2 m3)]" "in_lang head (consumed m4 q)"
    using rmatch_GrpE [OF q assms(2)] g4(1) by auto
  show thesis
  proof
    show "consumed p q = ''\<newline>'' @ consumed m1 m2 @ consumed m2 m3 @ consumed m3 m4 @ consumed m4 q"
      using m1(2) m2(2) m3(2) m4(2) g1(2) by simp
    show "list_all rx_space (consumed m1 m2)" using g2(2) by (simp add: in_lang_Many_One)
  qed (use g3(2) g4(2) g5 in simp_all)
qed

text \<open>The first loop removes a newline with each replacement.\<close>

definition newlines :: "string \<Rightarrow> nat" where
  "newlines s = count_list s (CHR ''\<newline>'')"

lemma newlines_simps [simp]:
  "newlines (u @ v) = newlines u + newlines v" "newlines [] = 0"
  "newlines (c # s) = (if c = CHR ''\<newline>'' then 1 else 0) + newlines s"
  by (simp_all add: newlines_def)

interpretation modules: shrinking "\<lambda>u v. newlines u < newlines v" IMPORT_MODULE IMPORT_MODULE_NEW
proof
  show "wf {(u, v). newlines u < newlines v}"
    using wf_measure [of newlines] by (simp add: measure_def inv_image_def)
  fix p q assume m: "match_at IMPORT_MODULE p = Some q" and "grps p = []"
  then obtain ws imp skipped decl where "consumed p q = ''\<newline>'' @ ws @ imp @ skipped @ decl"
    "map_of (grps q) 1 = Some imp" "map_of (grps q) 2 = Some skipped" "map_of (grps q) 3 = Some decl"
    using import_match [OF m [unfolded IMPORT_MODULE_def] import_no_grp(3)] by metis
  then show "newlines (expand IMPORT_MODULE_NEW p q) < newlines (consumed p q)"
    by (simp add: expand_def IMPORT_MODULE_NEW_def)
qed auto

text \<open>
  The second loop keeps the newline in front of the import, so a pass may leave both the length and
  the number of newlines as they were.  What gets smaller is the text in the order by length and
  then by the first difference, where \<open>i\<close> counts more than a newline and a newline more than any
  other character: what moves to the front is a blank, a comment, a directive or \<open>package\<close>.
\<close>

definition rank :: "char \<Rightarrow> nat" where
  "rank c = (if c = CHR ''i'' then 2 else if c = CHR ''\<newline>'' then 1 else 0)"

definition precedes :: "string \<Rightarrow> string \<Rightarrow> bool" where
  "precedes u v \<longleftrightarrow> (u, v) \<in> lenlex (measure rank)"

lemma precedes_wf: "wf {(u, v). precedes u v}"
  by (simp add: precedes_def wf_lenlex)

lemma precedes_context: "precedes u v \<Longrightarrow> precedes (x @ u @ y) (x @ v @ y)"
proof (induction x)
  case Nil
  then show ?case by (auto simp: precedes_def lenlex_conv lex_append_rightI)
next
  case (Cons c x)
  then show ?case by (simp add: precedes_def Cons_lenlex_iff lenlex_length)
qed

lemma precedes_trans: "precedes u v \<Longrightarrow> precedes v w \<Longrightarrow> precedes u w"
  unfolding precedes_def by (rule lenlex_trans) (auto intro: transI)

definition heads_ok :: "string \<Rightarrow> bool" where
  "heads_ok s \<longleftrightarrow>
     (case s of [] \<Rightarrow> False
      | c # s' \<Rightarrow> c \<noteq> CHR ''i'' \<and> (c = CHR ''\<newline>'' \<longrightarrow> (case s' of [] \<Rightarrow> False | d # _ \<Rightarrow> d \<noteq> CHR ''i'')))"

lemma heads_ok_Cons: "c \<noteq> CHR ''i'' \<Longrightarrow> heads_ok s \<Longrightarrow> heads_ok (c # s)"
  by (cases s) (simp_all add: heads_ok_def)

lemma heads_ok_other: "c \<noteq> CHR ''i'' \<Longrightarrow> c \<noteq> CHR ''\<newline>'' \<Longrightarrow> heads_ok (c # s)"
  by (simp add: heads_ok_def)

lemma not_space_i: "\<not> rx_space (CHR ''i'')"
  by (simp add: rx_space_def is_space_def)

lemma skipped_heads: "in_lang SKIPPED u \<Longrightarrow> heads_ok v \<Longrightarrow> heads_ok (u @ v)"
  unfolding SKIPPED_def
proof (induction "Many True (Alt (One rx_space)
       (Alt NL (seqs [Alt (Lit ''//'') (Lit ''`''), Many True (One not_nl), NL])))" u rule: in_lang.induct)
  case (lang_Many1 u w)
  then have rest: "heads_ok (w @ v)" by simp
  from lang_Many1(1) consider c where "u = [c]" "c \<noteq> CHR ''i''"
    | c u' where "u = c # u'" "c = CHR ''/'' \<or> c = CHR ''`''"
    using not_space_i by fastforce
  then show ?case using rest by cases (auto intro: heads_ok_Cons heads_ok_other)
qed simp

lemma package_heads: "in_lang PACKAGE_HEAD decl \<Longrightarrow> heads_ok decl"
  by (auto simp: PACKAGE_HEAD_def intro: heads_ok_other)

lemma import_head: "in_lang IMPORT imp \<Longrightarrow> \<exists>rest. imp = CHR ''i'' # rest"
  by (auto simp: IMPORT_def)

lemma precedes_rotation:
  assumes "heads_ok b" and "imp = CHR ''i'' # rest"
  shows "precedes (b @ ''\<newline>'' @ imp) (''\<newline>'' @ ws @ imp @ b)"
proof (cases "ws = []")
  case False
  then show ?thesis by (simp add: precedes_def lenlex_conv)
next
  case True
  let ?x = "b @ ''\<newline>'' @ imp" and ?y = "''\<newline>'' @ imp @ b"
  have "\<exists>pre x y xs ys. ?x = pre @ x # xs \<and> ?y = pre @ y # ys \<and> rank x < rank y"
  proof (cases b)
    case Nil
    then show ?thesis using assms(1) by (simp add: heads_ok_def)
  next
    case (Cons c b')
    show ?thesis
    proof (cases "c = CHR ''\<newline>''")
      case True
      then obtain d b'' where "b' = d # b''" "d \<noteq> CHR ''i''"
        using assms(1) Cons by (cases b') (auto simp: heads_ok_def)
      then have "?x = ''\<newline>'' @ d # (b'' @ ''\<newline>'' @ imp)" "?y = ''\<newline>'' @ CHR ''i'' # (rest @ b)" "rank d < rank (CHR ''i'')"
        using True Cons assms(2) by (simp_all add: rank_def)
      then show ?thesis by blast
    next
      case False
      then have "?x = [] @ c # (b' @ ''\<newline>'' @ imp)" "?y = [] @ CHR ''\<newline>'' # (imp @ b)" "rank c < rank (CHR ''\<newline>'')"
        using assms(1) Cons by (simp_all add: heads_ok_def rank_def)
      then show ?thesis by blast
    qed
  qed
  then have "(?x, ?y) \<in> lex (measure rank)" by (auto simp: lex_conv)
  then show ?thesis using True by (simp add: precedes_def lenlex_conv)
qed

interpretation packages: shrinking precedes IMPORT_PACKAGE IMPORT_PACKAGE_NEW
proof
  fix p q assume m: "match_at IMPORT_PACKAGE p = Some q" and g: "grps p = []"
  then obtain ws imp skipped decl where c: "consumed p q = ''\<newline>'' @ ws @ imp @ skipped @ decl"
    and l: "in_lang IMPORT imp" "in_lang SKIPPED skipped" "in_lang PACKAGE_HEAD decl"
    and e: "map_of (grps q) 1 = Some imp" "map_of (grps q) 2 = Some skipped" "map_of (grps q) 3 = Some decl"
    using import_match [OF m [unfolded IMPORT_PACKAGE_def] import_no_grp(4)] by metis
  obtain rest where "imp = CHR ''i'' # rest" using import_head [OF l(1)] by blast
  with skipped_heads [OF l(2) package_heads [OF l(3)]]
  have "precedes ((skipped @ decl) @ ''\<newline>'' @ imp) (''\<newline>'' @ ws @ imp @ skipped @ decl)"
    by (rule precedes_rotation)
  then show "precedes (expand IMPORT_PACKAGE_NEW p q) (consumed p q)"
    using e by (simp add: expand_def IMPORT_PACKAGE_NEW_def c)
qed (rule precedes_wf, fact precedes_trans, fact precedes_context)

subsection \<open>The loops keep the text\<close>

definition visible :: "string \<Rightarrow> char multiset" where
  "visible s = mset (filter (\<lambda>c. \<not> rx_space c) s)"

lemma visible_append [simp]: "visible (u @ v) = visible u + visible v"
  by (simp add: visible_def)

lemma visible_blank: "list_all rx_space ws \<Longrightarrow> visible ws = {#}"
  by (auto simp: visible_def list_all_iff filter_empty_conv)

lemma visible_space [simp]: "visible '' '' = {#}" "visible ''\<newline>'' = {#}"
  by (simp_all add: visible_def rx_space_def is_space_def)

interpretation module_text: preserving visible IMPORT_MODULE IMPORT_MODULE_NEW
proof
  fix p q assume m: "match_at IMPORT_MODULE p = Some q" and "grps p = []"
  then obtain ws imp skipped decl where c: "consumed p q = ''\<newline>'' @ ws @ imp @ skipped @ decl"
    "list_all rx_space ws"
    and e: "map_of (grps q) 1 = Some imp" "map_of (grps q) 2 = Some skipped" "map_of (grps q) 3 = Some decl"
    using import_match [OF m [unfolded IMPORT_MODULE_def] import_no_grp(3)] by metis
  have "expand IMPORT_MODULE_NEW p q = skipped @ decl @ '' '' @ imp"
    using e by (simp add: expand_def IMPORT_MODULE_NEW_def)
  with c visible_blank show "visible (expand IMPORT_MODULE_NEW p q) = visible (consumed p q)"
    by (simp only: visible_append visible_space) (simp add: ac_simps)
qed simp

interpretation package_text: preserving visible IMPORT_PACKAGE IMPORT_PACKAGE_NEW
proof
  fix p q assume m: "match_at IMPORT_PACKAGE p = Some q" and "grps p = []"
  then obtain ws imp skipped decl where c: "consumed p q = ''\<newline>'' @ ws @ imp @ skipped @ decl"
    "list_all rx_space ws"
    and e: "map_of (grps q) 1 = Some imp" "map_of (grps q) 2 = Some skipped" "map_of (grps q) 3 = Some decl"
    using import_match [OF m [unfolded IMPORT_PACKAGE_def] import_no_grp(4)] by metis
  have "expand IMPORT_PACKAGE_NEW p q = skipped @ decl @ ''\<newline>'' @ imp"
    using e by (simp add: expand_def IMPORT_PACKAGE_NEW_def)
  with c visible_blank show "visible (expand IMPORT_PACKAGE_NEW p q) = visible (consumed p q)"
    by (simp only: visible_append visible_space) (simp add: ac_simps)
qed simp

interpretation module_move: moving "\<lambda>u v. newlines u < newlines v" visible IMPORT_MODULE IMPORT_MODULE_NEW ..

interpretation package_move: moving precedes visible IMPORT_PACKAGE IMPORT_PACKAGE_NEW ..

subsection \<open>What one move does\<close>

text \<open>
  An import at the beginning of a line moves behind the declaration that follows it, with \<open>sep\<close> in front;
  only white space, comments and directives stand between the two, and they stay where they are.  The
  line break before the import and the white space at the beginning of its line go.
\<close>

definition moved :: "rx \<Rightarrow> string \<Rightarrow> string \<Rightarrow> string \<Rightarrow> bool" where
  "moved head sep s s' \<longleftrightarrow>
     (\<exists>u ws imp skipped decl v. s = u @ ''\<newline>'' @ ws @ imp @ skipped @ decl @ v \<and>
        s' = u @ skipped @ decl @ sep @ imp @ v \<and>
        list_all rx_space ws \<and> in_lang IMPORT imp \<and> in_lang SKIPPED skipped \<and> in_lang head decl)"

lemma moved_context: "moved head sep u v \<Longrightarrow> moved head sep (x @ u @ y) (x @ v @ y)"
proof -
  assume "moved head sep u v"
  then obtain a ws imp skipped decl b where "u = a @ ''\<newline>'' @ ws @ imp @ skipped @ decl @ b"
    "v = a @ skipped @ decl @ sep @ imp @ b"
    and l: "list_all rx_space ws" "in_lang IMPORT imp" "in_lang SKIPPED skipped" "in_lang head decl"
    unfolding moved_def by blast
  then have "x @ u @ y = (x @ a) @ ''\<newline>'' @ ws @ imp @ skipped @ decl @ (b @ y)"
    "x @ v @ y = (x @ a) @ skipped @ decl @ sep @ imp @ (b @ y)" by simp_all
  with l show ?thesis unfolding moved_def by blast
qed

lemma moved_match:
  assumes "match_at (seqs [NL, Many True (One rx_space), Grp 1 IMPORT, Grp 2 SKIPPED, Grp 3 head]) p = Some q"
    and "no_grp head" and "grps p = []"
  shows "moved head sep (consumed p q) (expand [Ref 2, Ref 3, Txt sep, Ref 1] p q)"
proof -
  from import_match [OF assms] obtain ws imp skipped decl
    where *: "consumed p q = ''\<newline>'' @ ws @ imp @ skipped @ decl" "list_all rx_space ws" "in_lang IMPORT imp"
      "in_lang SKIPPED skipped" "in_lang head decl" "map_of (grps q) 1 = Some imp"
      "map_of (grps q) 2 = Some skipped" "map_of (grps q) 3 = Some decl" by metis
  then have "expand [Ref 2, Ref 3, Txt sep, Ref 1] p q = skipped @ decl @ sep @ imp" by (simp add: expand_def)
  with * show ?thesis
    unfolding moved_def
    by (intro exI [of _ "[]"] exI [of _ ws] exI [of _ imp] exI [of _ skipped] exI [of _ decl]) simp
qed

interpretation module_steps: stepwise "moved MODULE_HEAD '' ''" IMPORT_MODULE IMPORT_MODULE_NEW
proof
  show "moved MODULE_HEAD '' '' (consumed p q) (expand IMPORT_MODULE_NEW p q)"
    if "match_at IMPORT_MODULE p = Some q" "grps p = []" for p q
    using moved_match [OF that(1) [unfolded IMPORT_MODULE_def] import_no_grp(3) that(2)]
    unfolding IMPORT_MODULE_NEW_def .
qed (rule moved_context)

interpretation package_steps: stepwise "moved PACKAGE_HEAD ''\<newline>''" IMPORT_PACKAGE IMPORT_PACKAGE_NEW
proof
  show "moved PACKAGE_HEAD ''\<newline>'' (consumed p q) (expand IMPORT_PACKAGE_NEW p q)"
    if "match_at IMPORT_PACKAGE p = Some q" "grps p = []" for p q
    using moved_match [OF that(1) [unfolded IMPORT_PACKAGE_def] import_no_grp(4) that(2)]
    unfolding IMPORT_PACKAGE_NEW_def .
qed (rule moved_context)

lemma import_regular:
  "unbound IMPORT_PACKAGE" "nonempty_lang IMPORT_PACKAGE" "unbound IMPORT_MODULE" "nonempty_lang IMPORT_MODULE"
  by (simp_all add: IMPORT_PACKAGE_def IMPORT_MODULE_def IMPORT_def SKIPPED_def PACKAGE_HEAD_def MODULE_HEAD_def
      space_or_nl_def nonempty_lang_def)

text \<open>Property C21. The script that moves global imports always ends, although each of its loops runs
  until nothing changes.  What it does is a sequence of moves: first an import at the beginning of a
  line goes behind the header of the module or interface that follows it, with a blank, until no such
  import is left; then one goes to a line of its own behind the declaration of the package that follows
  it, until none is left.  An import on the first line of the text, or behind something else on its
  line, is not one that is moved.  Nothing but white space is added or lost.\<close>
theorem imports_moved:
  "\<exists>x y. fix_global_imports s = Some y \<and>
     (moved MODULE_HEAD '' '')\<^sup>*\<^sup>* s x \<and> (\<nexists>z. moved MODULE_HEAD '' '' x z) \<and>
     (moved PACKAGE_HEAD ''\<newline>'')\<^sup>*\<^sup>* x y \<and> (\<nexists>z. moved PACKAGE_HEAD ''\<newline>'' y z) \<and> visible y = visible s"
proof -
  obtain x where x: "sub_loop IMPORT_MODULE IMPORT_MODULE_NEW s = Some x" "\<not> re_found IMPORT_MODULE x" "visible x = visible s"
    using module_move.loop_moves by blast
  obtain y where y: "sub_loop IMPORT_PACKAGE IMPORT_PACKAGE_NEW x = Some y" "\<not> re_found IMPORT_PACKAGE y"
    "visible y = visible x"
    using package_move.loop_moves by blast
  have word: "in_lang (seqs [NL, Many True (One rx_space), Grp 1 IMPORT, Grp 2 SKIPPED, Grp 3 head])
      (''\<newline>'' @ ws @ imp @ skipped @ decl)"
    if "list_all rx_space ws" "in_lang IMPORT imp" "in_lang SKIPPED skipped" "in_lang head decl" for head ws imp skipped decl
    unfolding seqs.simps using that by (intro lang_Seq lang_Lit lang_Grp) (simp_all only: in_lang_Many_One)
  have "\<nexists>z. moved MODULE_HEAD '' '' x z"
  proof
    assume "\<exists>z. moved MODULE_HEAD '' '' x z"
    then obtain u ws imp skipped decl v where "x = u @ (''\<newline>'' @ ws @ imp @ skipped @ decl) @ v"
      "list_all rx_space ws" "in_lang IMPORT imp" "in_lang SKIPPED skipped" "in_lang MODULE_HEAD decl"
      unfolding moved_def by auto
    then show False using x(2) word re_found_iff [OF import_regular(3,4), unfolded IMPORT_MODULE_def]
      unfolding IMPORT_MODULE_def by blast
  qed
  moreover have "\<nexists>z. moved PACKAGE_HEAD ''\<newline>'' y z"
  proof
    assume "\<exists>z. moved PACKAGE_HEAD ''\<newline>'' y z"
    then obtain u ws imp skipped decl v where "y = u @ (''\<newline>'' @ ws @ imp @ skipped @ decl) @ v"
      "list_all rx_space ws" "in_lang IMPORT imp" "in_lang SKIPPED skipped" "in_lang PACKAGE_HEAD decl"
      unfolding moved_def by auto
    then show False using y(2) word re_found_iff [OF import_regular(1,2), unfolded IMPORT_PACKAGE_def]
      unfolding IMPORT_PACKAGE_def by blast
  qed
  ultimately show ?thesis
    using x y module_steps.loop_steps [OF x(1)] package_steps.loop_steps [OF y(1)]
    by (intro exI [of _ x] exI [of _ y] conjI) (simp_all add: fix_global_imports_def)
qed

subsection \<open>Which module is removed\<close>

lemma first_match_earliest:
  assumes "unbound r" and "nonempty_lang r"
  shows "first_match r b s = Some (pre, p, q) \<Longrightarrow> s = u @ w @ v \<Longrightarrow> in_lang r w \<Longrightarrow> length pre \<le> length u"
proof (induction s arbitrary: b pre u)
  case (Cons c s)
  show ?case
  proof (cases u)
    case Nil
    then have "match_at r (start b (c # s)) \<noteq> None"
      using Cons.prems by (intro match_at_complete [OF assms Cons.prems(3)]) simp
    then show ?thesis using Cons.prems(1) by auto
  next
    case (Cons d u')
    then show ?thesis using Cons.prems Cons.IH [of "Some c" _ u'] by (auto split: option.splits)
  qed
qed simp

lemma single_any: "single (any_or_nl dotall)"
  by (auto simp: single_def any_or_nl_def rx_dot_def split: list.splits)

definition MODULE_HEADER :: "string \<Rightarrow> rx" where
  "MODULE_HEADER name =
     seqs [Lit ''module'', Plus True (Alt (One rx_space) (Lit ''n'')), Lit name, Many True space_or_nl,
           Alt (Lit ''('') (Alt (Lit ''#'') (Lit ''import''))]"

definition MODULE_END :: rx where
  "MODULE_END = seqs [Lit ''endmodule'', Many True (One not_nl), NL]"

lemma module_def_split:
  "match_at (MODULE_DEF name) p =
   match_at (Seq (MODULE_HEADER name) (Seq (Plus False (any_or_nl True)) MODULE_END)) p"
  by (simp add: match_at_def MODULE_DEF_def MODULE_HEADER_def MODULE_END_def rmatch_Seq concat_map_concat o_def
           del: rmatch.simps)


lemma module_def_regular: "unbound (MODULE_DEF name)" "nonempty_lang (MODULE_DEF name)"
  by (simp_all add: MODULE_DEF_def space_or_nl_def any_or_nl_def nonempty_lang_def)

lemma module_end_lang:
  "in_lang MODULE_END e \<longleftrightarrow> (\<exists>tail. e = ''endmodule'' @ tail @ ''\<newline>'' \<and> list_all not_nl tail)"
  by (auto simp: MODULE_END_def in_lang_Many_One)

lemma module_end_here:
  assumes "prefix ''endmodule'' (ahead m)" and "CHR ''\<newline>'' \<in> set (ahead m)"
  shows "rmatch MODULE_END m \<noteq> []"
proof -
  from assms(1) obtain rest where rest: "ahead m = ''endmodule'' @ rest" by (auto simp: prefix_def)
  with assms(2) have "CHR ''\<newline>'' \<in> set rest" by auto
  then obtain tail post where t: "rest = tail @ CHR ''\<newline>'' # post" "CHR ''\<newline>'' \<notin> set tail"
    by (meson split_list_first)
  then have "list_all not_nl tail" by (auto simp: list_all_iff not_nl_def)
  then have "in_lang MODULE_END (''endmodule'' @ tail @ ''\<newline>'')" by (auto simp: module_end_lang)
  moreover have "unbound MODULE_END" by (simp add: MODULE_END_def)
  moreover have "ahead m = (''endmodule'' @ tail @ ''\<newline>'') @ post" using rest t(1) by simp
  ultimately have "\<exists>q\<in>set (rmatch MODULE_END m). ahead q = post" by (rule rmatch_complete)
  then show ?thesis by (auto simp del: rmatch.simps)
qed

text \<open>A match: the header, the shortest body, and the rest of the line with \<open>endmodule\<close>.\<close>

lemma module_match:
  assumes "match_at (MODULE_DEF name) p = Some q"
  obtains hdr body tail where "ahead p = hdr @ body @ ''endmodule'' @ tail @ ''\<newline>'' @ ahead q"
    and "in_lang (MODULE_HEADER name) hdr" and "body \<noteq> []" and "list_all not_nl tail"
    and "\<forall>j. 1 \<le> j \<and> j < length body \<longrightarrow>
           \<not> prefix ''endmodule'' (drop j (body @ ''endmodule'' @ tail @ ''\<newline>'' @ ahead q))"
proof -
  obtain m n where m: "m \<in> set (rmatch (MODULE_HEADER name) p)"
    and n: "1 \<le> n" "n \<le> length (ahead m)"
    and q: "q \<in> set (rmatch MODULE_END (advance n m))"
    and least: "\<forall>j. 1 \<le> j \<and> j < n \<longrightarrow> rmatch MODULE_END (advance j m) = []"
    using lazy_part [OF assms [unfolded module_def_split] single_any] by blast
  obtain tail where e: "consumed (advance n m) q = ''endmodule'' @ tail @ ''\<newline>''" "list_all not_nl tail"
    using rmatch_lang [OF q] by (auto simp: module_end_lang)
  define body where "body = take n (ahead m)"
  have "drop n (ahead m) = ''endmodule'' @ tail @ ''\<newline>'' @ ahead q"
    using later_ahead [OF rmatch_later [OF q]] e by simp
  then have am: "ahead m = body @ ''endmodule'' @ tail @ ''\<newline>'' @ ahead q"
    using append_take_drop_id [of n "ahead m"] by (simp add: body_def)
  have len: "length body = n" using n by (simp add: body_def)
  show thesis
  proof
    show "ahead p = consumed p m @ body @ ''endmodule'' @ tail @ ''\<newline>'' @ ahead q"
      using later_ahead [OF rmatch_later [OF m]] am by simp
    show "in_lang (MODULE_HEADER name) (consumed p m)" by (rule rmatch_lang [OF m])
    show "body \<noteq> []" using n len by auto
    show "\<forall>j. 1 \<le> j \<and> j < length body \<longrightarrow>
        \<not> prefix ''endmodule'' (drop j (body @ ''endmodule'' @ tail @ ''\<newline>'' @ ahead q))"
    proof (intro allI impI notI)
      fix j assume j: "1 \<le> j \<and> j < length body"
        and "prefix ''endmodule'' (drop j (body @ ''endmodule'' @ tail @ ''\<newline>'' @ ahead q))"
      then have "prefix ''endmodule'' (ahead (advance j m))" by (simp only: advance_simps am)
      moreover have "CHR ''\<newline>'' \<in> set (ahead (advance j m))"
        using j by (simp only: advance_simps am drop_append) simp
      ultimately have "rmatch MODULE_END (advance j m) \<noteq> []" by (rule module_end_here)
      then show False using least j len by simp
    qed
  qed (fact e(2))
qed

lemma remove_module_eq:
  "plain_name name \<Longrightarrow> remove_module lib name s =
     (case first_match (MODULE_DEF name) None s of
        None \<Rightarrow> Inr (s, 0) | Some (pre, p, q) \<Rightarrow> Inr (pre @ ''\<newline>'' @ ahead q, 1))"
  unfolding remove_module_def re_subn_once by (simp add: expand_def split: option.split)

text \<open>Property C22. Removing a module whose name is made of letters, digits and underscores either
  leaves the text alone, when it has no definition in the form the pattern asks for, or replaces the
  first such definition by an empty line: a header that goes on with a parenthesis, a hash or an import
  after the name, the shortest body up to an \<open>endmodule\<close>, and the rest of that line.  Nothing before or
  after it changes, so further definitions stay, and no definition in this form starts earlier.  A
  module without ports, whose header goes on with a semicolon, is not in this form and stays.\<close>
theorem module_removal:
  assumes "plain_name name"
  shows "(remove_module lib name s = Inr (s, 0) \<and> (\<nexists>u w v. s = u @ w @ v \<and> in_lang (MODULE_DEF name) w)) \<or>
   (\<exists>pre hdr body tail post.
      s = pre @ hdr @ body @ ''endmodule'' @ tail @ ''\<newline>'' @ post \<and>
      remove_module lib name s = Inr (pre @ ''\<newline>'' @ post, 1) \<and>
      in_lang (MODULE_HEADER name) hdr \<and> body \<noteq> [] \<and> CHR ''\<newline>'' \<notin> set tail \<and>
      (\<nexists>j. 1 \<le> j \<and> j < length body \<and>
         prefix ''endmodule'' (drop j (body @ ''endmodule'' @ tail @ ''\<newline>'' @ post))) \<and>
      (\<nexists>u w v. s = u @ w @ v \<and> in_lang (MODULE_DEF name) w \<and> length u < length pre))"
proof (cases "first_match (MODULE_DEF name) None s")
  case None
  then have "\<not> re_found (MODULE_DEF name) s" by (simp add: re_found_def found_first)
  then have "\<nexists>u w v. s = u @ w @ v \<and> in_lang (MODULE_DEF name) w"
    using re_found_iff [OF module_def_regular] by blast
  with None show ?thesis by (intro disjI1) (simp add: remove_module_eq [OF assms])
next
  case (Some m)
  then obtain pre p q where f: "first_match (MODULE_DEF name) None s = Some (pre, p, q)" by (cases m) auto
  from first_match_Some [OF f] have s: "s = pre @ ahead p" and m: "match_at (MODULE_DEF name) p = Some q" by auto
  from module_match [OF m] obtain hdr body tail where
    *: "ahead p = hdr @ body @ ''endmodule'' @ tail @ ''\<newline>'' @ ahead q" "in_lang (MODULE_HEADER name) hdr"
      "body \<noteq> []" "list_all not_nl tail" "\<forall>j. 1 \<le> j \<and> j < length body \<longrightarrow>
           \<not> prefix ''endmodule'' (drop j (body @ ''endmodule'' @ tail @ ''\<newline>'' @ ahead q))"
    by metis
  show ?thesis
  proof (rule disjI2, intro exI conjI)
    show "s = pre @ hdr @ body @ ''endmodule'' @ tail @ ''\<newline>'' @ ahead q" by (simp only: s *(1))
    show "remove_module lib name s = Inr (pre @ ''\<newline>'' @ ahead q, 1)"
      by (simp add: remove_module_eq [OF assms] f)
    show "CHR ''\<newline>'' \<notin> set tail" using *(4) by (auto simp: list_all_iff not_nl_def)
    show "\<nexists>u w v. s = u @ w @ v \<and> in_lang (MODULE_DEF name) w \<and> length u < length pre"
      using first_match_earliest [OF module_def_regular f] by (metis leD)
    show "\<nexists>j. 1 \<le> j \<and> j < length body \<and>
        prefix ''endmodule'' (drop j (body @ ''endmodule'' @ tail @ ''\<newline>'' @ ahead q))" using *(5) by blast
  qed (fact *(2) *(3))+
qed

theorem module_removal_witness:
  "\<nexists>u w v. ''module top; endmodule\<newline>'' = u @ w @ v \<and> in_lang (MODULE_DEF ''top'') w"
proof -
  have "plain_name ''top''" by code_simp
  moreover have "remove_module (\<lambda>p t s n. Inl ValueError) ''top'' ''module top; endmodule\<newline>'' = Inr (''module top; endmodule\<newline>'', 0)"
    by code_simp
  ultimately show ?thesis
    using module_removal [of "''top''" "\<lambda>p t s n. Inl ValueError" "''module top; endmodule\<newline>''"] by auto
qed

subsection \<open>Which module is removed as well\<close>

lemma prefix_of_append:
  assumes "prefix w (x @ y)" and "length w \<le> length x"
  shows "prefix w x"
  using assms by (metis prefix_def prefix_length_prefix)

text \<open>Where a header can end, when the name in the text has an \<open>n\<close> in front.\<close>

lemma Many_chars:
  assumes "\<And>u. in_lang r u \<Longrightarrow> \<exists>c. u = [c] \<and> Q c"
  shows "in_lang (Many g r) u \<Longrightarrow> list_all Q u"
  by (induction "Many g r" u rule: in_lang.induct) (auto dest: assms)

lemma header_parts:
  assumes "in_lang (MODULE_HEADER name) hdr"
  obtains c P W A where "hdr = ''module'' @ (c # P) @ name @ W @ A" and "list_all (\<lambda>c. rx_space c \<or> c = CHR ''n'') (c # P)"
    and "list_all rx_space W" and "A \<in> {''('', ''#'', ''import''}"
proof -
  from assms obtain u P W A where h: "hdr = ''module'' @ (u @ P) @ name @ W @ A"
    and u: "in_lang (Alt (One rx_space) (Lit ''n'')) u" and P: "in_lang (Many True (Alt (One rx_space) (Lit ''n''))) P"
    and W: "in_lang (Many True space_or_nl) W" and A: "A \<in> {''('', ''#'', ''import''}"
  proof -
    from assms obtain m x n W A where "hdr = m @ x @ n @ W @ A" "m = ''module''" "n = name"
      "in_lang (Plus True (Alt (One rx_space) (Lit ''n''))) x" "in_lang (Many True space_or_nl) W"
      "in_lang (Alt (Lit ''('') (Alt (Lit ''#'') (Lit ''import''))) A"
      unfolding MODULE_HEADER_def seqs.simps in_lang_simps(1,3) by blast
    note x = this
    from x(4) obtain u P where uP: "x = u @ P" "in_lang (Alt (One rx_space) (Lit ''n'')) u"
      "in_lang (Many True (Alt (One rx_space) (Lit ''n''))) P" unfolding in_lang_simps(3) by blast
    show thesis
    proof (rule that)
      show "hdr = ''module'' @ (u @ P) @ name @ W @ A" by (simp only: x(1-3) uP(1))
      show "A \<in> {''('', ''#'', ''import''}" using x(6) by (simp only: in_lang_simps(1,4) insert_iff empty_iff) blast
    qed (fact uP(2,3) x(5))+
  qed
  have one: "\<exists>c. u = [c] \<and> (rx_space c \<or> c = CHR ''n'')" if "in_lang (Alt (One rx_space) (Lit ''n'')) u" for u
    using that by auto
  have nl: "rx_space (CHR ''\<newline>'')" by (simp add: rx_space_def is_space_def)
  have "list_all rx_space W"
    by (rule Many_chars [OF _ W]) (use nl in \<open>auto simp: space_or_nl_def\<close>)
  moreover have "list_all (\<lambda>c. rx_space c \<or> c = CHR ''n'') P" by (rule Many_chars [OF one P])
  moreover obtain c where "u = [c]" "rx_space c \<or> c = CHR ''n''" using one [OF u] by blast
  ultimately show thesis using that [of c P W A] h A by simp
qed

lemma ident_no_space: "ident_char c \<Longrightarrow> \<not> rx_space c \<and> c \<noteq> CHR ''(''"
  by (auto simp: ident_char_def rx_space_def is_space_def is_letter_def is_digit_def Let_def)

lemma header_after_n:
  assumes "in_lang (MODULE_HEADER name) hdr" and "plain_name name"
    and "hdr @ r = ''module n'' @ name @ ''('' @ r'"
  shows "hdr = ''module n'' @ name @ ''(''"
proof -
  obtain c P W A where hdr: "hdr = ''module'' @ (c # P) @ name @ W @ A"
    and P: "list_all (\<lambda>c. rx_space c \<or> c = CHR ''n'') (c # P)"
    and W: "list_all rx_space W" and A: "A \<in> {''('', ''#'', ''import''}" by (rule header_parts [OF assms(1)])
  have name: "ident_char d" if "d \<in> set name" for d using assms(2) that by (simp add: plain_name_def list_all_iff)
  have open_paren: "W = [] \<and> A = ''(''" if "W @ A @ r = CHR ''('' # x" for x
  proof (cases W)
    case Nil
    then show ?thesis using that A by auto
  next
    case (Cons d W')
    then have "rx_space (CHR ''('')" using that W by auto
    then show ?thesis by (simp add: rx_space_def is_space_def)
  qed
  from assms(3) hdr have eq: "c = CHR '' ''" "P @ name @ W @ A @ r = CHR ''n'' # name @ CHR ''('' # r'" by auto
  consider "P = []" | "P = ''n''" | d P' where "P = CHR ''n'' # d # P'"
    using eq(2) by (cases P; cases "tl P") auto
  then show ?thesis
  proof cases
    case 1
    have len: "length name < length (CHR ''n'' # name)" by simp
    define x where "x = last (CHR ''n'' # name)"
    have split: "CHR ''n'' # name = butlast (CHR ''n'' # name) @ [x]" unfolding x_def by (rule append_butlast_last_id [symmetric]) simp
    have "name @ (W @ A @ r) = butlast (CHR ''n'' # name) @ (x # CHR ''('' # r')"
      using eq(2) 1 split by (metis append.assoc append_Cons append_Nil)
    then have rest: "W @ A @ r = x # CHR ''('' # r'" by (simp add: append_eq_append_conv)
    have x: "ident_char x" using name last_in_set [of name] by (auto simp: x_def ident_char_def is_letter_def)
    have "W = []"
    proof (cases W)
      case (Cons d W')
      then show ?thesis using rest W ident_no_space [OF x] by auto
    qed simp
    then show ?thesis using rest A ident_no_space [OF x] x by (auto simp: ident_char_def is_letter_def is_digit_def)
  next
    case 2
    then have "W @ A @ r = CHR ''('' # r'" using eq(2) by simp
    from open_paren [OF this] show ?thesis using 2 eq(1) hdr by simp
  next
    case 3
    then have e: "(d # P') @ name @ W @ A @ r = name @ CHR ''('' # r'" using eq(2) by simp
    define L where "L = (d # P') @ name"
    have len: "length name < length L" by (simp add: L_def)
    have "L @ (W @ A @ r) = name @ CHR ''('' # r'" using e by (simp add: L_def)
    then have "(L @ (W @ A @ r)) ! length name = (name @ CHR ''('' # r') ! length name" by simp
    then have "L ! length name = CHR ''(''" using len by (simp add: nth_append)
    then have "CHR ''('' \<in> set ((d # P') @ name)" using nth_mem [OF len] by (simp add: L_def)
    then show ?thesis using P 3 name ident_no_space by (auto simp: list_all_iff rx_space_def is_space_def)
  qed
qed

text \<open>Property C23. The pattern for a module lets the letter \<open>n\<close> stand between \<open>module\<close> and the name,
  where a newline was meant: asked to remove \<open>core\<close>, the script removes a module called \<open>ncore\<close>,
  from its header to the end of the line of its \<open>endmodule\<close>, whatever is in it, from a text that may
  define no \<open>core\<close> at all.\<close>
theorem removes_other_module:
  assumes "plain_name name" and "body \<noteq> []" and "CHR ''\<newline>'' \<notin> set tail"
    and "\<And>j. 1 \<le> j \<Longrightarrow> j < length body \<Longrightarrow> \<not> prefix ''endmodule'' (drop j (body @ ''endmodule''))"
  shows "remove_module lib name (''module n'' @ name @ ''('' @ body @ ''endmodule'' @ tail @ ''\<newline>'' @ post) =
    Inr (''\<newline>'' @ post, 1)"
proof -
  let ?text = "body @ ''endmodule'' @ tail @ ''\<newline>'' @ post"
  let ?s = "''module n'' @ name @ ''('' @ ?text"
  have "list_all not_nl tail" using assms(3) by (auto simp: list_all_iff not_nl_def)
  then have e: "in_lang MODULE_END (''endmodule'' @ tail @ ''\<newline>'')" by (auto simp: module_end_lang)
  have "in_lang (Many True (Alt (One rx_space) (Lit ''n''))) (''n'' @ [])"
    by (rule lang_Many1) (auto intro: lang_Many0)
  then have sp: "in_lang (Plus True (Alt (One rx_space) (Lit ''n''))) ('' '' @ ''n'')"
    by (intro lang_Seq) (simp_all add: rx_space_def is_space_def)
  have any: "in_lang (any_or_nl True) [c]" for c by (simp add: any_or_nl_def)
  have many: "in_lang (Many False (any_or_nl True)) u" for u
  proof (induction u)
    case (Cons c u)
    then show ?case using lang_Many1 [OF any [of c]] by simp
  qed (rule lang_Many0)
  obtain c body' where "body = [c] @ body'" using assms(2) by (cases body) auto
  then have b: "in_lang (Plus False (any_or_nl True)) body" using lang_Seq [OF any many] by simp
  have "in_lang (Seq (Lit ''module'') (Seq (Plus True (Alt (One rx_space) (Lit ''n''))) (Seq (Lit name)
      (Seq (Many True space_or_nl) (Seq (Alt (Lit ''('') (Alt (Lit ''#'') (Lit ''import'')))
        (Seq (Plus False (any_or_nl True)) MODULE_END))))))
    (''module'' @ ('' '' @ ''n'') @ name @ [] @ ''('' @ body @ ''endmodule'' @ tail @ ''\<newline>'')"
    by (intro lang_Seq sp b e lang_Many0 lang_Lit lang_Alt1)
  then have w: "in_lang (MODULE_DEF name) (''module'' @ ('' '' @ ''n'') @ name @ [] @ ''('' @ body @ ''endmodule'' @ tail @ ''\<newline>'')"
    by (simp only: MODULE_DEF_def MODULE_END_def seqs.simps)
  have "match_at (MODULE_DEF name) (start None ?s) \<noteq> None"
    by (rule match_at_complete [OF module_def_regular w, of _ post]) simp
  then obtain q where q: "match_at (MODULE_DEF name) (start None ?s) = Some q" by blast
  then have "first_match (MODULE_DEF name) None ?s = Some ([], start None ?s, q)" by simp
  then have r: "remove_module lib name ?s = Inr (''\<newline>'' @ ahead q, 1)" by (simp add: remove_module_eq [OF assms(1)])
  from module_match [OF q] obtain hdr body1 tail1 where
    *: "?s = hdr @ body1 @ ''endmodule'' @ tail1 @ ''\<newline>'' @ ahead q" "in_lang (MODULE_HEADER name) hdr" "body1 \<noteq> []"
      "list_all not_nl tail1" "\<forall>j. 1 \<le> j \<and> j < length body1 \<longrightarrow>
           \<not> prefix ''endmodule'' (drop j (body1 @ ''endmodule'' @ tail1 @ ''\<newline>'' @ ahead q))"
    by (metis pos.select_convs(2))
  have hdr: "hdr = ''module n'' @ name @ ''(''"
    by (rule header_after_n [OF *(2) assms(1) *(1) [symmetric]])
  have whole: "?text = body1 @ ''endmodule'' @ tail1 @ ''\<newline>'' @ ahead q"
    using *(1) unfolding hdr by simp
  have "length body1 = length body"
  proof (rule linorder_cases)
    assume less: "length body1 < length body"
    have "prefix ''endmodule'' (drop (length body1) ?text)" unfolding whole by simp
    then have "prefix ''endmodule'' (drop (length body1) (body @ ''endmodule'') @ tail @ ''\<newline>'' @ post)"
      using less by simp
    then have "prefix ''endmodule'' (drop (length body1) (body @ ''endmodule''))"
      by (rule prefix_of_append) (use less in simp)
    moreover have "1 \<le> length body1" using *(3) by (cases body1) simp_all
    ultimately show ?thesis using assms(4) less by blast
  next
    assume less: "length body < length body1"
    have "prefix ''endmodule'' (drop (length body) ?text)" by simp
    moreover have "1 \<le> length body" using assms(2) by (cases body) simp_all
    ultimately show ?thesis using *(5) less unfolding whole by blast
  qed
  then have rest: "tail1 @ CHR ''\<newline>'' # ahead q = tail @ CHR ''\<newline>'' # post" using whole by simp
  have "ahead q = post"
    using arg_cong [OF rest, of "dropWhile not_nl"] *(4) \<open>list_all not_nl tail\<close>
    by (simp add: dropWhile_append list_all_iff not_nl_def)
  then show ?thesis using r by simp
qed

theorem removes_other_module_witness:
  "remove_module (\<lambda>p t s n. Inl ValueError) ''core'' (''module ncore(input clk); endmodule\<newline>assign a = b;'') =
     Inr (''\<newline>assign a = b;'', 1)"
proof -
  have plain: "plain_name ''core''" by code_simp
  have "list_all (\<lambda>j. 1 \<le> j \<longrightarrow> \<not> prefix ''endmodule'' (drop j (''input clk); '' @ ''endmodule''))) [0..<12]" by code_simp
  then have "\<not> prefix ''endmodule'' (drop j (''input clk); '' @ ''endmodule''))" if "1 \<le> j" "j < length ''input clk); ''" for j
    using that by (simp add: list_all_iff)
  from removes_other_module [OF plain _ _ this, of "[]" "\<lambda>p t s n. Inl ValueError" "''assign a = b;''"] show ?thesis by simp
qed

subsection \<open>Sections that synthesis skips\<close>

lemma translate_regular: "unbound PRAGMA_TRANSLATE_OFF_REGEX" "nonempty_lang PRAGMA_TRANSLATE_OFF_REGEX"
  by (simp_all add: PRAGMA_TRANSLATE_OFF_REGEX_def TRANSLATE_OFF_def TRANSLATE_ON_def TOOL_def any_or_nl_def nonempty_lang_def)

lemma translate_on_here:
  assumes "in_lang TRANSLATE_ON w" and "prefix w (ahead m)"
  shows "rmatch TRANSLATE_ON m \<noteq> []"
proof -
  obtain v where "ahead m = w @ v" using assms(2) by (auto simp: prefix_def)
  moreover have "unbound TRANSLATE_ON" by (simp add: TRANSLATE_ON_def TOOL_def)
  ultimately have "\<exists>q\<in>set (rmatch TRANSLATE_ON m). ahead q = v" by (intro rmatch_complete [OF assms(1)])
  then show ?thesis by (auto simp del: rmatch.simps)
qed

lemma translate_match:
  assumes "match_at PRAGMA_TRANSLATE_OFF_REGEX p = Some q"
  obtains off body on where "ahead p = off @ body @ on @ ahead q"
    and "in_lang TRANSLATE_OFF off" and "body \<noteq> []" and "in_lang TRANSLATE_ON on"
    and "\<forall>j w. 1 \<le> j \<and> j < length body \<and> in_lang TRANSLATE_ON w \<longrightarrow> \<not> prefix w (drop j (body @ on @ ahead q))"
proof -
  obtain m n where m: "m \<in> set (rmatch TRANSLATE_OFF p)"
    and n: "1 \<le> n" "n \<le> length (ahead m)"
    and q: "q \<in> set (rmatch TRANSLATE_ON (advance n m))"
    and least: "\<forall>j. 1 \<le> j \<and> j < n \<longrightarrow> rmatch TRANSLATE_ON (advance j m) = []"
    using lazy_part [OF assms [unfolded PRAGMA_TRANSLATE_OFF_REGEX_def] single_any] by blast
  define body where "body = take n (ahead m)"
  define on where "on = consumed (advance n m) q"
  have "drop n (ahead m) = on @ ahead q" using later_ahead [OF rmatch_later [OF q]] by (simp add: on_def)
  then have am: "ahead m = body @ on @ ahead q"
    using append_take_drop_id [of n "ahead m"] by (simp add: body_def)
  have len: "length body = n" using n by (simp add: body_def)
  show thesis
  proof
    show "ahead p = consumed p m @ body @ on @ ahead q"
      using later_ahead [OF rmatch_later [OF m]] am by simp
    show "in_lang TRANSLATE_OFF (consumed p m)" by (rule rmatch_lang [OF m])
    show "in_lang TRANSLATE_ON on" unfolding on_def by (rule rmatch_lang [OF q])
    show "body \<noteq> []" using n len by auto
    show "\<forall>j w. 1 \<le> j \<and> j < length body \<and> in_lang TRANSLATE_ON w \<longrightarrow> \<not> prefix w (drop j (body @ on @ ahead q))"
    proof (intro allI impI notI)
      fix j w assume j: "1 \<le> j \<and> j < length body \<and> in_lang TRANSLATE_ON w" and "prefix w (drop j (body @ on @ ahead q))"
      then have "prefix w (ahead (advance j m))" by (simp only: advance_simps am)
      with j have "rmatch TRANSLATE_ON (advance j m) \<noteq> []" by (intro translate_on_here) auto
      then show False using least j len by simp
    qed
  qed
qed

text \<open>Property C25. Of the sections that synthesis skips each is cut out on its own: the first goes from
  the line break before its \<open>translate_off\<close> to the nearest \<open>translate_on\<close>, what is before it stays,
  and the same is done to the text after it.  A text without a closed section stays as it is.\<close>
theorem sections_removed:
  "(remove_translate_off s = s \<and> (\<nexists>u w v. s = u @ w @ v \<and> in_lang PRAGMA_TRANSLATE_OFF_REGEX w)) \<or>
   (\<exists>pre off body on post. s = pre @ off @ body @ on @ post \<and>
      remove_translate_off s = pre @ remove_translate_off post \<and>
      in_lang TRANSLATE_OFF off \<and> body \<noteq> [] \<and> in_lang TRANSLATE_ON on \<and>
      (\<nexists>j w. 1 \<le> j \<and> j < length body \<and> in_lang TRANSLATE_ON w \<and> prefix w (drop j (body @ on @ post))) \<and>
      (\<nexists>u w v. s = u @ w @ v \<and> in_lang PRAGMA_TRANSLATE_OFF_REGEX w \<and> length u < length pre))"
proof (cases "first_match PRAGMA_TRANSLATE_OFF_REGEX None s")
  case None
  then have "\<not> re_found PRAGMA_TRANSLATE_OFF_REGEX s" by (simp add: re_found_def found_first)
  then have "\<nexists>u w v. s = u @ w @ v \<and> in_lang PRAGMA_TRANSLATE_OFF_REGEX w"
    using re_found_iff [OF translate_regular] by blast
  with None show ?thesis
    by (intro disjI1) (simp add: remove_translate_off_def re_subn_def subst_from_none)
next
  case (Some m)
  then obtain pre p q where f: "first_match PRAGMA_TRANSLATE_OFF_REGEX None s = Some (pre, p, q)" by (cases m) auto
  from first_match_Some [OF f] have s: "s = pre @ ahead p"
    and m: "match_at PRAGMA_TRANSLATE_OFF_REGEX p = Some q" by auto
  from translate_match [OF m] obtain off body on where
    *: "ahead p = off @ body @ on @ ahead q" "in_lang TRANSLATE_OFF off" "body \<noteq> []" "in_lang TRANSLATE_ON on"
      "\<forall>j w. 1 \<le> j \<and> j < length body \<and> in_lang TRANSLATE_ON w \<longrightarrow> \<not> prefix w (drop j (body @ on @ ahead q))"
    by metis
  show ?thesis
  proof (rule disjI2, intro exI conjI)
    show "s = pre @ off @ body @ on @ ahead q" by (simp only: s *(1))
    show "remove_translate_off s = pre @ remove_translate_off (ahead q)"
      using subst_from_first [OF _ f, of None "[]"]
        subst_from_before [OF translate_regular(1), of "[]" None "before q" "ahead q" None]
      by (simp add: remove_translate_off_def re_subn_def expand_def split: prod.splits)
    show "\<nexists>u w v. s = u @ w @ v \<and> in_lang PRAGMA_TRANSLATE_OFF_REGEX w \<and> length u < length pre"
      using first_match_earliest [OF translate_regular f] by (metis leD)
    show "\<nexists>j w. 1 \<le> j \<and> j < length body \<and> in_lang TRANSLATE_ON w \<and> prefix w (drop j (body @ on @ ahead q))"
      using *(5) by blast
  qed (fact *(2) *(3) *(4))+
qed

subsection \<open>The checks of the scripts\<close>

text \<open>Property C28. The attribute is inserted only into a text with exactly one definition of the memory,
  right before the line break that precedes it, and nothing else changes; without a definition, or
  with a second one, the script ends with a \<open>ValueError\<close> and writes nothing.\<close>
theorem blackbox_inserted_once:
  "insert_blackbox_attrs s =
     (case first_match IFT_SCM_MODULE_DEF_REGEX None s of
        None \<Rightarrow> Inl ValueError
      | Some (pre, p, q) \<Rightarrow>
          if found_from IFT_SCM_MODULE_DEF_REGEX (before q) (ahead q) then Inl ValueError
          else Inr (pre @ BLACKBOX_ATTR_TEXT @ drop (length pre) s))"
proof (cases "first_match IFT_SCM_MODULE_DEF_REGEX None s")
  case None
  then show ?thesis by (simp add: insert_blackbox_attrs_def re_subn_def subst_from_none)
next
  case (Some m)
  then obtain pre p q where f: "first_match IFT_SCM_MODULE_DEF_REGEX None s = Some (pre, p, q)" by (cases m) auto
  from first_match_Some [OF f] have s: "s = pre @ ahead p"
    and m: "match_at IFT_SCM_MODULE_DEF_REGEX p = Some q" by auto
  let ?t = "[Txt BLACKBOX_ATTR_TEXT, Ref 0]"
  have p: "ahead p = consumed p q @ ahead q" by (rule match_at_Some(5) [OF m])
  obtain out n where r: "subst_from IFT_SCM_MODULE_DEF_REGEX ?t None (before q) (ahead q) = (out, n)" by fastforce
  then have n: "n = 0 \<longleftrightarrow> \<not> found_from IFT_SCM_MODULE_DEF_REGEX (before q) (ahead q)"
    using subst_count [of None IFT_SCM_MODULE_DEF_REGEX ?t "before q" "ahead q"] by simp
  have out: "out = ahead q" if "n = 0"
  proof -
    have "first_match IFT_SCM_MODULE_DEF_REGEX (before q) (ahead q) = None"
      using n that unfolding found_first by blast
    from subst_from_none [OF this, of ?t None] r show ?thesis by simp
  qed
  have "re_subn IFT_SCM_MODULE_DEF_REGEX ?t None s = (pre @ BLACKBOX_ATTR_TEXT @ consumed p q @ out, Suc n)"
    using subst_from_first [OF _ f, of None ?t] r by (simp add: re_subn_def expand_def)
  moreover have "drop (length pre) s = consumed p q @ ahead q" using s p by simp
  ultimately show ?thesis using n out by (simp add: insert_blackbox_attrs_def f)
qed

lemma in_lang_Many_mono:
  assumes "\<And>u. in_lang r u \<Longrightarrow> in_lang r' u"
  shows "in_lang (Many g r) u \<Longrightarrow> in_lang (Many g r') u"
  by (induction "Many g r" u rule: in_lang.induct) (auto intro: lang_Many0 lang_Many1 assms)

lemma any_or_nl_lang: "in_lang (any_or_nl d) u \<longleftrightarrow> (\<exists>c. u = [c])"
  by (auto simp: any_or_nl_def rx_dot_def)

lemma clk_lang: "in_lang (CLK_RST_GEN d) w \<longleftrightarrow> in_lang (CLK_RST_GEN d') w"
proof -
  have "in_lang (Many False (any_or_nl d)) u \<longleftrightarrow> in_lang (Many False (any_or_nl d')) u" for u
    by (intro iffI; erule in_lang_Many_mono [rotated]) (simp_all add: any_or_nl_lang)
  then show ?thesis by (simp add: CLK_RST_GEN_def any_or_nl_lang)
qed

lemma clk_regular: "unbound (CLK_RST_GEN d)" "nonempty_lang (CLK_RST_GEN d)"
  by (simp_all add: CLK_RST_GEN_def any_or_nl_def nonempty_lang_def)

lemma clk_found: "re_found (CLK_RST_GEN False) s \<longleftrightarrow> re_found (CLK_RST_GEN True) s"
  using re_found_iff [OF clk_regular] clk_lang by blast

lemma replace_regex_counts:
  assumes "re_found check s \<longleftrightarrow> re_found old s"
  shows "replace_regex s (check, old, new) =
    (case re_subn old new None s of (out, n) \<Rightarrow> if n = 0 then Inl ValueError else Inr out)"
  using assms subst_count [of None old new None s]
  by (auto simp: replace_regex_def re_subn_def re_found_def split: prod.split)

lemma py_replace_first:
  assumes "old \<noteq> []" and "has_sub old s"
  shows "\<exists>u v. s = u @ old @ v \<and> \<not> has_sub old (u @ butlast old) \<and>
           py_replace old new s = u @ new @ py_replace old new v"
  using assms(2)
proof (induction s)
  case Nil
  then show ?case using assms(1) by simp
next
  case (Cons c s)
  show ?case
  proof (cases "prefix old (c # s)")
    case True
    then obtain v where v: "c # s = old @ v" by (auto simp: prefix_def)
    have "py_replace old new (c # s) = new @ py_replace old new (drop (length old) (c # s))"
      using True assms(1) by (subst py_replace.simps) (rule if_P, simp)
    then have "py_replace old new (c # s) = new @ py_replace old new v" by (simp add: v)
    moreover have "\<not> has_sub old (butlast old)"
      using assms(1) sublist_length_le [of old "butlast old"] by (cases old) (auto simp: has_sub_sublist)
    ultimately show ?thesis using v by (intro exI [of _ "[]"] exI [of _ v]) simp
  next
    case False
    then have "has_sub old s" using Cons.prems by simp
    with Cons.IH obtain u v where *: "s = u @ old @ v" "\<not> has_sub old (u @ butlast old)"
      "py_replace old new s = u @ new @ py_replace old new v" by blast
    have "\<not> prefix old (c # u @ butlast old)"
    proof
      assume "prefix old (c # u @ butlast old)"
      moreover have "c # s = (c # u @ butlast old) @ [last old] @ v"
        using *(1) append_butlast_last_id [OF assms(1)] by simp
      then have "prefix (c # u @ butlast old) (c # s)" unfolding prefix_def by blast
      ultimately show False using False prefix_order.trans by blast
    qed
    then have "\<not> has_sub old ((c # u) @ butlast old)" using *(2) by simp
    with * False show ?thesis by (intro exI [of _ "c # u"] exI [of _ v]) simp
  qed
qed

text \<open>Property C27. No replacement of instances is silently missed.  The check with \<open>re.search\<close> and the
  replacement, which are given different flags, agree: a pattern ends the script with a
  \<open>ValueError\<close> exactly when nothing would be replaced.  An exact text does so exactly when it does not
  occur; otherwise its first occurrence is replaced, and so on after it.\<close>
theorem replacements_never_silent:
  "list_all (\<lambda>(check, old, new). replace_regex s (check, old, new) =
      (case re_subn old new None s of (out, n) \<Rightarrow> if n = 0 then Inl ValueError else Inr out)) REPLACEMENTS_REGEX \<and>
   list_all (\<lambda>(old, new).
      (replace_exact s (old, new) = Inl ValueError \<and> \<not> has_sub old s) \<or>
      (\<exists>u v. s = u @ old @ v \<and> \<not> has_sub old (u @ butlast old) \<and>
         replace_exact s (old, new) = Inr (u @ new @ py_replace old new v))) REPLACEMENTS_EXACT"
proof
  show "list_all (\<lambda>(check, old, new). replace_regex s (check, old, new) =
      (case re_subn old new None s of (out, n) \<Rightarrow> if n = 0 then Inl ValueError else Inr out)) REPLACEMENTS_REGEX"
    by (simp only: REPLACEMENTS_REGEX_def list.pred_inject prod.case clk_found replace_regex_counts)
  have ne: "EXACT1_OLD \<noteq> []" "EXACT2_OLD \<noteq> []" "EXACT3_OLD \<noteq> []"
    by (simp_all add: EXACT1_OLD_def EXACT2_OLD_def EXACT3_OLD_def)
  have "(replace_exact s (old, new) = Inl ValueError \<and> \<not> has_sub old s) \<or>
      (\<exists>u v. s = u @ old @ v \<and> \<not> has_sub old (u @ butlast old) \<and>
         replace_exact s (old, new) = Inr (u @ new @ py_replace old new v))" if "old \<noteq> []" for old new
  proof (cases "has_sub old s")
    case True
    from py_replace_first [OF that True, of new] show ?thesis using True by (auto simp: replace_exact_def)
  qed (simp add: replace_exact_def)
  with ne show "list_all (\<lambda>(old, new).
      (replace_exact s (old, new) = Inl ValueError \<and> \<not> has_sub old s) \<or>
      (\<exists>u v. s = u @ old @ v \<and> \<not> has_sub old (u @ butlast old) \<and>
         replace_exact s (old, new) = Inr (u @ new @ py_replace old new v))) REPLACEMENTS_EXACT"
    by (simp only: REPLACEMENTS_EXACT_def list.pred_inject prod.case) simp
qed

end
