(* ===== verification/Cellift_Memories.thy ===== *)
theory Cellift_Memories imports Cellift_Rewrite begin

section \<open>The memories of the instrumented design\<close>

text \<open>
  What \<open>deparam_mem_module_names.py\<close> does to the text Yosys writes: which instances it rewrites, into
  what, and that nothing else changes.
\<close>

subsection \<open>Replacements, one after the other\<close>

text \<open>
  The text with every occurrence replaced, from left to right: an occurrence is replaced where it
  starts first, by a text related to it by \<open>P\<close>; what is before it stays, and the same is done to what
  is after it, until nothing in the rest is an occurrence.
\<close>

inductive rewritten :: "rx \<Rightarrow> (string \<Rightarrow> string \<Rightarrow> bool) \<Rightarrow> nat \<Rightarrow> string \<Rightarrow> string \<Rightarrow> bool" for r P where
  rest: "\<nexists>u w v. s = u @ w @ v \<and> in_lang r w \<Longrightarrow> rewritten r P 0 s s"
| next_one: "s = pre @ w @ post \<Longrightarrow> in_lang r w \<Longrightarrow> P w new \<Longrightarrow>
    \<nexists>u w' v. s = u @ w' @ v \<and> in_lang r w' \<and> length u < length pre \<Longrightarrow>
    rewritten r P n post t \<Longrightarrow> rewritten r P (Suc n) s (pre @ new @ t)"

lemma subst_rewritten:
  assumes "unbound r" and "nonempty_lang r"
    and P: "\<And>p q. match_at r p = Some q \<Longrightarrow> grps p = [] \<Longrightarrow> P (consumed p q) (expand t p q)"
  shows "case subst_from r t None b s of (out, n) \<Rightarrow> rewritten r P n s out"
proof (induction "length s" arbitrary: s b rule: less_induct)
  case less
  show ?case
  proof (cases "first_match r b s")
    case None
    then have "\<not> found_from r b s" by (simp add: found_first)
    then have "\<nexists>u w v. s = u @ w @ v \<and> in_lang r w" using found_from_iff [OF assms(1,2)] by blast
    then have "rewritten r P 0 s s" by (rule rewritten.rest)
    then show ?thesis using subst_from_none [OF None] by simp
  next
    case (Some m)
    then obtain pre p q where f: "first_match r b s = Some (pre, p, q)" by (cases m) auto
    from first_match_Some [OF f] have s: "s = pre @ ahead p" and m: "match_at r p = Some q" and g: "grps p = []"
      by auto
    have p: "ahead p = consumed p q @ ahead q" by (rule match_at_Some(5) [OF m])
    obtain out n where run: "subst_from r t None (before q) (ahead q) = (out, n)" by fastforce
    have "length (ahead q) < length s" using match_at_shorter [OF m] s by simp
    from less.hyps [OF this, of "before q"] run have rec: "rewritten r P n (ahead q) out" by simp
    have "s = pre @ consumed p q @ ahead q" using s p by simp
    then have "rewritten r P (Suc n) s (pre @ expand t p q @ out)"
    proof (rule rewritten.next_one)
      show "in_lang r (consumed p q)" by (rule match_at_Some(3) [OF m])
      show "P (consumed p q) (expand t p q)" by (rule P [OF m g])
      show "\<nexists>u w' v. s = u @ w' @ v \<and> in_lang r w' \<and> length u < length pre"
        using first_match_earliest [OF assms(1,2) f] by (metis leD)
    qed (rule rec)
    then show ?thesis using subst_from_first [OF _ f, of None t] run by simp
  qed
qed

subsection \<open>The four kinds of instances\<close>

definition paramod_char :: "char \<Rightarrow> bool" where
  "paramod_char c \<longleftrightarrow> rx_word c \<or> c \<in> {CHR 0x5C, CHR ''='', CHR 0x27, CHR ''$''}"

text \<open>An instance, called \<open>inst\<close>, of a module with a name Yosys made for its parameters.\<close>

definition instance_of :: "string \<Rightarrow> string \<Rightarrow> bool" where
  "instance_of inst w \<longleftrightarrow>
     (\<exists>x ws. w = CHR 0x5C # ''$paramod'' @ x @ ws @ inst \<and>
        x \<noteq> [] \<and> list_all paramod_char x \<and> ws \<noteq> [] \<and> list_all rx_space ws)"

definition boot_rom :: "string \<Rightarrow> string \<Rightarrow> bool" where
  "boot_rom w new \<longleftrightarrow> instance_of ''boot_rom_i'' w \<and> new = ''ift_boot_rom_hdac boot_rom_i''"

definition BANK_TEXT :: "char \<Rightarrow> string" where
  "BANK_TEXT d =
     ''ift_sram #(\<newline>    .NumWords(32'' @ [CHR 0x27] @ ''h7000),\<newline>    .DataWidth(32),\<newline>    .NumBanks(4),\<newline>'' @
     ''    .BankId('' @ [d] @ ''),\<newline>    .AddrOffset(32'' @ [CHR 0x27] @ ''h1C01_0000 + 4*32'' @ [CHR 0x27] @ ''h7000*'' @ [d] @
     '')\<newline>    ) interleaved_sram_'' @ [d] @ ''_i\<newline>''"

text \<open>The number of the bank is that of the instance in all three places.\<close>

definition interleaved_bank :: "string \<Rightarrow> string \<Rightarrow> bool" where
  "interleaved_bank w new \<longleftrightarrow>
     (\<exists>d. is_digit d \<and> instance_of (CHR 0x5C # ''l2_ram_i.CUTS['' @ [d] @ ''].bank_i'') w \<and> new = BANK_TEXT d)"

text \<open>A template without references to groups always gives the same text.\<close>

definition fixed_text :: "piece list \<Rightarrow> string" where
  "fixed_text t = concat (map (\<lambda>x. case x of Txt s \<Rightarrow> s | Ref n \<Rightarrow> []) t)"

definition private_bank :: "string \<Rightarrow> string \<Rightarrow> bool" where
  "private_bank w new \<longleftrightarrow>
     instance_of (CHR 0x5C # ''l2_ram_i.bank_sram_pri1_i'') w \<and> new = fixed_text DEPARAM_REPLACE2"

text \<open>The port list goes to the first parenthesis that closes before a semicolon.\<close>

definition standard_cell_memory :: "string \<Rightarrow> string \<Rightarrow> bool" where
  "standard_cell_memory w new \<longleftrightarrow>
     (\<exists>ports ws. w = ''model_6144x32_2048x32scm'' @ ports @ '')'' @ ws @ '';'' \<and>
        ports \<noteq> [] \<and> list_all rx_space ws \<and>
        (\<nexists>j ws' v. 1 \<le> j \<and> j < length ports \<and> list_all rx_space ws' \<and>
           drop j (ports @ '')'' @ ws @ '';'') = '')'' @ ws' @ '';'' @ v)) \<and>
     new = fixed_text DEPARAM_REPLACE3"

lemma paramod_lang:
  "in_lang (Seq PARAMOD (Lit inst)) w \<Longrightarrow> instance_of inst w"
proof -
  assume "in_lang (Seq PARAMOD (Lit inst)) w"
  then obtain c x b ws where "w = (CHR 0x5C # ''$paramod'') @ ([c] @ x) @ ([b] @ ws) @ inst"
    and "list_all paramod_char ([c] @ x)" and "list_all rx_space ([b] @ ws)"
    by (auto simp: PARAMOD_def in_lang_Many_One paramod_char_def [abs_def])
  then show "instance_of inst w" unfolding instance_of_def
    by (intro exI [of _ "[c] @ x"] exI [of _ "[b] @ ws"]) simp
qed

lemma deparam_regular:
  "unbound (Seq PARAMOD (Lit inst))" "nonempty_lang (Seq PARAMOD (Lit inst))"
  "unbound (DEPARAM_REGEX ! 1)" "nonempty_lang (DEPARAM_REGEX ! 1)"
  "unbound (DEPARAM_REGEX ! 3)" "nonempty_lang (DEPARAM_REGEX ! 3)"
  by (simp_all add: DEPARAM_REGEX_def PARAMOD_def any_or_nl_def nonempty_lang_def)

lemma fixed_expand: "list_all (\<lambda>x. case x of Txt s \<Rightarrow> True | Ref n \<Rightarrow> False) t \<Longrightarrow> expand t p q = fixed_text t"
  by (induction t) (auto simp: expand_def fixed_text_def split: piece.splits)

lemma bank_match:
  assumes "match_at (DEPARAM_REGEX ! 1) p = Some q" and "grps p = []"
  shows "interleaved_bank (consumed p q) (expand DEPARAM_REPLACE1 p q)"
proof -
  have "q \<in> set (rmatch (Seq PARAMOD (Seq (Lit ([CHR 0x5C] @ ''l2_ram_i.CUTS[''))
      (Seq (Grp 1 (One is_digit)) (Lit ''].bank_i'')))) p)"
    using match_at_Some(1) [OF assms(1)] by (simp only: DEPARAM_REGEX_def seqs.simps nth_Cons_Suc nth_Cons_0 One_nat_def)
  then obtain m1 m2 m3 where
    m1: "m1 \<in> set (rmatch PARAMOD p)" "consumed p q = consumed p m1 @ consumed m1 q" and
    m2: "m2 \<in> set (rmatch (Lit ([CHR 0x5C] @ ''l2_ram_i.CUTS['')) m1)" "consumed m1 q = consumed m1 m2 @ consumed m2 q" and
    m3: "m3 \<in> set (rmatch (Grp 1 (One is_digit)) m2)" "consumed m2 q = consumed m2 m3 @ consumed m3 q" and
    q: "q \<in> set (rmatch (Lit ''].bank_i'') m3)"
    by (elim rmatch_SeqE)
  have plain: "no_grp PARAMOD" by (simp add: PARAMOD_def)
  have g1: "grps m1 = []" "in_lang PARAMOD (consumed p m1)"
    using rmatch_plainE [OF m1(1) plain] assms(2) by auto
  have g2: "grps m2 = []" "consumed m1 m2 = [CHR 0x5C] @ ''l2_ram_i.CUTS[''"
    using rmatch_plainE [OF m2(1)] g1(1) by auto
  have g3: "grps m3 = [(1, consumed m2 m3)]" "in_lang (One is_digit) (consumed m2 m3)"
    using rmatch_GrpE [OF m3(1)] g2(1) by auto
  then obtain d where d: "consumed m2 m3 = [d]" "is_digit d" by auto
  have g4: "grps q = [(1, [d])]" "consumed m3 q = ''].bank_i''"
    using rmatch_plainE [OF q] g3(1) d(1) by auto
  have "in_lang (Seq PARAMOD (Lit (CHR 0x5C # ''l2_ram_i.CUTS['' @ [d] @ ''].bank_i''))) (consumed p q)"
    unfolding m1(2) m2(2) m3(2) g2(2) g4(2) d(1)
    by (rule lang_Seq [OF g1(2)]) simp
  then have "instance_of (CHR 0x5C # ''l2_ram_i.CUTS['' @ [d] @ ''].bank_i'') (consumed p q)" by (rule paramod_lang)
  moreover have "expand DEPARAM_REPLACE1 p q = BANK_TEXT d"
    by (simp add: expand_def DEPARAM_REPLACE1_def BANK_TEXT_def g4(1))
  ultimately show ?thesis using d(2) unfolding interleaved_bank_def by blast
qed

lemma fixed_match:
  assumes "match_at (Seq PARAMOD (Lit inst)) p = Some q"
  shows "instance_of inst (consumed p q)"
  using match_at_Some(3) [OF assms] by (rule paramod_lang)

definition SCM_CLOSE :: rx where
  "SCM_CLOSE = seqs [Lit '')'', Many True (One (\<lambda>c. rx_space c \<or> c = CHR ''\<newline>'')), Lit '';'']"

lemma scm_close_lang: "in_lang SCM_CLOSE w \<longleftrightarrow> (\<exists>ws. w = '')'' @ ws @ '';'' \<and> list_all rx_space ws)"
proof -
  have sp: "(\<lambda>c. rx_space c \<or> c = CHR ''\<newline>'') = rx_space" by (auto simp: rx_space_def is_space_def)
  show ?thesis by (auto simp: SCM_CLOSE_def in_lang_Many_One sp)
qed

lemma scm_match:
  assumes "match_at (DEPARAM_REGEX ! 3) p = Some q"
  shows "standard_cell_memory (consumed p q) (fixed_text DEPARAM_REPLACE3)"
proof -
  have "match_at (Seq (Lit ''model_6144x32_2048x32scm'') (Seq (Plus False (any_or_nl False)) SCM_CLOSE)) p = Some q"
    using assms by (simp only: DEPARAM_REGEX_def SCM_CLOSE_def seqs.simps nth_Cons_Suc nth_Cons_0 numeral_3_eq_3)
  from lazy_part [OF this single_any] obtain m n where m: "m \<in> set (rmatch (Lit ''model_6144x32_2048x32scm'') p)"
    and n: "1 \<le> n" "n \<le> length (ahead m)" and q: "q \<in> set (rmatch SCM_CLOSE (advance n m))"
    and least: "\<forall>j. 1 \<le> j \<and> j < n \<longrightarrow> rmatch SCM_CLOSE (advance j m) = []" by blast
  define ports where "ports = take n (ahead m)"
  obtain ws where ws: "consumed (advance n m) q = '')'' @ ws @ '';''" "list_all rx_space ws"
    using rmatch_lang [OF q] by (auto simp: scm_close_lang)
  have head: "consumed p m = ''model_6144x32_2048x32scm''" using rmatch_lang [OF m] by simp
  have "drop n (ahead m) = ('')'' @ ws @ '';'') @ ahead q" using later_ahead [OF rmatch_later [OF q]] ws by simp
  then have am: "ahead m = ports @ ('')'' @ ws @ '';'') @ ahead q"
    using append_take_drop_id [of n "ahead m"] by (simp add: ports_def)
  have len: "length ports = n" using n by (simp add: ports_def)
  have "later p m" by (rule rmatch_later [OF m])
  moreover have "later m q" by (rule later_trans [OF later_advance [OF n(2)] rmatch_later [OF q]])
  ultimately have "consumed p q = consumed p m @ consumed m q" by (rule consumed_trans)
  moreover note \<open>later m q\<close>
  moreover have "consumed m q = ports @ '')'' @ ws @ '';''" using later_ahead [OF \<open>later m q\<close>] am by simp
  ultimately have w: "consumed p q = ''model_6144x32_2048x32scm'' @ ports @ '')'' @ ws @ '';''" using head by simp
  have first: "\<nexists>j ws' v. 1 \<le> j \<and> j < length ports \<and> list_all rx_space ws' \<and>
      drop j (ports @ '')'' @ ws @ '';'') = '')'' @ ws' @ '';'' @ v"
  proof (intro notI, elim exE conjE)
    fix j ws' v assume j: "1 \<le> j" "j < length ports" "list_all rx_space ws'"
      and d: "drop j (ports @ '')'' @ ws @ '';'') = '')'' @ ws' @ '';'' @ v"
    have "ahead (advance j m) = drop j (ports @ '')'' @ ws @ '';'') @ ahead q"
      using j by (simp add: am)
    then have "ahead (advance j m) = ('')'' @ ws' @ '';'') @ (v @ ahead q)" unfolding d by simp
    moreover have "in_lang SCM_CLOSE ('')'' @ ws' @ '';'')" using j(3) by (auto simp: scm_close_lang)
    moreover have "unbound SCM_CLOSE" by (simp add: SCM_CLOSE_def)
    ultimately have "rmatch SCM_CLOSE (advance j m) \<noteq> []" using rmatch_complete by fastforce
    with least j len show False by simp
  qed
  have "ports \<noteq> []" using len n(1) by auto
  with w ws(2) first show ?thesis unfolding standard_cell_memory_def by blast
qed

subsection \<open>The script\<close>

lemma deparam_step_spec:
  assumes "unbound r" and "nonempty_lang r"
    and "\<And>p q. match_at r p = Some q \<Longrightarrow> grps p = [] \<Longrightarrow> P (consumed p q) (expand t p q)"
  shows "case deparam_step s (r, t) of
      Inl e \<Rightarrow> e = AssertionError \<and> (\<nexists>u w v. s = u @ w @ v \<and> in_lang r w)
    | Inr s' \<Rightarrow> \<exists>n>0. rewritten r P n s s'"
proof -
  obtain out n where run: "subst_from r t None None s = (out, n)" by fastforce
  have "rewritten r P n s out" using subst_rewritten [of r P t s None, OF assms] run by simp
  moreover have "n = 0 \<longleftrightarrow> (\<nexists>u w v. s = u @ w @ v \<and> in_lang r w)"
    using subst_count [of None r t None s] run found_from_iff [OF assms(1,2)] by simp
  ultimately show ?thesis using run by (auto simp: deparam_step_def re_subn_def)
qed

text \<open>One successful step after the other.\<close>

fun renamed :: "(rx \<times> (string \<Rightarrow> string \<Rightarrow> bool)) list \<Rightarrow> string \<Rightarrow> string \<Rightarrow> bool" where
  "renamed [] s t \<longleftrightarrow> s = t"
| "renamed ((r, P) # steps) s t \<longleftrightarrow> (\<exists>n>0. \<exists>u. rewritten r P n s u \<and> renamed steps u t)"

lemma steps_spec:
  assumes "list_all2 (\<lambda>(r, t) (r', P). r' = r \<and> unbound r \<and> nonempty_lang r \<and>
    (\<forall>p q. match_at r p = Some q \<longrightarrow> grps p = [] \<longrightarrow> P (consumed p q) (expand t p q))) elems steps"
  shows "case res_foldM deparam_step s elems of
      Inl e \<Rightarrow> e = AssertionError \<and>
        (\<exists>done r P rest u. steps = done @ (r, P) # rest \<and> renamed done s u \<and> (\<nexists>x w y. u = x @ w @ y \<and> in_lang r w))
    | Inr t \<Rightarrow> renamed steps s t"
  using assms
proof (induction elems steps arbitrary: s rule: list_all2_induct)
  case (Cons elem elems step steps)
  obtain r t P where e: "elem = (r, t)" and st: "step = (r, P)" and ok: "unbound r" "nonempty_lang r"
    "\<And>p q. match_at r p = Some q \<Longrightarrow> grps p = [] \<Longrightarrow> P (consumed p q) (expand t p q)"
    using Cons.hyps(1) by (cases elem; cases step) auto
  note spec = deparam_step_spec [of r P t s, OF ok]
  show ?case
  proof (cases "deparam_step s (r, t)")
    case (Inl x)
    with spec have "x = AssertionError" "\<nexists>x w y. s = x @ w @ y \<and> in_lang r w" by simp_all
    then show ?thesis using Inl unfolding e st
      by (simp, intro exI [of _ "[]"] exI [of _ r] exI [of _ P] exI [of _ steps] exI [of _ s]) simp
  next
    case (Inr u)
    with spec obtain n where n: "n > 0" "rewritten r P n s u" by auto
    show ?thesis
    proof (cases "res_foldM deparam_step u elems")
      case (Inl x)
      with Cons.IH [of u] obtain ds r' P' rest v where "x = AssertionError" "steps = ds @ (r', P') # rest"
        "renamed ds u v" "\<nexists>x w y. v = x @ w @ y \<and> in_lang r' w" by auto
      moreover then have "renamed ((r, P) # ds) s v" using n by auto
      ultimately show ?thesis using Inl Inr unfolding e st
        by (simp del: renamed.simps, intro exI [of _ "(r, P) # ds"] exI [of _ r'] exI [of _ P'])
          (simp del: renamed.simps, intro exI [of _ v], simp)
    next
      case Inr': (Inr t')
      with Cons.IH [of u] n Inr show ?thesis unfolding e st by auto
    qed
  qed
qed simp

definition DEPARAM_STEPS :: "(rx \<times> (string \<Rightarrow> string \<Rightarrow> bool)) list" where
  "DEPARAM_STEPS = zip DEPARAM_REGEX [boot_rom, interleaved_bank, private_bank, standard_cell_memory]"

text \<open>Property C26. The script that gives the memories their names back either ends with an \<open>AssertionError\<close>, and
  writes nothing, when one of the four kinds of instances is not in the text, or replaces them all,
  kind by kind and from left to right, so that none is passed over: the boot ROM, the interleaved
  banks, each by an instance with its own number in all three places, the private bank, and the memory
  of standard cells with its port list, which ends at the first parenthesis that closes before a
  semicolon.  What is between them does not change.\<close>
theorem memories_renamed:
  "case deparam_names s of
     Inl e \<Rightarrow> e = AssertionError \<and>
       (\<exists>ok r P rest u. DEPARAM_STEPS = ok @ (r, P) # rest \<and> renamed ok s u \<and> (\<nexists>x w y. u = x @ w @ y \<and> in_lang r w))
   | Inr t \<Rightarrow> renamed DEPARAM_STEPS s t"
  unfolding deparam_names_def
proof (rule steps_spec)
  have fixed: "expand DEPARAM_REPLACE0 p q = ''ift_boot_rom_hdac boot_rom_i''"
    "expand DEPARAM_REPLACE2 p q = fixed_text DEPARAM_REPLACE2"
    "expand DEPARAM_REPLACE3 p q = fixed_text DEPARAM_REPLACE3" for p q
    by (simp add: expand_def DEPARAM_REPLACE0_def)
      (rule fixed_expand, simp add: DEPARAM_REPLACE2_def DEPARAM_REPLACE3_def)+
  obtain r1 r3 where r: "DEPARAM_REGEX ! 1 = r1" "DEPARAM_REGEX ! 3 = r3" by blast
  have steps: "DEPARAM_REGEX = [Seq PARAMOD (Lit ''boot_rom_i''), r1,
      Seq PARAMOD (Lit (CHR 0x5C # ''l2_ram_i.bank_sram_pri1_i'')), r3]"
    unfolding r [symmetric] by (simp add: DEPARAM_REGEX_def)
  note regular = deparam_regular [unfolded r] and matches = bank_match [unfolded r] scm_match [unfolded r]
  have boot: "boot_rom w ''ift_boot_rom_hdac boot_rom_i''" if "instance_of ''boot_rom_i'' w" for w
    using that by (simp add: boot_rom_def)
  have priv: "private_bank w (fixed_text DEPARAM_REPLACE2)"
    if "instance_of (CHR 0x5C # ''l2_ram_i.bank_sram_pri1_i'') w" for w
    using that by (simp add: private_bank_def)
  show "list_all2 (\<lambda>(r, t) (r', P). r' = r \<and> unbound r \<and> nonempty_lang r \<and>
      (\<forall>p q. match_at r p = Some q \<longrightarrow> grps p = [] \<longrightarrow> P (consumed p q) (expand t p q)))
    (zip DEPARAM_REGEX [DEPARAM_REPLACE0, DEPARAM_REPLACE1, DEPARAM_REPLACE2, DEPARAM_REPLACE3]) DEPARAM_STEPS"
    unfolding DEPARAM_STEPS_def steps zip_Cons_Cons zip_Nil list_all2_Cons prod.case fixed
    by (intro conjI allI impI refl list_all2_Nil [THEN iffD2] regular boot priv matches fixed_match) assumption+
qed

end
