(* ===== verification/Py_Values.thy ===== *)
theory Py_Values imports Py_Prelude begin

section \<open>Python values and ordered dictionaries\<close>

text \<open>
  The values the YAML loader hands to the sources, and the operations the sources apply to them
  without checking their type first: subscripts, \<open>keys\<close>, iteration, \<open>in\<close>, \<open>len\<close>, \<open>str\<close> and
  \<open>==\<close>.  Each gives the exception Python raises on a value of the wrong type.  Mapping keys are
  strings; floats, dates and binary scalars are left out.  A mapping is an ordered association
  list, as the loader's \<open>OrderedDict\<close> is.
\<close>

subsection \<open>Ordered dictionaries\<close>

text \<open>\<open>d[k] = v\<close> keeps the place of an old key and appends a new one; \<open>del\<close> closes the gap.\<close>

fun od_set :: "'k \<Rightarrow> 'v \<Rightarrow> ('k \<times> 'v) list \<Rightarrow> ('k \<times> 'v) list" where
  "od_set k v [] = [(k, v)]"
| "od_set k v ((k', v') # d) = (if k' = k then (k, v) # d else (k', v') # od_set k v d)"

definition od_del :: "'k \<Rightarrow> ('k \<times> 'v) list \<Rightarrow> ('k \<times> 'v) list" where
  "od_del k d = filter (\<lambda>(k', v). k' \<noteq> k) d"

definition od_keys :: "('k \<times> 'v) list \<Rightarrow> 'k list" where
  "od_keys d = map fst d"

definition od_get :: "('k \<times> 'v) list \<Rightarrow> 'k \<Rightarrow> 'v res" where
  "od_get d k = (case map_of d k of None \<Rightarrow> Inl KeyError | Some v \<Rightarrow> Inr v)"

abbreviation od_ok :: "('k \<times> 'v) list \<Rightarrow> bool" where
  "od_ok d \<equiv> distinct (od_keys d)"

lemma od_keys_simps [simp]:
  "od_keys [] = []" "od_keys (p # d) = fst p # od_keys d"
  "od_keys (d @ d') = od_keys d @ od_keys d'"
  by (simp_all add: od_keys_def)

lemma od_keys_set [simp]:
  "od_keys (od_set k v d) = (if k \<in> set (od_keys d) then od_keys d else od_keys d @ [k])"
  by (induction k v d rule: od_set.induct) auto

lemma od_set_new: "k \<notin> set (od_keys d) \<Longrightarrow> od_set k v d = d @ [(k, v)]"
  by (induction k v d rule: od_set.induct) auto

lemma map_of_od_set [simp]: "map_of (od_set k v d) = (map_of d)(k \<mapsto> v)"
  by (induction k v d rule: od_set.induct) auto

lemma od_ok_set [simp]: "od_ok d \<Longrightarrow> od_ok (od_set k v d)"
  by auto

lemma od_keys_del [simp]: "od_keys (od_del k d) = filter (\<lambda>k'. k' \<noteq> k) (od_keys d)"
  by (induction d) (auto simp: od_del_def)

lemma map_of_od_del [simp]: "map_of (od_del k d) = (map_of d)(k := None)"
  by (induction d) (auto simp: od_del_def)

lemma od_ok_del [simp]: "od_ok d \<Longrightarrow> od_ok (od_del k d)"
  by simp

lemma map_of_od_keys: "map_of d k = None \<longleftrightarrow> k \<notin> set (od_keys d)"
  by (induction d) auto

lemma od_get_Inr_iff: "od_get d k = Inr v \<longleftrightarrow> map_of d k = Some v"
  by (simp add: od_get_def split: option.splits)

lemma od_get_Inl_iff: "od_get d k = Inl e \<longleftrightarrow> e = KeyError \<and> k \<notin> set (od_keys d)"
  by (auto simp: od_get_def map_of_od_keys [symmetric] split: option.splits)

lemma od_ext:
  assumes "od_keys d = od_keys d'" and "od_ok d" and "\<And>k. k \<in> set (od_keys d) \<Longrightarrow> map_of d k = map_of d' k"
  shows "d = d'"
  using assms
proof (induction d arbitrary: d')
  case Nil
  then show ?case by (cases d') auto
next
  case (Cons p d)
  then obtain q e where q: "d' = q # e" "fst q = fst p" by (cases d') auto
  have "snd q = snd p"
    using Cons.prems(3) [of "fst p"] q by (cases p; cases q) auto
  moreover have "d = e"
  proof (rule Cons.IH)
    show "od_keys d = od_keys e" "od_ok d" using Cons.prems q by auto
    show "map_of d k = map_of e k" if "k \<in> set (od_keys d)" for k
      using Cons.prems(2) Cons.prems(3) [of k] q that by (cases p; cases q) (auto split: if_splits)
  qed
  ultimately show ?case using q by (cases p; cases q) auto
qed

subsection \<open>Values\<close>

datatype pyval =
    PNone
  | PBool bool
  | PInt int
  | PStr string
  | PList "pyval list"
  | PDict "(string \<times> pyval) list"

abbreviation pstrs :: "string list \<Rightarrow> pyval" where
  "pstrs ss \<equiv> PList (map PStr ss)"

text \<open>\<open>==\<close>: \<open>True\<close> equals \<open>1\<close> and \<open>False\<close> equals \<open>0\<close>; two \<open>OrderedDict\<close>s compare with their order.\<close>

fun py_norm :: "pyval \<Rightarrow> pyval" where
  "py_norm PNone = PNone"
| "py_norm (PBool b) = PInt (if b then 1 else 0)"
| "py_norm (PInt i) = PInt i"
| "py_norm (PStr s) = PStr s"
| "py_norm (PList vs) = PList (map py_norm vs)"
| "py_norm (PDict kvs) = PDict (map (\<lambda>(k, v). (k, py_norm v)) kvs)"

definition py_eq :: "pyval \<Rightarrow> pyval \<Rightarrow> bool" where
  "py_eq a b \<longleftrightarrow> py_norm a = py_norm b"

lemma py_eq_refl [simp]: "py_eq a a"
  by (simp add: py_eq_def)

lemma py_eq_PStr [simp]: "py_eq (PStr s) v \<longleftrightarrow> v = PStr s" "py_eq v (PStr s) \<longleftrightarrow> v = PStr s"
  by (cases v; auto simp: py_eq_def)+

lemma py_eq_PNone [simp]: "py_eq PNone v \<longleftrightarrow> v = PNone" "py_eq v PNone \<longleftrightarrow> v = PNone"
  by (cases v; auto simp: py_eq_def)+

fun py_hashable :: "pyval \<Rightarrow> bool" where
  "py_hashable (PList vs) = False"
| "py_hashable (PDict kvs) = False"
| "py_hashable v = True"

subsection \<open>Operations that may raise\<close>

text \<open>\<open>v['key']\<close>.\<close>

fun py_item :: "pyval \<Rightarrow> string \<Rightarrow> pyval res" where
  "py_item (PDict kvs) k = od_get kvs k"
| "py_item v k = Inl TypeError"

text \<open>List subscripts: a negative index counts from the end.\<close>

definition py_index :: "'a list \<Rightarrow> int \<Rightarrow> nat res" where
  "py_index xs i =
     (let n = int (length xs); j = (if i < 0 then i + n else i)
      in if 0 \<le> j \<and> j < n then Inr (nat j) else Inl IndexError)"

fun py_index_val :: "'a list \<Rightarrow> pyval \<Rightarrow> nat res" where
  "py_index_val xs (PInt i) = py_index xs i"
| "py_index_val xs (PBool b) = py_index xs (if b then 1 else 0)"
| "py_index_val xs v = Inl TypeError"

text \<open>\<open>v[x]\<close> for any subscript: a mapping wants a hashable key, a sequence an integer.\<close>

fun py_subscript :: "pyval \<Rightarrow> pyval \<Rightarrow> pyval res" where
  "py_subscript (PDict kvs) x =
     (case x of
        PStr k \<Rightarrow> od_get kvs k
      | _ \<Rightarrow> if py_hashable x then Inl KeyError else Inl TypeError)"
| "py_subscript (PList vs) x = res_map (\<lambda>i. vs ! i) (py_index_val vs x)"
| "py_subscript (PStr s) x = res_map (\<lambda>i. PStr [s ! i]) (py_index_val s x)"
| "py_subscript v x = Inl TypeError"

lemma py_subscript_PStr: "py_subscript v (PStr k) = py_item v k"
  by (cases v) auto

lemma py_index_nat [simp]: "i < length xs \<Longrightarrow> py_index xs (int i) = Inr i"
  by (simp add: py_index_def)

text \<open>\<open>try: v['key']  except KeyError: default\<close>.\<close>

definition py_item_or :: "pyval \<Rightarrow> string \<Rightarrow> pyval \<Rightarrow> pyval res" where
  "py_item_or v k dflt = res_catch KeyError (py_item v k) (Inr dflt)"

text \<open>\<open>v.keys()\<close>.\<close>

fun py_keys :: "pyval \<Rightarrow> string list res" where
  "py_keys (PDict kvs) = Inr (od_keys kvs)"
| "py_keys v = Inl AttributeError"

text \<open>\<open>for x in v\<close>: a string yields its characters, a mapping its keys.\<close>

fun py_iter :: "pyval \<Rightarrow> pyval list res" where
  "py_iter (PList vs) = Inr vs"
| "py_iter (PStr s) = Inr (map (\<lambda>c. PStr [c]) s)"
| "py_iter (PDict kvs) = Inr (map PStr (od_keys kvs))"
| "py_iter v = Inl TypeError"

text \<open>\<open>set(v)\<close>, as the elements it is built from: they have to be hashable.\<close>

definition py_set :: "pyval \<Rightarrow> pyval list res" where
  "py_set v = res_bind (py_iter v) (\<lambda>xs. if list_all py_hashable xs then Inr xs else Inl TypeError)"

text \<open>\<open>x in v\<close>.\<close>

fun py_in :: "pyval \<Rightarrow> pyval \<Rightarrow> bool res" where
  "py_in x (PList vs) = Inr (list_ex (py_eq x) vs)"
| "py_in (PStr p) (PStr s) = Inr (has_sub p s)"
| "py_in x (PStr s) = Inl TypeError"
| "py_in x (PDict kvs) =
     (if py_hashable x then Inr (list_ex (\<lambda>k. py_eq x (PStr k)) (od_keys kvs)) else Inl TypeError)"
| "py_in x v = Inl TypeError"

text \<open>\<open>len(v)\<close>.\<close>

fun py_len :: "pyval \<Rightarrow> nat res" where
  "py_len (PList vs) = Inr (length vs)"
| "py_len (PStr s) = Inr (length s)"
| "py_len (PDict kvs) = Inr (length kvs)"
| "py_len v = Inl TypeError"

text \<open>\<open>sep.join(v)\<close>: every element has to be a string.\<close>

fun py_as_str :: "pyval \<Rightarrow> string res" where
  "py_as_str (PStr s) = Inr s"
| "py_as_str v = Inl TypeError"

definition py_join_val :: "string \<Rightarrow> pyval \<Rightarrow> string res" where
  "py_join_val sep v = res_bind (py_iter v) (\<lambda>xs. res_map (py_join sep) (res_mapM py_as_str xs))"

text \<open>\<open>v[n:]\<close> and \<open>v[-n:]\<close>.\<close>

fun py_from :: "nat \<Rightarrow> pyval \<Rightarrow> pyval res" where
  "py_from n (PStr s) = Inr (PStr (drop n s))"
| "py_from n (PList vs) = Inr (PList (drop n vs))"
| "py_from n v = Inl TypeError"

fun py_last :: "nat \<Rightarrow> pyval \<Rightarrow> pyval res" where
  "py_last n (PStr s) = Inr (PStr (slice_last n s))"
| "py_last n (PList vs) = Inr (PList (slice_last n vs))"
| "py_last n v = Inl TypeError"

text \<open>\<open>v.lower()\<close>.\<close>

fun py_lower_val :: "pyval \<Rightarrow> string res" where
  "py_lower_val (PStr s) = Inr (py_lower s)"
| "py_lower_val v = Inl AttributeError"

subsection \<open>str and repr\<close>

text \<open>
  \<open>repr\<close> of a string: double quotes only when the text has an apostrophe and no double quote;
  the backslash and the quote are escaped and the control characters written in hexadecimal.
\<close>

definition hex_digit :: "nat \<Rightarrow> char" where
  "hex_digit d = (if d < 10 then char_of (48 + d) else char_of (87 + d))"

definition repr_char :: "char \<Rightarrow> char \<Rightarrow> string" where
  "repr_char q c =
     (let n = code_of c in
      if c = q \<or> n = 92 then [char_of (92 :: nat), c]
      else if n = 9 then [char_of (92 :: nat), CHR ''t'']
      else if n = 10 then [char_of (92 :: nat), CHR ''n'']
      else if n = 13 then [char_of (92 :: nat), CHR ''r'']
      else if n < 32 \<or> (127 \<le> n \<and> n \<le> 160) \<or> n = 173 then
        [char_of (92 :: nat), CHR ''x'', hex_digit (n div 16), hex_digit (n mod 16)]
      else [c])"

definition repr_str :: "string \<Rightarrow> string" where
  "repr_str s =
     (let q = (if char_of (39 :: nat) \<in> set s \<and> char_of (34 :: nat) \<notin> set s
               then char_of (34 :: nat) else char_of (39 :: nat))
      in [q] @ concat (map (repr_char q) s) @ [q])"

fun py_repr :: "pyval \<Rightarrow> string" where
  "py_repr PNone = ''None''"
| "py_repr (PBool b) = (if b then ''True'' else ''False'')"
| "py_repr (PInt i) = int_str i"
| "py_repr (PStr s) = repr_str s"
| "py_repr (PList vs) = ''['' @ py_join '', '' (map py_repr vs) @ '']''"
| "py_repr (PDict kvs) =
     (if kvs = [] then ''OrderedDict()''
      else ''OrderedDict(['' @
        py_join '', '' (map (\<lambda>(k, v). ''('' @ repr_str k @ '', '' @ py_repr v @ '')'') kvs) @ ''])'')"

fun py_str :: "pyval \<Rightarrow> string" where
  "py_str (PStr s) = s"
| "py_str v = py_repr v"

subsection \<open>Facts the components share\<close>

lemma py_iter_pstrs [simp]: "py_iter (pstrs ss) = Inr (map PStr ss)"
  by simp

lemma py_set_pstrs [simp]: "py_set (pstrs ss) = Inr (map PStr ss)"
  by (simp add: py_set_def list_all_iff)

lemma py_in_pstrs [simp]: "py_in (PStr s) (pstrs ss) = Inr (s \<in> set ss)"
  by (auto simp: list_ex_iff)

lemma py_in_None_pstrs [simp]: "py_in PNone (pstrs ss) = Inr False"
  by (auto simp: list_ex_iff)

lemma py_join_val_pstrs [simp]: "py_join_val sep (pstrs ss) = Inr (py_join sep ss)"
proof -
  have "res_mapM py_as_str (map PStr ss) = Inr ss"
    by (induction ss) simp_all
  then show ?thesis by (simp add: py_join_val_def)
qed

lemma py_item_or_PDict [simp]:
  "py_item_or (PDict kvs) k dflt = Inr (case map_of kvs k of None \<Rightarrow> dflt | Some v \<Rightarrow> v)"
  by (simp add: py_item_or_def od_get_def split: option.splits)

lemma py_item_PDict_Inr: "py_item v k = Inr x \<Longrightarrow> \<exists>kvs. v = PDict kvs \<and> map_of kvs k = Some x"
  by (cases v) (auto simp: od_get_def split: option.splits)

lemma py_item_or_not_dict: "(\<And>kvs. v \<noteq> PDict kvs) \<Longrightarrow> py_item_or v k dflt = Inl TypeError"
  by (cases v) (auto simp: py_item_or_def)

lemma py_iter_keys: "py_keys v = Inr ks \<Longrightarrow> py_iter v = Inr (map PStr ks)"
  by (cases v) auto

end
