(* ===== verification/Ucode.thy ===== *)
theory Ucode imports Py_Values begin

section \<open>The microcode of the HWPE engine\<close>

text \<open>
  \<open>ips/hwpe-mac-engine/ucode/ucode_common.py\<close>: the loader that turns \<open>code.yml\<close> into a list of
  micro-operations and loop lengths, the loop table, the state machine that steps through up to
  six nested loops, the register file update, and the packing into the hardware's bit vectors.
  The state's indices are natural numbers, as every state the machine builds has them; a list
  index past the end is Python's \<open>IndexError\<close>.
\<close>

subsection \<open>Loading the code\<close>

record uop =
  op_sel :: bool
  u_a :: pyval
  u_b :: pyval

text \<open>\<open>try: cn['a'] = mnem_p[x]  except KeyError: cn['a'] = x\<close>.\<close>

definition mnemonic :: "pyval \<Rightarrow> pyval \<Rightarrow> pyval res" where
  "mnemonic mnem x = res_catch KeyError (py_subscript mnem x) (Inr x)"

definition ucode_load_op :: "pyval \<Rightarrow> pyval \<Rightarrow> uop res" where
  "ucode_load_op mnem c =
     res_bind (py_item c ''op'') (\<lambda>opv.
     res_bind (py_item c ''a'') (\<lambda>av. res_bind (mnemonic mnem av) (\<lambda>a.
     res_bind (py_item c ''b'') (\<lambda>bv. res_bind (mnemonic mnem bv) (\<lambda>b.
       Inr \<lparr>op_sel = py_eq opv (PStr ''add''), u_a = a, u_b = b\<rparr>)))))"

text \<open>The loop over \<open>code_p\<close>: extend the flat list, record the number of operations.\<close>

definition ucode_load_loops :: "pyval \<Rightarrow> (pyval list \<times> nat list) res" where
  "ucode_load_loops code_p =
     res_bind (py_iter code_p) (\<lambda>ls.
       res_foldM
         (\<lambda>(code_l, loops_ops) l.
            res_bind (py_subscript code_p l) (\<lambda>body.
            res_bind (py_iter body) (\<lambda>cs.
            res_bind (py_len body) (\<lambda>n. Inr (code_l @ cs, loops_ops @ [n])))))
         ([], []) ls)"

definition ucode_load :: "pyval \<Rightarrow> (nat list \<times> uop list) res" where
  "ucode_load doc =
     res_bind (py_item doc ''mnemonics'') (\<lambda>mnem.
     res_bind (py_item doc ''code'') (\<lambda>code_p.
     res_bind (ucode_load_loops code_p) (\<lambda>(code_l, loops_ops).
     res_map (\<lambda>code. (loops_ops, code)) (res_mapM (ucode_load_op mnem) code_l))))"

subsection \<open>The loop table\<close>

record uloop =
  nb_ops :: nat
  lrange :: int
  ucode_addr :: nat

fun get_loops_from :: "nat \<Rightarrow> (nat \<times> int) list \<Rightarrow> uloop list" where
  "get_loops_from a [] = []"
| "get_loops_from a ((n, r) # ps) =
     \<lparr>nb_ops = n, lrange = r, ucode_addr = a\<rparr> # get_loops_from (a + n) ps"

definition ucode_get_loops :: "nat list \<Rightarrow> int list \<Rightarrow> uloop list" where
  "ucode_get_loops loops_ops loops_range = get_loops_from 0 (zip loops_ops loops_range)"

subsection \<open>The state machine\<close>

definition NB_LOOPS :: nat where
  "NB_LOOPS = 6"

record ustate =
  s_addr :: nat
  s_loop :: nat
  s_op :: nat
  s_idx :: "int list"

record uresult =
  r_execute :: bool
  r_end :: bool
  r_busy :: bool
  r_next :: ustate
  r_caller_idx :: "int list"

text \<open>
  One call.  \<open>next_idx = curr_idx\<close> binds the caller's own list, so the two iterating branches
  change it in place: \<open>r_caller_idx\<close> is what the caller's list holds after the call.
\<close>

definition zero_below :: "nat \<Rightarrow> int list \<Rightarrow> int list" where
  "zero_below n xs = replicate (min n (length xs)) 0 @ drop n xs"

definition ucode_state_machine :: "uloop list \<Rightarrow> ustate \<Rightarrow> uresult res" where
  "ucode_state_machine loops s =
     (let cl = s_loop s; idx = s_idx s in
      if length idx \<le> cl \<or> length loops \<le> cl then Inl IndexError
      else
        (let l = loops ! cl; more = (idx ! cl < lrange l - 1) in
         if more \<and> int (s_op s) < int (nb_ops l) - 1 then
           Inr \<lparr>r_execute = True, r_end = False, r_busy = True,
                r_next = s\<lparr>s_addr := s_addr s + 1, s_op := s_op s + 1\<rparr>, r_caller_idx = idx\<rparr>
         else if more \<and> cl > 0 then
           (let idx' = (zero_below cl idx)[cl := idx ! cl + 1] in
            Inr \<lparr>r_execute = True, r_end = False, r_busy = False,
                 r_next = \<lparr>s_addr = ucode_addr (loops ! 0), s_loop = 0, s_op = 0, s_idx = idx'\<rparr>,
                 r_caller_idx = idx'\<rparr>)
         else if more then
           (let idx' = idx[cl := idx ! cl + 1] in
            Inr \<lparr>r_execute = True, r_end = False, r_busy = False,
                 r_next = s\<lparr>s_addr := ucode_addr l, s_op := 0, s_idx := idx'\<rparr>,
                 r_caller_idx = idx'\<rparr>)
         else if cl < NB_LOOPS - 1 then
           (if length loops \<le> cl + 1 then Inl IndexError
            else
              Inr \<lparr>r_execute = False, r_end = False, r_busy = True,
                   r_next = s\<lparr>s_addr := ucode_addr (loops ! (cl + 1)), s_loop := cl + 1, s_op := 0\<rparr>,
                   r_caller_idx = idx\<rparr>)
         else
           Inr \<lparr>r_execute = False, r_end = True, r_busy = False,
                r_next = \<lparr>s_addr = 0, s_loop = 0, s_op = 0, s_idx = replicate NB_LOOPS 0\<rparr>,
                r_caller_idx = idx\<rparr>))"

subsection \<open>Executing an operation\<close>

definition ucode_execute :: "ustate \<Rightarrow> uop list \<Rightarrow> int list \<Rightarrow> int list res" where
  "ucode_execute s code registers =
     (if length code \<le> s_addr s then Inl IndexError
      else
        (let c = code ! s_addr s in
         if op_sel c then
           res_bind (py_index_val registers (u_a c)) (\<lambda>i.
           res_bind (py_index_val registers (u_b c)) (\<lambda>j.
             Inr (registers[i := registers ! i + registers ! j])))
         else
           res_bind (py_index_val registers (u_b c)) (\<lambda>j.
           res_bind (py_index_val registers (u_a c)) (\<lambda>i.
             Inr (registers[i := registers ! j])))))"

subsection \<open>Packing into bit vectors\<close>

text \<open>
  \<open>bitstring.BitArray\<close> is a third-party class: its constructor from an unsigned value and a
  length, \<open>append\<close>, \<open>prepend\<close> and \<open>length\<close> are parameters.
\<close>

record 'b bitarray =
  ba_empty :: 'b
  ba_uint :: "pyval \<Rightarrow> nat \<Rightarrow> 'b res"
  ba_append :: "'b \<Rightarrow> 'b \<Rightarrow> 'b"
  ba_prepend :: "'b \<Rightarrow> 'b \<Rightarrow> 'b"
  ba_length :: "'b \<Rightarrow> nat"

definition pack_op :: "'b bitarray \<Rightarrow> uop \<Rightarrow> 'b res" where
  "pack_op B c =
     res_bind (ba_uint B (PInt (if op_sel c then 1 else 0)) 1) (\<lambda>b.
     res_bind (ba_uint B (u_a c) 5) (\<lambda>a_b.
     res_bind (ba_uint B (u_b c) 5) (\<lambda>b_b.
       Inr (ba_append B (ba_append B b a_b) b_b))))"

definition pack_code :: "'b bitarray \<Rightarrow> uop list \<Rightarrow> 'b res" where
  "pack_code B code =
     res_bind (res_foldM (\<lambda>acc c. res_map (ba_append B acc) (pack_op B c)) (ba_empty B) (rev code)) (\<lambda>bits.
       if ba_length B bits < 176 then
         res_map (ba_prepend B bits) (ba_uint B (PInt 0) (176 - ba_length B bits))
       else Inr bits)"

fun loops_addr_from :: "nat \<Rightarrow> nat list \<Rightarrow> nat list" where
  "loops_addr_from a [] = []"
| "loops_addr_from a (o1 # os) = a # loops_addr_from (a + o1) os"

definition pack_loops :: "'b bitarray \<Rightarrow> nat list \<Rightarrow> 'b res" where
  "pack_loops B loops_ops =
     res_foldM
       (\<lambda>acc (o1, a).
          res_bind (ba_uint B (PInt (int a)) 5) (\<lambda>a_b.
          res_bind (ba_uint B (PInt (int o1)) 3) (\<lambda>o_b.
            Inr (ba_append B (ba_append B acc a_b) o_b))))
       (ba_empty B) (zip (rev loops_ops) (rev (loops_addr_from 0 loops_ops)))"

definition ucode_bytecode :: "'b bitarray \<Rightarrow> uop list \<Rightarrow> nat list \<Rightarrow> ('b \<times> 'b) res" where
  "ucode_bytecode B code loops_ops =
     res_bind (pack_code B code) (\<lambda>c. res_map (\<lambda>l. (c, l)) (pack_loops B loops_ops))"

subsection \<open>Runs of the state machine\<close>

text \<open>
  A run calls the machine until it signals the end; the addresses at which it asks for an
  execution are collected.  \<open>ucode_run\<close> is the driver loop with fuel, \<open>usteps\<close> the relation of
  several calls without the end signal.
\<close>

definition prepend_trace ::
  "nat list \<Rightarrow> (nat list \<times> ustate) res option \<Rightarrow> (nat list \<times> ustate) res option" where
  "prepend_trace tr = map_option (res_map (\<lambda>(t, s). (tr @ t, s)))"

lemma prepend_trace_simps [simp]:
  "prepend_trace [] x = x"
  "prepend_trace tr (prepend_trace tr' x) = prepend_trace (tr @ tr') x"
  "prepend_trace tr None = None"
  "prepend_trace tr (Some (Inl e)) = Some (Inl e)"
  "prepend_trace tr (Some (Inr (t, s))) = Some (Inr (tr @ t, s))"
  by (auto simp: prepend_trace_def option.map_id option.map_comp o_def res_map_comp case_prod_beta
           intro!: option.map_cong arg_cong2 [where f = res_map])

fun ucode_run :: "uloop list \<Rightarrow> nat \<Rightarrow> ustate \<Rightarrow> (nat list \<times> ustate) res option" where
  "ucode_run loops 0 s = None"
| "ucode_run loops (Suc n) s =
     (case ucode_state_machine loops s of
        Inl e \<Rightarrow> Some (Inl e)
      | Inr r \<Rightarrow>
          (if r_end r then Some (Inr ([], r_next r))
           else prepend_trace (if r_execute r then [s_addr s] else []) (ucode_run loops n (r_next r))))"

inductive usteps :: "uloop list \<Rightarrow> ustate \<Rightarrow> nat list \<Rightarrow> ustate \<Rightarrow> bool" for loops where
  none: "usteps loops s [] s"
| call: "ucode_state_machine loops s = Inr r \<Longrightarrow> \<not> r_end r \<Longrightarrow> usteps loops (r_next r) tr s' \<Longrightarrow>
         usteps loops s ((if r_execute r then [s_addr s] else []) @ tr) s'"

lemmas usteps_none [intro] = usteps.none

lemma usteps_exec:
  "ucode_state_machine loops s = Inr r \<Longrightarrow> \<not> r_end r \<Longrightarrow> r_execute r \<Longrightarrow>
   usteps loops (r_next r) tr s' \<Longrightarrow> usteps loops s (s_addr s # tr) s'"
  using usteps.call [of loops s r tr s'] by simp

lemma usteps_skip:
  "ucode_state_machine loops s = Inr r \<Longrightarrow> \<not> r_end r \<Longrightarrow> \<not> r_execute r \<Longrightarrow>
   usteps loops (r_next r) tr s' \<Longrightarrow> usteps loops s tr s'"
  using usteps.call [of loops s r tr s'] by simp

lemma usteps_trans:
  "usteps loops s tr t \<Longrightarrow> usteps loops t tr' u \<Longrightarrow> usteps loops s (tr @ tr') u"
  by (induction rule: usteps.induct) (auto intro: usteps_exec usteps_skip)

lemma ucode_run_usteps:
  "usteps loops s tr s' \<Longrightarrow>
   \<exists>k. \<forall>n. ucode_run loops (k + n) s =
         prepend_trace tr (ucode_run loops n s')"
proof (induction rule: usteps.induct)
  case (none s)
  show ?case by (intro exI [of _ 0]) simp
next
  case (call s r tr s')
  then obtain k where k: "\<And>n. ucode_run loops (k + n) (r_next r) = prepend_trace tr (ucode_run loops n s')"
    by blast
  have "ucode_run loops (Suc k + n) s =
      prepend_trace ((if r_execute r then [s_addr s] else []) @ tr) (ucode_run loops n s')" for n
    using call.hyps by (simp add: k)
  then show ?case by blast
qed

subsection \<open>The nested loops the machine walks\<close>

definition ops_of :: "uloop \<Rightarrow> nat list" where
  "ops_of l = [ucode_addr l ..< ucode_addr l + nb_ops l]"

text \<open>
  The \<open>n\<close> innermost loops written as nested loops: the inner nest once, then for each further
  iteration of this loop its own operations followed by the inner nest again.
\<close>

fun nest :: "uloop list \<Rightarrow> nat \<Rightarrow> nat list" where
  "nest loops 0 = []"
| "nest loops (Suc n) =
     nest loops n @ concat (replicate (nat (lrange (loops ! n) - 1)) (ops_of (loops ! n) @ nest loops n))"

definition at_loop :: "uloop list \<Rightarrow> nat \<Rightarrow> nat \<Rightarrow> int list \<Rightarrow> ustate" where
  "at_loop loops l o1 idx =
     \<lparr>s_addr = ucode_addr (loops ! l) + o1, s_loop = l, s_op = o1, s_idx = idx\<rparr>"

text \<open>The \<open>n\<close> innermost counters at their last value.\<close>

definition topped :: "uloop list \<Rightarrow> nat \<Rightarrow> int list \<Rightarrow> int list" where
  "topped loops n idx = map (\<lambda>l. max 0 (lrange l - 1)) (take n loops) @ drop n idx"

definition loops_ok :: "uloop list \<Rightarrow> bool" where
  "loops_ok loops \<longleftrightarrow> loops \<noteq> [] \<and> list_all (\<lambda>l. 1 < lrange l \<longrightarrow> 1 \<le> nb_ops l) loops"

lemma at_loop_simps [simp]:
  "s_addr (at_loop loops l o1 idx) = ucode_addr (loops ! l) + o1"
  "s_loop (at_loop loops l o1 idx) = l"
  "s_op (at_loop loops l o1 idx) = o1"
  "s_idx (at_loop loops l o1 idx) = idx"
  by (simp_all add: at_loop_def)

lemma length_topped [simp]: "n \<le> length loops \<Longrightarrow> n \<le> length idx \<Longrightarrow> length (topped loops n idx) = length idx"
  by (simp add: topped_def)

lemma topped_0 [simp]: "topped loops 0 idx = idx"
  by (simp add: topped_def)

lemma topped_nth [simp]: "n < length loops \<Longrightarrow> n < length idx \<Longrightarrow> topped loops n idx ! n = idx ! n"
  by (simp add: topped_def nth_append)

lemma topped_Suc:
  assumes "n < length loops" and "n < length idx"
  shows "topped loops (Suc n) idx = topped loops n (idx[n := max 0 (lrange (loops ! n) - 1)])"
proof -
  have "drop n (idx[n := x]) = x # drop (Suc n) idx" for x
    using assms(2) by (metis Cons_nth_drop_Suc drop_update_cancel length_list_update lessI nth_list_update_eq)
  then show ?thesis using assms(1) by (simp add: topped_def take_Suc_conv_app_nth)
qed

lemma zero_below_topped:
  assumes "n < length loops" and "n < length idx"
  shows "(zero_below n (topped loops n idx))[n := x] = zero_below n (idx[n := x])"
proof -
  have "drop n (topped loops n idx) = drop n idx" using assms by (simp add: topped_def)
  moreover have "length (topped loops n idx) = length idx" using assms by simp
  moreover have "(replicate n 0 @ drop n idx)[n := x] = replicate n 0 @ drop n (idx[n := x])"
    using assms by (simp add: list_update_append drop_update_swap)
  ultimately show ?thesis using assms by (simp add: zero_below_def)
qed

lemma topped_zero_below:
  "n \<le> length idx \<Longrightarrow> n \<le> length loops \<Longrightarrow> topped loops n (zero_below n idx) = topped loops n idx"
  by (simp add: topped_def zero_below_def)

lemma length_zero_below [simp]: "length (zero_below n xs) = length xs"
  by (simp add: zero_below_def)

lemma zero_below_0 [simp]: "zero_below 0 xs = xs"
  by (simp add: zero_below_def)

lemma zero_below_nth [simp]: "n < length xs \<Longrightarrow> zero_below n xs ! n = xs ! n"
  by (simp add: zero_below_def nth_append)

text \<open>One more iteration of loop \<open>n\<close>: its operations in order, then back to the innermost loop.\<close>

lemma usteps_ops:
  assumes "n < length loops" and "n < length idx" and "idx ! n < lrange (loops ! n) - 1"
    and "o1 < nb_ops (loops ! n)"
  shows "usteps loops (at_loop loops n o1 idx)
           [ucode_addr (loops ! n) + o1 ..< ucode_addr (loops ! n) + nb_ops (loops ! n)]
           (at_loop loops 0 0 ((zero_below n idx)[n := idx ! n + 1]))"
  using assms(4)
proof (induction "nb_ops (loops ! n) - o1" arbitrary: o1)
  case 0
  then show ?case by simp
next
  case (Suc k)
  let ?s = "at_loop loops n o1 idx"
  show ?case
  proof (cases "Suc o1 < nb_ops (loops ! n)")
    case True
    have "ucode_state_machine loops ?s = Inr \<lparr>r_execute = True, r_end = False, r_busy = True,
        r_next = at_loop loops n (Suc o1) idx, r_caller_idx = idx\<rparr>"
      using assms True by (simp add: ucode_state_machine_def Let_def at_loop_def)
    moreover have "usteps loops (at_loop loops n (Suc o1) idx)
        [ucode_addr (loops ! n) + Suc o1 ..< ucode_addr (loops ! n) + nb_ops (loops ! n)]
        (at_loop loops 0 0 ((zero_below n idx)[n := idx ! n + 1]))"
      using Suc True by (intro Suc.hyps(1)) auto
    ultimately have "usteps loops ?s (s_addr ?s # [ucode_addr (loops ! n) + Suc o1 ..<
        ucode_addr (loops ! n) + nb_ops (loops ! n)])
        (at_loop loops 0 0 ((zero_below n idx)[n := idx ! n + 1]))"
      by (intro usteps_exec) auto
    then show ?thesis using Suc.prems by (simp add: upt_conv_Cons)
  next
    case False
    then have eq: "Suc o1 = nb_ops (loops ! n)" using Suc.prems by simp
    obtain r where r: "ucode_state_machine loops ?s = Inr r" "\<not> r_end r" "r_execute r"
      "r_next r = at_loop loops 0 0 ((zero_below n idx)[n := idx ! n + 1])"
      using assms eq by (cases "n = 0") (auto simp: ucode_state_machine_def Let_def at_loop_def)
    have "usteps loops ?s [s_addr ?s] (at_loop loops 0 0 ((zero_below n idx)[n := idx ! n + 1]))"
      by (rule usteps_exec [OF r(1-3)]) (simp add: r(4) usteps.none)
    moreover have "[ucode_addr (loops ! n) + o1 ..< ucode_addr (loops ! n) + nb_ops (loops ! n)]
        = [ucode_addr (loops ! n) + o1]"
      by (simp flip: eq)
    ultimately show ?thesis by simp
  qed
qed

text \<open>A finished loop hands over to the next one.\<close>

lemma usteps_goto_next:
  assumes "Suc n < length loops" and "Suc n < NB_LOOPS" and "n < length idx"
    and "\<not> idx ! n < lrange (loops ! n) - 1"
  shows "usteps loops (at_loop loops n 0 idx) [] (at_loop loops (Suc n) 0 idx)"
proof -
  obtain r where r: "ucode_state_machine loops (at_loop loops n 0 idx) = Inr r" "\<not> r_end r" "\<not> r_execute r"
    "r_next r = at_loop loops (Suc n) 0 idx"
    using assms by (auto simp: ucode_state_machine_def Let_def at_loop_def NB_LOOPS_def)
  show ?thesis by (rule usteps_skip [OF r(1-3)]) (simp add: r(4) usteps.none)
qed

lemma loops_ok_ops:
  "loops_ok loops \<Longrightarrow> n < length loops \<Longrightarrow> 1 < lrange (loops ! n) \<Longrightarrow> 0 < nb_ops (loops ! n)"
  by (auto simp: loops_ok_def list_all_iff Suc_le_eq dest!: nth_mem)

lemma zero_below_id:
  assumes "n \<le> length idx" and "take n idx = replicate n 0"
  shows "zero_below n idx = idx"
  using assms by (metis append_take_drop_id min.absorb1 zero_below_def)

text \<open>
  With the inner nest already understood (\<open>inner\<close>), loop \<open>n\<close> repeats its own operations and the
  inner nest as often as its counter can still grow.
\<close>

lemma usteps_iterate:
  assumes inner: "\<And>idx. length idx = len \<Longrightarrow> take n idx = replicate n 0 \<Longrightarrow>
      usteps loops (at_loop loops 0 0 idx) (nest loops n) (at_loop loops n 0 (topped loops n idx))"
    and ok: "loops_ok loops" and n: "n < length loops" "n < len"
  shows "length idx = len \<Longrightarrow> 0 \<le> idx ! n \<Longrightarrow> m = nat (lrange (loops ! n) - 1 - idx ! n) \<Longrightarrow>
    usteps loops (at_loop loops n 0 (topped loops n idx))
      (concat (replicate m (ops_of (loops ! n) @ nest loops n)))
      (at_loop loops n 0 (topped loops n (idx[n := max (idx ! n) (lrange (loops ! n) - 1)])))"
proof (induction m arbitrary: idx)
  case 0
  then have "max (idx ! n) (lrange (loops ! n) - 1) = idx ! n" by simp
  then show ?case by (simp add: usteps.none)
next
  case (Suc m)
  let ?l = "loops ! n"
  let ?idx = "idx[n := idx ! n + 1]"
  have more: "topped loops n idx ! n < lrange ?l - 1" using Suc.prems n by simp
  have pos: "0 < nb_ops ?l" by (rule loops_ok_ops [OF ok n(1)]) (use more Suc.prems n in simp)
  have "usteps loops (at_loop loops n 0 (topped loops n idx)) (ops_of ?l)
          (at_loop loops 0 0 ((zero_below n (topped loops n idx))[n := topped loops n idx ! n + 1]))"
    using usteps_ops [OF n(1) _ more pos] n Suc.prems by (simp add: ops_of_def)
  moreover have "(zero_below n (topped loops n idx))[n := topped loops n idx ! n + 1] = zero_below n ?idx"
    using zero_below_topped [of n loops idx] n Suc.prems(1) by simp
  ultimately have ops: "usteps loops (at_loop loops n 0 (topped loops n idx)) (ops_of ?l)
      (at_loop loops 0 0 (zero_below n ?idx))" by simp
  have "usteps loops (at_loop loops 0 0 (zero_below n ?idx)) (nest loops n)
      (at_loop loops n 0 (topped loops n (zero_below n ?idx)))"
    using n Suc.prems(1) by (intro inner) (simp_all add: zero_below_def min_def)
  then have again: "usteps loops (at_loop loops 0 0 (zero_below n ?idx)) (nest loops n)
      (at_loop loops n 0 (topped loops n ?idx))"
    using n Suc.prems(1) by (simp add: topped_zero_below)
  have rest: "usteps loops (at_loop loops n 0 (topped loops n ?idx))
      (concat (replicate m (ops_of ?l @ nest loops n)))
      (at_loop loops n 0 (topped loops n (idx[n := max (idx ! n) (lrange ?l - 1)])))"
  proof -
    have "m = nat (lrange ?l - 1 - ?idx ! n)" using Suc.prems n by simp
    moreover have "?idx[n := max (?idx ! n) (lrange ?l - 1)] = idx[n := max (idx ! n) (lrange ?l - 1)]"
      using Suc.prems n more by simp
    ultimately show ?thesis using Suc.IH [of ?idx] Suc.prems n by simp
  qed
  from usteps_trans [OF ops usteps_trans [OF again rest]] show ?case by simp
qed

lemma usteps_level:
  assumes inner: "\<And>idx. length idx = len \<Longrightarrow> take n idx = replicate n 0 \<Longrightarrow>
      usteps loops (at_loop loops 0 0 idx) (nest loops n) (at_loop loops n 0 (topped loops n idx))"
    and ok: "loops_ok loops" and n: "n < length loops" "n < len"
    and idx: "length idx = len" "take (Suc n) idx = replicate (Suc n) 0"
  shows "usteps loops (at_loop loops 0 0 idx) (nest loops (Suc n))
           (at_loop loops n 0 (topped loops (Suc n) idx))"
proof -
  have z: "idx ! n = 0" "take n idx = replicate n 0"
  proof -
    show "idx ! n = 0" using idx n by (metis lessI nth_replicate nth_take)
    show "take n idx = replicate n 0"
      using idx n by (metis le_add2 min.absorb1 plus_1_eq_Suc take_replicate take_take)
  qed
  have "usteps loops (at_loop loops 0 0 idx) (nest loops n) (at_loop loops n 0 (topped loops n idx))"
    using idx(1) z(2) by (rule inner)
  moreover have "usteps loops (at_loop loops n 0 (topped loops n idx))
      (concat (replicate (nat (lrange (loops ! n) - 1)) (ops_of (loops ! n) @ nest loops n)))
      (at_loop loops n 0 (topped loops n (idx[n := max 0 (lrange (loops ! n) - 1)])))"
    using usteps_iterate [OF inner ok n idx(1), where m = "nat (lrange (loops ! n) - 1)"] z by simp
  ultimately show ?thesis
    using n idx(1) by (auto simp: topped_Suc intro: usteps_trans)
qed

lemma usteps_nest:
  assumes ok: "loops_ok loops" and len: "length idx = NB_LOOPS"
  shows "n < length loops \<Longrightarrow> n < NB_LOOPS \<Longrightarrow> take n idx = replicate n 0 \<Longrightarrow>
    usteps loops (at_loop loops 0 0 idx) (nest loops n) (at_loop loops n 0 (topped loops n idx))"
  using len
proof (induction n arbitrary: idx)
  case 0
  then show ?case by (simp add: usteps.none)
next
  case (Suc n)
  have level: "usteps loops (at_loop loops 0 0 idx) (nest loops (Suc n))
           (at_loop loops n 0 (topped loops (Suc n) idx))"
    by (rule usteps_level [OF Suc.IH ok]) (use Suc.prems in auto)
  have "topped loops (Suc n) idx ! n = max 0 (lrange (loops ! n) - 1)"
    using Suc.prems by (simp add: topped_Suc)
  then have "usteps loops (at_loop loops n 0 (topped loops (Suc n) idx)) []
      (at_loop loops (Suc n) 0 (topped loops (Suc n) idx))"
    using Suc.prems by (intro usteps_goto_next) auto
  from usteps_trans [OF level this] show ?case by simp
qed

text \<open>The last level: the machine has walked the whole nest and stands at the last loop.\<close>

lemma usteps_all:
  assumes ok: "loops_ok loops" and k: "Suc n = length loops \<or> Suc n = NB_LOOPS"
    and n: "n < length loops" "n < NB_LOOPS"
  shows "usteps loops (at_loop loops 0 0 (replicate NB_LOOPS 0)) (nest loops (Suc n))
           (at_loop loops n 0 (topped loops (Suc n) (replicate NB_LOOPS 0)))"
    and "\<not> topped loops (Suc n) (replicate NB_LOOPS 0) ! n < lrange (loops ! n) - 1"
proof -
  show "usteps loops (at_loop loops 0 0 (replicate NB_LOOPS 0)) (nest loops (Suc n))
           (at_loop loops n 0 (topped loops (Suc n) (replicate NB_LOOPS 0)))"
    by (rule usteps_level [OF usteps_nest [OF ok] ok n(1), where len = NB_LOOPS]) (use n in auto)
  show "\<not> topped loops (Suc n) (replicate NB_LOOPS 0) ! n < lrange (loops ! n) - 1"
    using n by (simp add: topped_Suc)
qed

definition ustate0 :: ustate where
  "ustate0 = \<lparr>s_addr = 0, s_loop = 0, s_op = 0, s_idx = replicate NB_LOOPS 0\<rparr>"

lemma ustate0_at_loop: "ucode_addr (loops ! 0) = 0 \<Longrightarrow> ustate0 = at_loop loops 0 0 (replicate NB_LOOPS 0)"
  by (simp add: ustate0_def at_loop_def)

lemma run_full_table:
  assumes ok: "loops_ok loops" and len: "length loops = NB_LOOPS" and a0: "ucode_addr (loops ! 0) = 0"
  shows "\<exists>k. \<forall>n. ucode_run loops (k + n) ustate0 = Some (Inr (nest loops NB_LOOPS, ustate0))"
proof -
  let ?t = "at_loop loops 5 0 (topped loops NB_LOOPS (replicate NB_LOOPS 0))"
  have st: "usteps loops ustate0 (nest loops NB_LOOPS) ?t"
    and stop: "\<not> topped loops NB_LOOPS (replicate NB_LOOPS 0) ! 5 < lrange (loops ! 5) - 1"
    using usteps_all [OF ok, of 5] len ustate0_at_loop [OF a0] by (simp_all add: NB_LOOPS_def)
  have "ucode_run loops (Suc n) ?t = Some (Inr ([], ustate0))" for n
    using stop len by (simp add: ucode_state_machine_def Let_def ustate0_def NB_LOOPS_def)
  moreover from ucode_run_usteps [OF st] obtain k where
    "\<And>n. ucode_run loops (k + n) ustate0 = prepend_trace (nest loops NB_LOOPS) (ucode_run loops n ?t)"
    by blast
  ultimately have "ucode_run loops (Suc k + n) ustate0 = Some (Inr (nest loops NB_LOOPS, ustate0))" for n
    by (metis add_Suc_shift append.right_neutral prepend_trace_simps(5))
  then show ?thesis by blast
qed

lemma run_short_table:
  assumes ok: "loops_ok loops" and len: "length loops < NB_LOOPS" and a0: "ucode_addr (loops ! 0) = 0"
  shows "\<exists>s. usteps loops ustate0 (nest loops (length loops)) s \<and> s_loop s = length loops - 1 \<and>
    ucode_state_machine loops s = Inl IndexError \<and>
    (\<exists>k. \<forall>n. ucode_run loops (k + n) ustate0 = Some (Inl IndexError))"
proof -
  define m where "m = length loops - 1"
  have m: "Suc m = length loops" "m < length loops" "m < NB_LOOPS"
    using ok len by (auto simp: m_def loops_ok_def)
  let ?t = "at_loop loops m 0 (topped loops (Suc m) (replicate NB_LOOPS 0))"
  have st: "usteps loops ustate0 (nest loops (Suc m)) ?t"
    and stop: "\<not> topped loops (Suc m) (replicate NB_LOOPS 0) ! m < lrange (loops ! m) - 1"
    using usteps_all [OF ok _ m(2,3)] m(1) ustate0_at_loop [OF a0] by simp_all
  have raises: "ucode_state_machine loops ?t = Inl IndexError"
    using stop m len by (simp add: ucode_state_machine_def Let_def)
  then have "ucode_run loops (Suc n) ?t = Some (Inl IndexError)" for n by simp
  moreover from ucode_run_usteps [OF st] obtain k where
    "\<And>n. ucode_run loops (k + n) ustate0 = prepend_trace (nest loops (Suc m)) (ucode_run loops n ?t)"
    by blast
  ultimately have "ucode_run loops (Suc k + n) ustate0 = Some (Inl IndexError)" for n
    by (metis add_Suc_shift prepend_trace_simps(4))
  moreover have "s_loop ?t = length loops - 1" by (simp add: at_loop_def m_def)
  moreover have "usteps loops ustate0 (nest loops (length loops)) ?t" using st unfolding m(1) .
  ultimately show ?thesis using raises by blast
qed

subsection \<open>The loop table against the code\<close>

lemma get_loops_from_simps:
  "length (get_loops_from a ps) = length ps"
  "map nb_ops (get_loops_from a ps) = map fst ps"
  "map lrange (get_loops_from a ps) = map snd ps"
  by (induction a ps rule: get_loops_from.induct) auto

lemma get_loops_from_addr:
  "i < length ps \<Longrightarrow> ucode_addr (get_loops_from a ps ! i) = a + sum_list (take i (map fst ps))"
proof (induction a ps arbitrary: i rule: get_loops_from.induct)
  case (2 a n r ps)
  then show ?case by (cases i) auto
qed simp

lemma ucode_get_loops_simps:
  assumes "length os = length rs"
  shows "length (ucode_get_loops os rs) = length os"
    and "i < length os \<Longrightarrow> nb_ops (ucode_get_loops os rs ! i) = os ! i"
    and "i < length os \<Longrightarrow> lrange (ucode_get_loops os rs ! i) = rs ! i"
    and "i < length os \<Longrightarrow> ucode_addr (ucode_get_loops os rs ! i) = sum_list (take i os)"
proof -
  note g = get_loops_from_simps [of 0 "zip os rs"]
  show len: "length (ucode_get_loops os rs) = length os"
    using assms g(1) by (simp add: ucode_get_loops_def)
  show "nb_ops (ucode_get_loops os rs ! i) = os ! i" if "i < length os"
    using arg_cong [OF g(2), of "\<lambda>xs. xs ! i"] that assms len by (simp add: ucode_get_loops_def)
  show "lrange (ucode_get_loops os rs ! i) = rs ! i" if "i < length os"
    using arg_cong [OF g(3), of "\<lambda>xs. xs ! i"] that assms len by (simp add: ucode_get_loops_def)
  show "ucode_addr (ucode_get_loops os rs ! i) = sum_list (take i os)" if "i < length os"
    using that assms by (simp add: ucode_get_loops_def get_loops_from_addr)
qed

lemma loops_ok_get_loops:
  assumes "list_all2 (\<lambda>n r. 1 < r \<longrightarrow> 1 \<le> n) os rs" and "os \<noteq> []"
  shows "loops_ok (ucode_get_loops os rs)" and "ucode_addr (ucode_get_loops os rs ! 0) = 0"
proof -
  have len: "length os = length rs" using assms(1) by (rule list_all2_lengthD)
  note g = ucode_get_loops_simps [OF len]
  show "loops_ok (ucode_get_loops os rs)"
    using assms len g by (auto simp: loops_ok_def list_all_length list_all2_conv_all_nth)
  show "ucode_addr (ucode_get_loops os rs ! 0) = 0" using g(4) [of 0] assms(2) by simp
qed

lemma set_nest: "set (nest loops n) \<subseteq> (\<Union>i<n. set (ops_of (loops ! i)))"
  by (induction n) (auto simp: lessThan_Suc split: if_splits)

lemma sum_take_le: "i < length os \<Longrightarrow> sum_list (take i os) + os ! i \<le> sum_list (os :: nat list)"
proof -
  assume "i < length os"
  then have "sum_list (take (Suc i) os) = sum_list (take i os) + os ! i"
    by (simp add: take_Suc_conv_app_nth)
  moreover have "sum_list os = sum_list (take (Suc i) os) + sum_list (drop (Suc i) os)"
    by (metis append_take_drop_id sum_list_append)
  ultimately show ?thesis by simp
qed

lemma nest_in_code:
  assumes "length os = length rs" and "n \<le> length os" and "a \<in> set (nest (ucode_get_loops os rs) n)"
  shows "a < sum_list os"
proof -
  from assms(3) set_nest obtain i where i: "i < n" "a \<in> set (ops_of (ucode_get_loops os rs ! i))"
    by blast
  with assms show ?thesis
    using sum_take_le [of i os] ucode_get_loops_simps [OF assms(1)] by (auto simp: ops_of_def)
qed

lemma py_len_iter: "py_iter v = Inr xs \<Longrightarrow> py_len v = Inr n \<Longrightarrow> n = length xs"
  by (cases v) (auto simp: od_keys_def)

lemma ucode_load_sum:
  assumes "ucode_load doc = Inr (os, code)"
  shows "sum_list os = length code"
proof -
  from assms obtain mnem code_p code_l where
    l: "ucode_load_loops code_p = Inr (code_l, os)" "res_mapM (ucode_load_op mnem) code_l = Inr code"
    by (auto simp: ucode_load_def res_iffs split: prod.splits)
  let ?f = "\<lambda>(code_l, loops_ops) l.
      res_bind (py_subscript code_p l) (\<lambda>body.
      res_bind (py_iter body) (\<lambda>cs.
      res_bind (py_len body) (\<lambda>n. Inr (code_l @ cs, loops_ops @ [n]))))"
  from l(1) obtain ls where fold: "res_foldM ?f ([], []) ls = Inr (code_l, os)"
    by (auto simp: ucode_load_loops_def res_iffs)
  have "(\<lambda>(c, o1). sum_list o1 = length c) (code_l, os)"
    by (rule res_foldM_invariant [OF fold]) (simp, force simp: res_iffs dest: py_len_iter)
  then have "sum_list os = length code_l" by simp
  with res_mapM_length [OF l(2)] show ?thesis by simp
qed

subsection \<open>Properties of the walk\<close>

text \<open>Property C19. With a full table of six loops, each that iterates having at least one
  operation, the state machine stops and has executed, in order, exactly the addresses of the
  nested \<open>for\<close> loops the microcode stands for; it is back in its start state.\<close>
theorem ucode_walks_nested_loops:
  assumes "list_all2 (\<lambda>n r. 1 < r \<longrightarrow> 1 \<le> n) loops_ops loops_range"
    and "length loops_ops = NB_LOOPS"
  shows "\<exists>k. \<forall>n. ucode_run (ucode_get_loops loops_ops loops_range) (k + n) ustate0 =
           Some (Inr (nest (ucode_get_loops loops_ops loops_range) NB_LOOPS, ustate0))"
proof -
  have ne: "loops_ops \<noteq> []" using assms(2) by (auto simp: NB_LOOPS_def)
  have "length (ucode_get_loops loops_ops loops_range) = NB_LOOPS"
    using assms ucode_get_loops_simps(1) list_all2_lengthD by metis
  with loops_ok_get_loops [OF assms(1) ne] show ?thesis by (intro run_full_table)
qed

theorem ucode_walks_nested_loops_witness:
  "(\<exists>k. \<forall>n. ucode_run (ucode_get_loops [2, 1, 0, 0, 0, 0] [2, 3, 1, 1, 1, 1]) (k + n) ustate0 =
      Some (Inr (nest (ucode_get_loops [2, 1, 0, 0, 0, 0] [2, 3, 1, 1, 1, 1]) NB_LOOPS, ustate0))) \<and>
   nest (ucode_get_loops [2, 1, 0, 0, 0, 0] [2, 3, 1, 1, 1, 1]) NB_LOOPS = [0, 1, 2, 0, 1, 2, 0, 1]"
proof -
  have "nest (ucode_get_loops [2, 1, 0, 0, 0, 0] [2, 3, 1, 1, 1, 1]) NB_LOOPS = [0, 1, 2, 0, 1, 2, 0, 1]"
    by code_simp
  moreover have "list_all2 (\<lambda>n r. 1 < r \<longrightarrow> 1 \<le> n) [2, 1, 0, 0, 0, 0 :: nat] [2, 3, 1, 1, 1, 1 :: int]"
    by simp
  ultimately show ?thesis
    using ucode_walks_nested_loops [of "[2, 1, 0, 0, 0, 0]" "[2, 3, 1, 1, 1, 1]"]
    by (simp add: NB_LOOPS_def)
qed

text \<open>Property C37. With fewer than six loops in the table, as \<open>ucode_get_loops\<close> builds it from the
  one loop of \<open>code.yml\<close>, and an operation at least in every loop that iterates, the walk does not
  end: it executes the operations of the nested loops of the table in their order, all of them, and the
  next call, in the last loop, raises \<open>IndexError\<close>.\<close>
theorem ucode_short_table_raises:
  assumes "list_all2 (\<lambda>n r. 1 < r \<longrightarrow> 1 \<le> n) loops_ops loops_range"
    and "loops_ops \<noteq> []" and "length loops_ops < NB_LOOPS"
  shows "\<exists>s. usteps (ucode_get_loops loops_ops loops_range) ustate0
      (nest (ucode_get_loops loops_ops loops_range) (length loops_ops)) s \<and>
    s_loop s = length loops_ops - 1 \<and>
    ucode_state_machine (ucode_get_loops loops_ops loops_range) s = Inl IndexError \<and>
    (\<exists>k. \<forall>n. ucode_run (ucode_get_loops loops_ops loops_range) (k + n) ustate0 = Some (Inl IndexError))"
proof -
  have len: "length (ucode_get_loops loops_ops loops_range) = length loops_ops"
    using assms(1) ucode_get_loops_simps(1) list_all2_lengthD by metis
  then have "length (ucode_get_loops loops_ops loops_range) < NB_LOOPS"
    using assms(3) by simp
  from run_short_table [OF loops_ok_get_loops(1) [OF assms(1,2)] this loops_ok_get_loops(2) [OF assms(1,2)]]
  show ?thesis by (simp only: len)
qed

theorem ucode_short_table_raises_witness:
  "(\<exists>s. usteps (ucode_get_loops [4] [3]) ustate0 [0, 1, 2, 3, 0, 1, 2, 3] s \<and>
     ucode_state_machine (ucode_get_loops [4] [3]) s = Inl IndexError) \<and>
   (\<exists>k. \<forall>n. ucode_run (ucode_get_loops [4] [3]) (k + n) ustate0 = Some (Inl IndexError))"
proof -
  have "nest (ucode_get_loops [4] [3]) (length [4 :: nat]) = [0, 1, 2, 3, 0, 1, 2, 3]" by code_simp
  with ucode_short_table_raises [of "[4]" "[3]"] show ?thesis by (auto simp: NB_LOOPS_def)
qed

text \<open>Loader and loop table agree: every address the walk executes for a loaded
  program, with any ranges, is the address of an operation of its code.\<close>
theorem ucode_addresses_in_code:
  assumes "ucode_load doc = Inr (loops_ops, code)" and "length loops_range = length loops_ops"
    and "n \<le> length loops_ops"
    and "a \<in> set (nest (ucode_get_loops loops_ops loops_range) n)"
  shows "a < length code"
  using nest_in_code [of loops_ops loops_range n a] ucode_load_sum [OF assms(1)] assms by simp

text \<open>The shipped \<open>code.yml\<close>, as the YAML loader returns it.\<close>

definition code_yml :: pyval where
  "code_yml = PDict
     [(''mnemonics'', PDict [(''a'', PInt 0), (''b'', PInt 1), (''c'', PInt 2), (''d'', PInt 3),
                            (''nb_iter'', PInt 4), (''iter_stride'', PInt 5), (''one_stride'', PInt 6)]),
      (''code'', PDict [(''loop0'', PList
        [PDict [(''op'', PStr ''add''), (''a'', PStr ''a''), (''b'', PStr ''iter_stride'')],
         PDict [(''op'', PStr ''add''), (''a'', PStr ''b''), (''b'', PStr ''iter_stride'')],
         PDict [(''op'', PStr ''add''), (''a'', PStr ''c''), (''b'', PStr ''one_stride'')],
         PDict [(''op'', PStr ''add''), (''a'', PStr ''d''), (''b'', PStr ''one_stride'')]])])]"

definition shipped_code :: "uop list" where
  "shipped_code =
     [\<lparr>op_sel = True, u_a = PInt 0, u_b = PInt 5\<rparr>, \<lparr>op_sel = True, u_a = PInt 1, u_b = PInt 5\<rparr>,
      \<lparr>op_sel = True, u_a = PInt 2, u_b = PInt 6\<rparr>, \<lparr>op_sel = True, u_a = PInt 3, u_b = PInt 6\<rparr>]"

lemma ucode_load_shipped: "ucode_load code_yml = Inr ([4], shipped_code)"
  by (simp add: ucode_load_def code_yml_def ucode_load_loops_def ucode_load_op_def mnemonic_def
      od_get_def shipped_code_def)

theorem ucode_addresses_in_code_witness:
  "3 \<in> set (nest (ucode_get_loops [4] [2]) 1) \<and> 3 < length shipped_code"
proof -
  have "3 \<in> set (nest (ucode_get_loops [4] [2]) 1)" by code_simp
  then show ?thesis using ucode_addresses_in_code [OF ucode_load_shipped, of "[2]" 1 3] by simp
qed

text \<open>The register file after a walk: one \<open>ucode_execute\<close> per executed address.\<close>

definition exec_trace :: "uop list \<Rightarrow> int list \<Rightarrow> nat list \<Rightarrow> int list res" where
  "exec_trace code regs tr =
     res_foldM (\<lambda>regs a. ucode_execute (ustate0\<lparr>s_addr := a\<rparr>) code regs) regs tr"

lemma exec_trace_append:
  "exec_trace code regs (tr @ tr') = res_bind (exec_trace code regs tr) (\<lambda>regs'. exec_trace code regs' tr')"
  by (simp add: exec_trace_def res_foldM_append)

lemma shipped_pass:
  "exec_trace shipped_code (a # b # c # d # n # si # so # rest) [0, 1, 2, 3] =
     Inr ((a + si) # (b + si) # (c + so) # (d + so) # n # si # so # rest)"
  by (simp add: exec_trace_def ucode_execute_def shipped_code_def ustate0_def py_index_def Let_def
      numeral_2_eq_2 numeral_3_eq_3 numeral_eq_Suc)

lemma shipped_passes:
  "exec_trace shipped_code (a # b # c # d # n # si # so # rest) (concat (replicate m [0, 1, 2, 3])) =
     Inr ((a + int m * si) # (b + int m * si) # (c + int m * so) # (d + int m * so) # n # si # so # rest)"
proof (induction m arbitrary: a b c d)
  case 0
  then show ?case by (simp add: exec_trace_def)
next
  case (Suc m)
  then show ?case by (simp only: replicate.simps concat.simps exec_trace_append shipped_pass res_bind_simps)
      (simp add: algebra_simps)
qed

lemma shipped_nest:
  "nest (ucode_get_loops [4, 0, 0, 0, 0, 0] [r, 1, 1, 1, 1, 1]) NB_LOOPS =
     concat (replicate (nat (r - 1)) [0, 1, 2, 3])"
  by (simp add: NB_LOOPS_def numeral_eq_Suc ucode_get_loops_def ops_of_def upt_rec)

text \<open>Property C32. The shipped microcode, padded to the six hardware loops and run for \<open>r\<close>
  iterations, advances the four stream offsets by \<open>r - 1\<close> strides each and leaves every other
  register as it was.\<close>
theorem ucode_shipped_program:
  assumes "1 \<le> r"
  shows "ucode_load code_yml = Inr ([4], shipped_code) \<and>
    (\<exists>k tr. (\<forall>n. ucode_run (ucode_get_loops ([4] @ replicate 5 0) (r # replicate 5 1)) (k + n) ustate0 =
        Some (Inr (tr, ustate0))) \<and>
      exec_trace shipped_code ([a, b, c, d, nb, si, so] @ rest) tr =
        Inr ([a + (r - 1) * si, b + (r - 1) * si, c + (r - 1) * so, d + (r - 1) * so, nb, si, so] @ rest))"
proof -
  have pad: "[4] @ replicate 5 0 = [4, 0, 0, 0, 0, 0 :: nat]" "r # replicate 5 1 = [r, 1, 1, 1, 1, 1]"
    by (simp_all add: numeral_eq_Suc)
  have "\<exists>k. \<forall>n. ucode_run (ucode_get_loops [4, 0, 0, 0, 0, 0] [r, 1, 1, 1, 1, 1]) (k + n) ustate0 =
      Some (Inr (nest (ucode_get_loops [4, 0, 0, 0, 0, 0] [r, 1, 1, 1, 1, 1]) NB_LOOPS, ustate0))"
  proof -
    have "length (ucode_get_loops [4, 0, 0, 0, 0, 0] [r, 1, 1, 1, 1, 1]) = NB_LOOPS"
      by (simp add: ucode_get_loops_def NB_LOOPS_def)
    moreover note loops_ok_get_loops [of "[4, 0, 0, 0, 0, 0]" "[r, 1, 1, 1, 1, 1]"]
    ultimately show ?thesis by (intro run_full_table) simp_all
  qed
  then obtain k where "\<forall>n. ucode_run (ucode_get_loops [4, 0, 0, 0, 0, 0] [r, 1, 1, 1, 1, 1]) (k + n) ustate0 =
      Some (Inr (concat (replicate (nat (r - 1)) [0, 1, 2, 3]), ustate0))"
    unfolding shipped_nest by blast
  moreover have "exec_trace shipped_code ([a, b, c, d, nb, si, so] @ rest) (concat (replicate (nat (r - 1)) [0, 1, 2, 3])) =
        Inr ([a + (r - 1) * si, b + (r - 1) * si, c + (r - 1) * so, d + (r - 1) * so, nb, si, so] @ rest)"
    using assms shipped_passes [of a b c d nb si so rest "nat (r - 1)"] by simp
  ultimately show ?thesis unfolding pad using ucode_load_shipped by blast
qed

theorem ucode_shipped_program_witness:
  "\<exists>k tr. (\<forall>n. ucode_run (ucode_get_loops ([4] @ replicate 5 0) (3 # replicate 5 1)) (k + n) ustate0 =
        Some (Inr (tr, ustate0))) \<and>
      exec_trace shipped_code ([10, 20, 30, 40, 3, 8, 4] @ [7]) tr =
        Inr ([26, 36, 38, 48, 3, 8, 4] @ [7])"
  using ucode_shipped_program [of 3 10 20 30 40 3 8 4 "[7]"] by simp

text \<open>The machine writes through the caller's index list: after any call that does not
  end the walk, the list inside the caller's own state is the list of the next state; only the
  call that ends it leaves the caller's list alone and starts a new one.\<close>
theorem ucode_clobbers_caller_state:
  assumes "ucode_state_machine loops s = Inr r"
  shows "if r_end r then r_caller_idx r = s_idx s \<and> s_idx (r_next r) = replicate NB_LOOPS 0
         else r_caller_idx r = s_idx (r_next r)"
  using assms by (auto simp: ucode_state_machine_def Let_def split: if_splits)

theorem ucode_clobbers_caller_state_witness:
  "\<exists>r. ucode_state_machine [\<lparr>nb_ops = 1, lrange = 4, ucode_addr = 0\<rparr>] (ustate0\<lparr>s_idx := [1]\<rparr>) = Inr r \<and>
     r_caller_idx r = [2] \<and> r_caller_idx r = s_idx (r_next r)"
proof -
  obtain r where r: "ucode_state_machine [\<lparr>nb_ops = 1, lrange = 4, ucode_addr = 0\<rparr>] (ustate0\<lparr>s_idx := [1]\<rparr>) = Inr r"
    "r_caller_idx r = [2]" "\<not> r_end r"
    by (simp add: ucode_state_machine_def ustate0_def Let_def)
  with ucode_clobbers_caller_state [OF r(1)] show ?thesis by auto
qed

subsection \<open>The bit vectors\<close>

text \<open>
  The documented behaviour of \<open>BitArray\<close> the packing relies on, over the bits \<open>val b\<close> of a value,
  most significant first; \<open>bool_bitarray\<close> is one class that has it.
\<close>

fun bits_of :: "nat \<Rightarrow> nat \<Rightarrow> bool list" where
  "bits_of 0 v = []"
| "bits_of (Suc n) v = bits_of n (v div 2) @ [odd v]"

definition bits_value :: "bool list \<Rightarrow> nat" where
  "bits_value bs = foldl (\<lambda>a b. 2 * a + of_bool b) 0 bs"

definition bitarray_ok :: "'b bitarray \<Rightarrow> ('b \<Rightarrow> bool list) \<Rightarrow> bool" where
  "bitarray_ok B val \<longleftrightarrow>
     val (ba_empty B) = [] \<and>
     (\<forall>i n. 0 < n \<longrightarrow> 0 \<le> i \<and> i < 2 ^ n \<longrightarrow>
        (\<exists>b. ba_uint B (PInt i) n = Inr b \<and> val b = bits_of n (nat i))) \<and>
     (\<forall>i n. \<not> (0 \<le> i \<and> i < 2 ^ n) \<longrightarrow> (\<exists>e. ba_uint B (PInt i) n = Inl e)) \<and>
     (\<forall>a b. val (ba_append B a b) = val a @ val b) \<and>
     (\<forall>a b. val (ba_prepend B a b) = val b @ val a) \<and>
     (\<forall>b. ba_length B b = length (val b))"

definition bool_bitarray :: "bool list bitarray" where
  "bool_bitarray =
     \<lparr>ba_empty = [],
      ba_uint = (\<lambda>v n. case v of
          PInt i \<Rightarrow> if 0 < n \<and> 0 \<le> i \<and> i < 2 ^ n then Inr (bits_of n (nat i)) else Inl ValueError
        | _ \<Rightarrow> Inl TypeError),
      ba_append = (\<lambda>a b. a @ b), ba_prepend = (\<lambda>a b. b @ a), ba_length = length\<rparr>"

lemma bool_bitarray_ok: "bitarray_ok bool_bitarray (\<lambda>b. b)"
  by (auto simp: bitarray_ok_def bool_bitarray_def)

lemma length_bits_of [simp]: "length (bits_of n v) = n"
  by (induction n arbitrary: v) auto

lemma bits_value_snoc: "bits_value (bs @ [b]) = 2 * bits_value bs + of_bool b"
  by (simp add: bits_value_def)

lemma bits_value_of: "v < 2 ^ n \<Longrightarrow> bits_value (bits_of n v) = v"
proof (induction n arbitrary: v)
  case 0
  then show ?case by (simp add: bits_value_def)
next
  case (Suc n)
  then have "v div 2 < 2 ^ n" by auto
  with Suc.IH show ?case by (simp add: bits_value_snoc)
qed

lemma bits_of_0: "bits_of n 0 = replicate n False"
  by (induction n) (simp_all add: replicate_append_same [symmetric])

lemma ba_uint_ok:
  "bitarray_ok B val \<Longrightarrow> 0 < n \<Longrightarrow> 0 \<le> i \<Longrightarrow> i < 2 ^ n \<Longrightarrow>
   \<exists>b. ba_uint B (PInt i) n = Inr b \<and> val b = bits_of n (nat i)"
  by (simp add: bitarray_ok_def)

lemma ba_simps:
  assumes "bitarray_ok B val"
  shows "val (ba_empty B) = []" "val (ba_append B a b) = val a @ val b"
    "val (ba_prepend B a b) = val b @ val a" "ba_length B b = length (val b)"
  using assms by (simp_all add: bitarray_ok_def)

text \<open>A loop that appends fixed fields builds their concatenation.\<close>

lemma foldM_append_bits:
  assumes "bitarray_ok B val" and "\<And>x. x \<in> set xs \<Longrightarrow> \<exists>b. f x = Inr b \<and> val b = g x"
  shows "\<exists>b. res_foldM (\<lambda>acc x. res_map (ba_append B acc) (f x)) acc xs = Inr b \<and>
            val b = val acc @ concat (map g xs)"
  using assms(2)
proof (induction xs arbitrary: acc)
  case Nil
  then show ?case by simp
next
  case (Cons x xs)
  from Cons.prems obtain b where b: "f x = Inr b" "val b = g x" by force
  with Cons.IH [of "ba_append B acc b"] Cons.prems show ?case
    by (auto simp: ba_simps [OF assms(1)])
qed

text \<open>Field \<open>i\<close> of a vector of \<open>w\<close>-bit fields, counted from the least significant end.\<close>

definition field_at :: "nat \<Rightarrow> nat \<Rightarrow> bool list \<Rightarrow> bool list" where
  "field_at w i bs = take w (drop (length bs - w * Suc i) bs)"

lemma length_concat_const: "\<forall>x\<in>set xs. length (f x) = w \<Longrightarrow> length (concat (map f xs)) = w * length xs"
  by (induction xs) auto

lemma field_at_concat:
  assumes w: "\<forall>x\<in>set xs. length (f x) = w" and i: "i < length xs"
  shows "field_at w i (pre @ concat (map f (rev xs))) = f (xs ! i)"
proof -
  obtain us vs where xs: "xs = us @ xs ! i # vs" "length us = i"
    using i id_take_nth_drop [of i xs] by (metis length_take min.absorb4)
  let ?hi = "pre @ concat (map f (rev vs))" and ?lo = "concat (map f (rev us))"
  have "concat (map f (rev xs)) = concat (map f (rev vs)) @ f (xs ! i) @ ?lo"
    by (subst xs(1)) simp
  then have eq: "pre @ concat (map f (rev xs)) = ?hi @ f (xs ! i) @ ?lo" by simp
  have "\<forall>x\<in>set (rev us). length (f x) = w" by (metis Un_iff set_append set_rev w xs(1))
  then have lo: "length ?lo = w * i" using length_concat_const [of "rev us" f w] xs(2) by simp
  have fi: "length (f (xs ! i)) = w" using w i by simp
  show ?thesis unfolding field_at_def eq using lo fi by simp
qed

subsection \<open>Packing and unpacking the code\<close>

definition uop_ok :: "uop \<Rightarrow> bool" where
  "uop_ok c = (case (u_a c, u_b c) of
      (PInt a, PInt b) \<Rightarrow> 0 \<le> a \<and> a < 32 \<and> 0 \<le> b \<and> b < 32 | _ \<Rightarrow> False)"

definition op_bits :: "uop \<Rightarrow> bool list" where
  "op_bits c = (case (u_a c, u_b c) of
      (PInt a, PInt b) \<Rightarrow> [op_sel c] @ bits_of 5 (nat a) @ bits_of 5 (nat b) | _ \<Rightarrow> [])"

definition unpack_op :: "bool list \<Rightarrow> uop" where
  "unpack_op bs = \<lparr>op_sel = bs ! 0, u_a = PInt (int (bits_value (take 5 (drop 1 bs)))),
                   u_b = PInt (int (bits_value (drop 6 bs)))\<rparr>"

definition unpack_code :: "nat \<Rightarrow> bool list \<Rightarrow> uop list" where
  "unpack_code n bs = map (\<lambda>i. unpack_op (field_at 11 i bs)) [0..<n]"

lemma uop_okE:
  assumes "uop_ok c"
  obtains a b where "u_a c = PInt a" "u_b c = PInt b" "0 \<le> a" "a < 32" "0 \<le> b" "b < 32"
  using assms by (auto simp: uop_ok_def split: pyval.splits prod.splits)

lemma pack_op_ok:
  assumes B: "bitarray_ok B val" and ok: "uop_ok c"
  shows "\<exists>b. pack_op B c = Inr b \<and> val b = op_bits c"
proof -
  obtain a b where ab: "u_a c = PInt a" "u_b c = PInt b" "0 \<le> a" "a < 32" "0 \<le> b" "b < 32"
    using ok by (rule uop_okE)
  obtain x where x: "ba_uint B (PInt (if op_sel c then 1 else 0)) 1 = Inr x"
    "val x = bits_of 1 (nat (if op_sel c then 1 else 0))"
    using ba_uint_ok [OF B, of 1 "if op_sel c then 1 else 0"] by (cases "op_sel c") auto
  obtain y where y: "ba_uint B (PInt a) 5 = Inr y" "val y = bits_of 5 (nat a)"
    using ba_uint_ok [OF B, of 5 a] ab by auto
  obtain z where z: "ba_uint B (PInt b) 5 = Inr z" "val z = bits_of 5 (nat b)"
    using ba_uint_ok [OF B, of 5 b] ab by auto
  show ?thesis
    using x y z ab by (auto simp: pack_op_def op_bits_def ba_simps [OF B])
qed

lemma unpack_op_bits:
  assumes "uop_ok c"
  shows "length (op_bits c) = 11" and "unpack_op (op_bits c) = c"
proof -
  obtain a b where ab: "u_a c = PInt a" "u_b c = PInt b" "0 \<le> a" "a < 32" "0 \<le> b" "b < 32"
    using assms by (rule uop_okE)
  show "length (op_bits c) = 11" using ab by (simp add: op_bits_def)
  have "bits_value (bits_of 5 (nat a)) = nat a" "bits_value (bits_of 5 (nat b)) = nat b"
    using ab by (auto intro!: bits_value_of)
  then show "unpack_op (op_bits c) = c"
    using ab by (simp add: op_bits_def unpack_op_def)
qed

lemma pack_code_bits:
  assumes B: "bitarray_ok B val" and ok: "list_all uop_ok code"
  shows "\<exists>b. pack_code B code = Inr b \<and>
           val b = replicate (176 - 11 * length code) False @ concat (map op_bits (rev code))"
proof -
  obtain b where b: "res_foldM (\<lambda>acc c. res_map (ba_append B acc) (pack_op B c)) (ba_empty B) (rev code) = Inr b"
    "val b = concat (map op_bits (rev code))"
    using foldM_append_bits [OF B, of "rev code" "pack_op B" op_bits "ba_empty B"] pack_op_ok [OF B] ok
    by (auto simp: list_all_iff ba_simps [OF B])
  have len: "length (val b) = 11 * length code"
    using b(2) length_concat_const [of "rev code" op_bits 11] ok unpack_op_bits(1)
    by (simp add: list_all_iff)
  show ?thesis
  proof (cases "11 * length code < 176")
    case True
    then obtain z where "ba_uint B (PInt 0) (176 - 11 * length code) = Inr z"
      "val z = bits_of (176 - 11 * length code) 0"
      using ba_uint_ok [OF B, of "176 - 11 * length code" 0] by auto
    then show ?thesis
      using True b len by (simp add: pack_code_def ba_simps [OF B] bits_of_0)
  next
    case False
    then show ?thesis using b len by (simp add: pack_code_def ba_simps [OF B])
  qed
qed

text \<open>Property C31. Packing loses nothing: whatever \<open>BitArray\<close> does as documented, a code whose
  register numbers fit in five bits is packed without an exception into 176 bits, or more only
  beyond sixteen operations, and the 11-bit fields read back from the low end are the code.\<close>
theorem ucode_bytecode_roundtrip:
  assumes "bitarray_ok B val" and "list_all uop_ok code"
  shows "\<exists>b. pack_code B code = Inr b \<and> length (val b) = max 176 (11 * length code) \<and>
           unpack_code (length code) (val b) = code"
proof -
  obtain b where b: "pack_code B code = Inr b"
    "val b = replicate (176 - 11 * length code) False @ concat (map op_bits (rev code))"
    using pack_code_bits [OF assms] by blast
  have w: "\<forall>c\<in>set code. length (op_bits c) = 11"
    using assms(2) unpack_op_bits(1) by (simp add: list_all_iff)
  then have "length (concat (map op_bits (rev code))) = 11 * length code"
    using length_concat_const [of "rev code" op_bits 11] by simp
  moreover have "unpack_op (field_at 11 i (val b)) = code ! i" if "i < length code" for i
    using field_at_concat [OF w that] b(2) unpack_op_bits(2) assms(2) that by (simp add: list_all_length)
  then have "unpack_code (length code) (val b) = map (\<lambda>i. code ! i) [0..<length code]"
    by (simp add: unpack_code_def)
  ultimately show ?thesis using b by (simp add: map_nth max_def)
qed

theorem ucode_bytecode_roundtrip_witness:
  "\<exists>b. pack_code bool_bitarray shipped_code = Inr b \<and> length b = 176 \<and> unpack_code 4 b = shipped_code"
  using ucode_bytecode_roundtrip [OF bool_bitarray_ok, of shipped_code]
  by (simp add: shipped_code_def uop_ok_def eval_nat_numeral)

end
