(* ===== verification/Ucode_Compile.thy ===== *)
theory Ucode_Compile imports Ucode begin

section \<open>Compiling the microcode\<close>

text \<open>
  The rest of \<open>ucode_bytecode\<close>, the packing of the loop table, and the program around it,
  \<open>ips/hwpe-mac-engine/ucode/ucode_compile.py\<close>, which prints the two bit vectors.  The engine can be
  built with the microcode as a constant (\<open>rtl/mac_ctrl.sv\<close>, which says that it is equivalent to
  \<open>code.yml\<close>): the compiler gives that constant.  The property \<open>hex\<close> of a \<open>BitArray\<close> is a parameter
  like the rest of that class.
\<close>

subsection \<open>The program\<close>

definition ucode_compile :: "'b bitarray \<Rightarrow> ('b \<Rightarrow> string res) \<Rightarrow> pyval \<Rightarrow> string list res" where
  "ucode_compile B hex doc =
     res_bind (ucode_load doc) (\<lambda>(loops_ops, code).
     res_bind (ucode_bytecode B code loops_ops) (\<lambda>(c, l).
     res_bind (hex c) (\<lambda>c_hex. res_bind (hex l) (\<lambda>l_hex.
       Inr [''ucode bytecode: '' @ nat_str (ba_length B c) @ [CHR 0x27] @ ''h'' @ c_hex,
            ''ucode loops:    '' @ nat_str (ba_length B l) @ [CHR 0x27] @ ''h'' @ l_hex]))))"

definition ucode_flat :: nat where
  "ucode_flat = 0x0000000000040000000000000000000000000000000008cd11a12c05"

subsection \<open>The loop table\<close>

definition loop_bits :: "nat \<times> nat \<Rightarrow> bool list" where
  "loop_bits = (\<lambda>(n, a). bits_of 5 a @ bits_of 3 n)"

definition loop_fits :: "nat \<times> nat \<Rightarrow> bool" where
  "loop_fits = (\<lambda>(n, a). n < 8 \<and> a < 32)"

abbreviation table :: "nat list \<Rightarrow> (nat \<times> nat) list" where
  "table loops_ops \<equiv> zip loops_ops (loops_addr_from 0 loops_ops)"

lemma length_loops_addr [simp]: "length (loops_addr_from a os) = length os"
  by (induction a os rule: loops_addr_from.induct) simp_all

lemma loops_addr_nth: "i < length os \<Longrightarrow> loops_addr_from a os ! i = a + sum_list (take i os)"
proof (induction a os arbitrary: i rule: loops_addr_from.induct)
  case (2 a o1 os)
  then show ?case by (cases i) auto
qed simp

lemma ba_uint_bad:
  "bitarray_ok B val \<Longrightarrow> \<not> i < 2 ^ n \<Longrightarrow> \<exists>e. ba_uint B (PInt i) n = Inl e"
  unfolding bitarray_ok_def by blast

lemma pack_loop_ok:
  assumes B: "bitarray_ok B val" and "loop_fits (n, a)"
  shows "\<exists>x y. ba_uint B (PInt (int a)) 5 = Inr x \<and> ba_uint B (PInt (int n)) 3 = Inr y \<and>
           val x @ val y = loop_bits (n, a)"
  using assms(2) ba_uint_ok [OF B, of 5 "int a"] ba_uint_ok [OF B, of 3 "int n"]
  by (auto simp: loop_fits_def loop_bits_def)

lemma pack_loops_fold:
  assumes B: "bitarray_ok B val"
    and f: "\<And>acc n a. f acc (n, a) =
          res_bind (ba_uint B (PInt (int a)) 5) (\<lambda>a_b.
          res_bind (ba_uint B (PInt (int n)) 3) (\<lambda>o_b.
            Inr (ba_append B (ba_append B acc a_b) o_b)))"
  shows "if list_all loop_fits ps then
      \<exists>b. res_foldM f acc ps = Inr b \<and> val b = val acc @ concat (map loop_bits ps)
    else \<exists>e. res_foldM f acc ps = Inl e"
proof (induction ps arbitrary: acc)
  case (Cons p ps)
  obtain n a where p: "p = (n, a)" by force
  show ?case
  proof (cases "loop_fits (n, a)")
    case True
    then obtain x y where xy: "ba_uint B (PInt (int a)) 5 = Inr x" "ba_uint B (PInt (int n)) 3 = Inr y"
      "val x @ val y = loop_bits (n, a)" using pack_loop_ok [OF B] by blast
    let ?acc = "ba_append B (ba_append B acc x) y"
    have "res_foldM f acc (p # ps) = res_foldM f ?acc ps" using xy by (simp add: p f)
    moreover have "val ?acc @ concat (map loop_bits ps) = val acc @ concat (map loop_bits (p # ps))"
      using xy by (simp add: p ba_simps [OF B])
    moreover have "list_all loop_fits (p # ps) = list_all loop_fits ps" using True by (simp add: p)
    ultimately show ?thesis using Cons.IH [of ?acc] by (simp only:)
  next
    case False
    have "(\<exists>e. ba_uint B (PInt (int a)) 5 = Inl e) \<or>
        (\<exists>x e. ba_uint B (PInt (int a)) 5 = Inr x \<and> ba_uint B (PInt (int n)) 3 = Inl e)"
    proof (cases "ba_uint B (PInt (int a)) 5")
      case (Inr x)
      then have "int a < 2 ^ 5" using ba_uint_bad [OF B, of "int a" 5] by fastforce
      with False have "\<not> int n < 2 ^ 3" by (simp add: loop_fits_def)
      then show ?thesis using ba_uint_bad [OF B, of "int n" 3] Inr by blast
    qed simp
    then show ?thesis using False by (auto simp: p f)
  qed
qed simp

text \<open>Property C24. The loop table is packed exactly when every loop has at most seven operations and
  starts below address 32: then loop \<open>i\<close> is the \<open>i\<close>-th byte from the low end, its start address, the
  number of operations in the loops before it, in five bits and its own number in three.  A larger
  loop is an exception, not a truncated field.\<close>
theorem loop_table_packed:
  assumes "bitarray_ok B val"
  shows "if list_all loop_fits (table loops_ops) then
      \<exists>b. pack_loops B loops_ops = Inr b \<and> length (val b) = 8 * length loops_ops \<and>
        (\<forall>i<length loops_ops. field_at 8 i (val b) =
           bits_of 5 (sum_list (take i loops_ops)) @ bits_of 3 (loops_ops ! i))
    else \<exists>e. pack_loops B loops_ops = Inl e"
proof -
  let ?ps = "table loops_ops"
  have rev: "zip (rev loops_ops) (rev (loops_addr_from 0 loops_ops)) = rev ?ps" by (simp add: zip_rev)
  let ?f = "\<lambda>acc (o1, a).
      res_bind (ba_uint B (PInt (int a)) 5) (\<lambda>a_b.
      res_bind (ba_uint B (PInt (int o1)) 3) (\<lambda>o_b.
        Inr (ba_append B (ba_append B acc a_b) o_b)))"
  have f: "?f acc (n, a) = res_bind (ba_uint B (PInt (int a)) 5) (\<lambda>a_b.
      res_bind (ba_uint B (PInt (int n)) 3) (\<lambda>o_b.
        Inr (ba_append B (ba_append B acc a_b) o_b)))" for acc n a by simp
  have fold: "if list_all loop_fits ?ps then
      \<exists>b. pack_loops B loops_ops = Inr b \<and> val b = concat (map loop_bits (rev ?ps))
    else \<exists>e. pack_loops B loops_ops = Inl e"
    unfolding pack_loops_def rev
    using pack_loops_fold [where f = ?f and ps = "rev ?ps" and acc = "ba_empty B", OF assms f]
    by (simp only: ba_simps [OF assms] list_all_rev append_Nil)
  show ?thesis
  proof (cases "list_all loop_fits ?ps")
    case True
    with fold obtain b where b: "pack_loops B loops_ops = Inr b" "val b = concat (map loop_bits (rev ?ps))" by metis
    have w: "\<forall>p\<in>set ?ps. length (loop_bits p) = 8" by (auto simp: loop_bits_def)
    then have "length (val b) = 8 * length loops_ops"
      using length_concat_const [of "rev ?ps" loop_bits 8] b(2) by simp
    moreover have "field_at 8 i (val b) = bits_of 5 (sum_list (take i loops_ops)) @ bits_of 3 (loops_ops ! i)"
      if i: "i < length loops_ops" for i
    proof -
      have "field_at 8 i (val b) = loop_bits (?ps ! i)" using field_at_concat [OF w, of i "[]"] b(2) i by simp
      then show ?thesis using i by (simp add: loop_bits_def loops_addr_nth)
    qed
    ultimately show ?thesis using True b(1) by auto
  next
    case False
    with fold show ?thesis by simp
  qed
qed

theorem loop_table_packed_witness:
  "(\<exists>b. pack_loops bool_bitarray [4, 3] = Inr b \<and> length b = 16 \<and> field_at 8 1 b = bits_of 5 4 @ bits_of 3 3) \<and>
   (\<exists>e. pack_loops bool_bitarray [8] = Inl e)"
proof
  show "\<exists>b. pack_loops bool_bitarray [4, 3] = Inr b \<and> length b = 16 \<and> field_at 8 1 b = bits_of 5 4 @ bits_of 3 3"
    using loop_table_packed [OF bool_bitarray_ok, of "[4, 3]"] by (auto simp: loop_fits_def)
  show "\<exists>e. pack_loops bool_bitarray [8] = Inl e"
    using loop_table_packed [OF bool_bitarray_ok, of "[8]"] by (simp add: loop_fits_def)
qed

subsection \<open>The hardwired microcode\<close>

text \<open>
  The documented \<open>hex\<close>: one lower-case digit for every four bits, for the vectors whose length is
  a multiple of four.
\<close>

fun hex_digits :: "bool list \<Rightarrow> string" where
  "hex_digits (a # b # c # d # bs) =
     ''0123456789abcdef'' ! (8 * of_bool a + 4 * of_bool b + 2 * of_bool c + of_bool d) # hex_digits bs"
| "hex_digits _ = []"

definition hex_ok :: "('b \<Rightarrow> bool list) \<Rightarrow> ('b \<Rightarrow> string res) \<Rightarrow> bool" where
  "hex_ok val hex \<longleftrightarrow> (\<forall>b. 4 dvd length (val b) \<longrightarrow> hex b = Inr (hex_digits (val b)))"

definition shipped_bits :: "bool list" where
  "shipped_bits = replicate (176 - 11 * length shipped_code) False @ concat (map op_bits (rev shipped_code))"

text \<open>The 44 bits of the four operations, from the last one down.\<close>

lemma shipped_op_bits:
  "concat (map op_bits (rev shipped_code)) =
     [True] @ bits_of 5 3 @ bits_of 5 6 @ [True] @ bits_of 5 2 @ bits_of 5 6 @
     [True] @ bits_of 5 1 @ bits_of 5 5 @ [True] @ bits_of 5 0 @ bits_of 5 5"
  by (simp add: shipped_code_def op_bits_def)

lemma shipped_bits_eq: "shipped_bits = replicate 132 False @ concat (map op_bits (rev shipped_code))"
  by (simp add: shipped_bits_def shipped_code_def)

lemma hex_digits_zeros: "hex_digits (replicate (4 * n) False @ bs) = replicate n CHR ''0'' @ hex_digits bs"
  by (induction n) (simp_all add: numeral_eq_Suc)

lemma bits_value_zeros: "bits_value (replicate n False @ bs) = bits_value bs"
  by (induction n) (simp_all add: bits_value_def)

lemma bits_5 [simp]:
  "bits_of 5 0 = [False, False, False, False, False]" "bits_of 5 (Suc 0) = [False, False, False, False, True]"
  "bits_of 5 2 = [False, False, False, True, False]" "bits_of 5 3 = [False, False, False, True, True]"
  "bits_of 5 5 = [False, False, True, False, True]" "bits_of 5 6 = [False, False, True, True, False]"
  by code_simp+

lemma shipped_bits_hex:
  "length shipped_bits = 176" "hex_digits shipped_bits = replicate 33 CHR ''0'' @ ''8cd11a12c05''"
proof -
  show "length shipped_bits = 176" by (simp add: shipped_bits_eq shipped_op_bits)
  have "hex_digits (concat (map op_bits (rev shipped_code))) = ''8cd11a12c05''"
    by (simp add: shipped_op_bits)
  then show "hex_digits shipped_bits = replicate 33 CHR ''0'' @ ''8cd11a12c05''"
    using hex_digits_zeros [of 33] by (simp add: shipped_bits_eq)
qed

lemma shipped_loop_bits:
  "hex_digits (loop_bits (4, 0)) = ''04''" "length (loop_bits (4, 0)) = 8"
  by code_simp+

lemma bits_value_append: "bits_value (xs @ ys) = 2 ^ length ys * bits_value xs + bits_value ys"
  by (induction ys rule: rev_induct) (simp_all add: bits_value_def flip: append_assoc)

lemma shipped_value: "bits_value (loop_bits (4, 0) @ shipped_bits) = ucode_flat"
proof -
  have "bits_value (loop_bits (4, 0)) = 4" by code_simp
  moreover have "bits_value shipped_bits = 0x8cd11a12c05"
    by (simp add: shipped_bits_eq bits_value_zeros shipped_op_bits) (simp add: bits_value_def)
  ultimately show ?thesis using shipped_bits_hex(1) by (simp add: bits_value_append ucode_flat_def)
qed

lemma shipped_bytecode:
  assumes B: "bitarray_ok B val"
  shows "\<exists>c l. ucode_bytecode B shipped_code [4] = Inr (c, l) \<and>
           val c = shipped_bits \<and> val l = loop_bits (4, 0)"
proof -
  have "list_all uop_ok shipped_code" by (simp add: shipped_code_def uop_ok_def)
  from pack_code_bits [OF B this] obtain c
    where c: "pack_code B shipped_code = Inr c" "val c = shipped_bits" by (auto simp: shipped_bits_def)
  have "loop_fits (4, 0)" by (simp add: loop_fits_def)
  from pack_loop_ok [OF B this] obtain x y where "ba_uint B (PInt (int 0)) 5 = Inr x"
    "ba_uint B (PInt (int 4)) 3 = Inr y" "val x @ val y = loop_bits (4, 0)" by blast
  then have "\<exists>l. pack_loops B [4] = Inr l \<and> val l = loop_bits (4, 0)"
    by (simp add: pack_loops_def ba_simps [OF B])
  with c show ?thesis by (auto simp: ucode_bytecode_def)
qed

text \<open>Property C20. The constant the RTL hardwires is what the compiler makes of \<open>code.yml\<close>, the loop
  table above the 176 code bits, and the script prints those two fields: as the comment beside the
  constant says, it is equivalent to the microcode.\<close>
theorem hardwired_microcode:
  assumes "bitarray_ok B val" and "hex_ok val hex"
  shows "\<exists>c l. ucode_load code_yml = Inr ([4], shipped_code) \<and>
      ucode_bytecode B shipped_code [4] = Inr (c, l) \<and>
      length (val c) = 176 \<and> bits_value (val l @ val c) = ucode_flat \<and>
      ucode_compile B hex code_yml =
        Inr [''ucode bytecode: 176'' @ [CHR 0x27] @ ''h'' @ replicate 33 CHR ''0'' @ ''8cd11a12c05'',
             ''ucode loops:    8'' @ [CHR 0x27] @ ''h04'']"
proof -
  obtain c l where cl: "ucode_bytecode B shipped_code [4] = Inr (c, l)"
    "val c = shipped_bits" "val l = loop_bits (4, 0)" using shipped_bytecode [OF assms(1)] by blast
  have hex: "hex c = Inr (hex_digits shipped_bits)" "hex l = Inr (hex_digits (loop_bits (4, 0)))"
    using assms(2) cl(2,3) shipped_bits_hex(1) shipped_loop_bits(2) by (simp_all add: hex_ok_def)
  have str: "nat_str 176 = ''176''" "nat_str 8 = ''8''" by code_simp+
  show ?thesis
    using cl hex str ba_simps(4) [OF assms(1)] shipped_bits_hex shipped_loop_bits shipped_value ucode_load_shipped
    by (intro exI [of _ c] exI [of _ l]) (simp add: ucode_compile_def)
qed

theorem hardwired_microcode_witness:
  "\<exists>c l. ucode_bytecode bool_bitarray shipped_code [4] = Inr (c, l) \<and> bits_value (l @ c) = ucode_flat"
  using hardwired_microcode [OF bool_bitarray_ok, of "\<lambda>b. Inr (hex_digits b)"]
  by (auto simp: hex_ok_def)

end
