(* ===== verification/Ordered_Dict.thy ===== *)
theory Ordered_Dict imports Py_Values begin

section \<open>OrderedDict: insertion order on a doubly linked list\<close>

text \<open>
  \<open>ipstools/ipstools/ordereddict.py\<close>: a dictionary with a circular doubly linked list of its
  keys.  A link is the three-element list \<open>[key, prev, next]\<close> of the source, kept on an explicit
  heap because the code mutates the links of neighbouring entries; \<open>end\<close> is the sentinel.  The
  relation \<open>od_rel\<close> says which association list a state stands for; every operation of the class
  is shown to be the operation of that list.  \<open>ordered_map\<close> is the interface the rest of the
  sources relies on; it is interpreted on the class's model and on the association lists of
  \<open>Py_Values\<close>.
\<close>

subsection \<open>State\<close>

record 'k link =
  l_key :: "'k option"
  l_prev :: nat
  l_next :: nat

record ('k, 'v) odict =
  o_heap :: "nat \<Rightarrow> 'k link"
  o_fresh :: nat
  o_end :: nat
  o_map :: "'k \<rightharpoonup> nat"
  o_vals :: "'k \<rightharpoonup> 'v"

definition set_next :: "nat \<Rightarrow> nat \<Rightarrow> (nat \<Rightarrow> 'k link) \<Rightarrow> (nat \<Rightarrow> 'k link)" where
  "set_next a b h = h(a := (h a)\<lparr>l_next := b\<rparr>)"

definition set_prev :: "nat \<Rightarrow> nat \<Rightarrow> (nat \<Rightarrow> 'k link) \<Rightarrow> (nat \<Rightarrow> 'k link)" where
  "set_prev a b h = h(a := (h a)\<lparr>l_prev := b\<rparr>)"

subsection \<open>Operations\<close>

text \<open>\<open>clear\<close>: a new sentinel that points to itself, an empty map, an empty dictionary.\<close>

definition od_clear :: "('k, 'v) odict \<Rightarrow> ('k, 'v) odict" where
  "od_clear s =
     (let e = o_fresh s
      in s\<lparr>o_heap := (o_heap s)(e := \<lparr>l_key = None, l_prev = e, l_next = e\<rparr>),
           o_fresh := Suc e, o_end := e, o_map := Map.empty, o_vals := Map.empty\<rparr>)"

definition od_setitem :: "'k \<Rightarrow> 'v \<Rightarrow> ('k, 'v) odict \<Rightarrow> ('k, 'v) odict" where
  "od_setitem k v s =
     (let s' =
        (if o_vals s k = None then
           (let e = o_end s; cur = l_prev (o_heap s e); new = o_fresh s;
                h0 = (o_heap s)(new := \<lparr>l_key = Some k, l_prev = cur, l_next = e\<rparr>)
            in s\<lparr>o_heap := set_prev e new (set_next cur new h0),
                 o_fresh := Suc new, o_map := (o_map s)(k \<mapsto> new)\<rparr>)
         else s)
      in s'\<lparr>o_vals := (o_vals s')(k \<mapsto> v)\<rparr>)"

definition od_delitem :: "'k \<Rightarrow> ('k, 'v) odict \<Rightarrow> ('k, 'v) odict res" where
  "od_delitem k s =
     (case o_vals s k of
        None \<Rightarrow> Inl KeyError
      | Some _ \<Rightarrow>
          (let s' = s\<lparr>o_vals := (o_vals s)(k := None)\<rparr>
           in case o_map s' k of
                None \<Rightarrow> Inl KeyError
              | Some a \<Rightarrow>
                  (let p = l_prev (o_heap s' a); n = l_next (o_heap s' a)
                   in Inr (s'\<lparr>o_map := (o_map s')(k := None),
                             o_heap := set_prev n p (set_next p n (o_heap s'))\<rparr>))))"

text \<open>
  \<open>__iter__\<close> and \<open>__reversed__\<close> walk until they meet the sentinel again; on a broken ring they
  would not stop, which is the value \<open>None\<close>.
\<close>

partial_function (option) walk_next ::
  "(nat \<Rightarrow> 'k link) \<Rightarrow> nat \<Rightarrow> nat \<Rightarrow> 'k option list option" where
  "walk_next h e cur =
     (if cur = e then Some []
      else Option.bind (walk_next h e (l_next (h cur))) (\<lambda>ks. Some (l_key (h cur) # ks)))"

partial_function (option) walk_prev ::
  "(nat \<Rightarrow> 'k link) \<Rightarrow> nat \<Rightarrow> nat \<Rightarrow> 'k option list option" where
  "walk_prev h e cur =
     (if cur = e then Some []
      else Option.bind (walk_prev h e (l_prev (h cur))) (\<lambda>ks. Some (l_key (h cur) # ks)))"

definition od_iter :: "('k, 'v) odict \<Rightarrow> 'k list option" where
  "od_iter s = map_option (map the) (walk_next (o_heap s) (o_end s) (l_next (o_heap s (o_end s))))"

definition od_reversed :: "('k, 'v) odict \<Rightarrow> 'k list option" where
  "od_reversed s = map_option (map the) (walk_prev (o_heap s) (o_end s) (l_prev (o_heap s (o_end s))))"

definition od_getitem :: "('k, 'v) odict \<Rightarrow> 'k \<Rightarrow> 'v res" where
  "od_getitem s k = (case o_vals s k of None \<Rightarrow> Inl KeyError | Some v \<Rightarrow> Inr v)"

text \<open>\<open>pop\<close> is \<open>DictMixin.pop\<close> without a default: read the value, then delete the key.\<close>

definition od_pop :: "'k \<Rightarrow> ('k, 'v) odict \<Rightarrow> ('v \<times> ('k, 'v) odict) res" where
  "od_pop k s =
     res_bind (od_getitem s k) (\<lambda>v. res_map (\<lambda>s'. (v, s')) (od_delitem k s))"

text \<open>\<open>popitem(last)\<close>; the first key of the chosen direction, \<open>None\<close> if the walk does not stop.\<close>

definition od_popitem :: "bool \<Rightarrow> ('k, 'v) odict \<Rightarrow> (('k \<times> 'v) \<times> ('k, 'v) odict) res option" where
  "od_popitem lst s =
     (case od_iter s of
        None \<Rightarrow> None
      | Some ks \<Rightarrow>
          (if ks = [] then Some (Inl KeyError)
           else map_option (\<lambda>ks'. res_map (\<lambda>(v, s'). ((hd ks', v), s')) (od_pop (hd ks') s))
                  (if lst then od_reversed s else Some ks)))"

text \<open>\<open>items\<close>, and \<open>__eq__\<close> against another \<open>OrderedDict\<close>.\<close>

definition od_items :: "('k, 'v) odict \<Rightarrow> ('k \<times> 'v) list option" where
  "od_items s = map_option (map (\<lambda>k. (k, the (o_vals s k)))) (od_iter s)"

definition od_eq :: "('k, 'v) odict \<Rightarrow> ('k, 'v) odict \<Rightarrow> bool option" where
  "od_eq s t =
     Option.bind (od_items s) (\<lambda>ps. Option.bind (od_items t) (\<lambda>qs.
       Some (length ps = length qs \<and> list_all (\<lambda>(p, q). p = q) (zip ps qs))))"

text \<open>\<open>update\<close> from a list of pairs, \<open>__init__\<close> with at most one such list, \<open>fromkeys\<close> and \<open>copy\<close>.\<close>

definition od_update :: "('k \<times> 'v) list \<Rightarrow> ('k, 'v) odict \<Rightarrow> ('k, 'v) odict" where
  "od_update ps s = foldl (\<lambda>s (k, v). od_setitem k v s) s ps"

definition od_blank :: "('k, 'v) odict" where
  "od_blank = \<lparr>o_heap = (\<lambda>_. \<lparr>l_key = None, l_prev = 0, l_next = 0\<rparr>), o_fresh = 0, o_end = 0,
              o_map = Map.empty, o_vals = Map.empty\<rparr>"

definition od_init :: "('k \<times> 'v) list list \<Rightarrow> ('k, 'v) odict res" where
  "od_init args =
     (if length args > 1 then Inl TypeError
      else Inr (od_update (concat args) (od_clear od_blank)))"

definition od_fromkeys :: "'k list \<Rightarrow> 'v \<Rightarrow> ('k, 'v) odict" where
  "od_fromkeys ks v = foldl (\<lambda>s k. od_setitem k v s) (od_clear od_blank) ks"

definition od_copy :: "('k, 'v) odict \<Rightarrow> ('k, 'v) odict option" where
  "od_copy s = map_option (\<lambda>ps. od_update ps (od_clear od_blank)) (od_items s)"

text \<open>
  \<open>keys\<close>, \<open>values\<close> and \<open>setdefault\<close>, the last two from \<open>DictMixin\<close>; \<open>__ne__\<close>; \<open>__repr__\<close> with the
  representation of a list of pairs as a parameter; and \<open>__reduce__\<close>, the arguments the class is called
  with when a pickle is read, and the attributes of the instance when there are any besides the
  links and the map, which \<open>__reduce__\<close> takes away and puts back.
\<close>

definition od_keys_list :: "('k, 'v) odict \<Rightarrow> 'k list option" where
  "od_keys_list s = od_iter s"

definition od_values :: "('k, 'v) odict \<Rightarrow> 'v list option" where
  "od_values s = map_option (map (\<lambda>k. the (o_vals s k))) (od_iter s)"

definition od_setdefault :: "'k \<Rightarrow> 'v \<Rightarrow> ('k, 'v) odict \<Rightarrow> ('v \<times> ('k, 'v) odict) res" where
  "od_setdefault k v s =
     res_catch KeyError (res_map (\<lambda>w. (w, s)) (od_getitem s k)) (Inr (v, od_setitem k v s))"

definition od_ne :: "('k, 'v) odict \<Rightarrow> ('k, 'v) odict \<Rightarrow> bool option" where
  "od_ne s t = map_option Not (od_eq s t)"

definition od_repr :: "string \<Rightarrow> (('k \<times> 'v) list \<Rightarrow> string) \<Rightarrow> ('k, 'v) odict \<Rightarrow> string option" where
  "od_repr name repr s =
     Option.bind (od_items s) (\<lambda>ps.
       if ps = [] then Some (name @ ''()'') else Some (name @ ''('' @ repr ps @ '')''))"

text \<open>\<open>attrs\<close> is the dictionary of the instance without the map and the end of the ring.\<close>

definition od_reduce ::
  "(string \<times> 'a) list \<Rightarrow> ('k, 'v) odict \<Rightarrow> (('k \<times> 'v) list list \<times> (string \<times> 'a) list option) option" where
  "od_reduce attrs s = map_option (\<lambda>ps. ([ps], if attrs \<noteq> [] then Some attrs else None)) (od_items s)"

subsection \<open>Segments of the ring\<close>

text \<open>\<open>seg h p as q\<close>: following \<open>next\<close> from \<open>p\<close> visits \<open>as\<close> and then \<open>q\<close>, and \<open>prev\<close> undoes it.\<close>

fun seg :: "(nat \<Rightarrow> 'k link) \<Rightarrow> nat \<Rightarrow> nat list \<Rightarrow> nat \<Rightarrow> bool" where
  "seg h p [] q \<longleftrightarrow> l_next (h p) = q \<and> l_prev (h q) = p"
| "seg h p (a # as) q \<longleftrightarrow> l_next (h p) = a \<and> l_prev (h a) = p \<and> seg h a as q"

lemma seg_append [simp]: "seg h p (as @ b # bs) q \<longleftrightarrow> seg h p as b \<and> seg h b bs q"
  by (induction as arbitrary: p) auto

lemma seg_cong:
  assumes "\<And>x. x \<in> set (p # as) \<Longrightarrow> l_next (h' x) = l_next (h x)"
    and "\<And>x. x \<in> set (as @ [q]) \<Longrightarrow> l_prev (h' x) = l_prev (h x)"
  shows "seg h' p as q = seg h p as q"
  using assms by (induction as arbitrary: p) auto

lemma seg_last: "seg h p as q \<Longrightarrow> l_prev (h q) = last (p # as)"
  by (induction as arbitrary: p) auto

lemma seg_first: "seg h p as q \<Longrightarrow> l_next (h p) = hd (as @ [q])"
  by (cases as) auto

lemma set_next_simps [simp]:
  "l_next (set_next a b h x) = (if x = a then b else l_next (h x))"
  "l_prev (set_next a b h x) = l_prev (h x)"
  "l_key (set_next a b h x) = l_key (h x)"
  by (simp_all add: set_next_def)

lemma set_prev_simps [simp]:
  "l_prev (set_prev a b h x) = (if x = a then b else l_prev (h x))"
  "l_next (set_prev a b h x) = l_next (h x)"
  "l_key (set_prev a b h x) = l_key (h x)"
  by (simp_all add: set_prev_def)

text \<open>Linking \<open>p\<close> to the first of \<open>cs @ [q]\<close> puts \<open>cs\<close> right after \<open>p\<close>.\<close>

lemma seg_link:
  assumes "seg h a cs q" and "p \<notin> set cs" and "distinct cs" and "q \<notin> set cs"
  shows "seg (set_prev (hd (cs @ [q])) p (set_next p (hd (cs @ [q])) h)) p cs q"
proof (cases cs)
  case Nil
  then show ?thesis by simp
next
  case (Cons c ds)
  let ?h = "set_prev c p (set_next p c h)"
  have "seg ?h c ds q = seg h c ds q"
    by (rule seg_cong) (use assms Cons in auto)
  with assms(1) Cons show ?thesis by simp
qed

text \<open>Unlinking \<open>a\<close>.\<close>

lemma seg_unlink:
  assumes sp: "seg h p bs a" and sc: "seg h a cs q"
    and d: "distinct (p # bs @ a # cs)" and q: "q \<notin> set (bs @ a # cs)"
  shows "seg (set_prev (hd (cs @ [q])) (last (p # bs)) (set_next (last (p # bs)) (hd (cs @ [q])) h))
           p (bs @ cs) q"
proof (cases bs rule: rev_cases)
  case Nil
  with assms show ?thesis using seg_link [of h a cs q p] by simp
next
  case (snoc bs' b)
  let ?n = "hd (cs @ [q])"
  let ?h = "set_prev ?n b (set_next b ?n h)"
  have n: "?n \<in> set cs \<union> {q}" by (cases cs) auto
  have "seg ?h b cs q"
    by (rule seg_link [OF sc]) (use d q snoc in auto)
  moreover have "seg ?h p bs' b = seg h p bs' b"
    by (rule seg_cong) (use d q n snoc in auto)
  ultimately show ?thesis using sp snoc by simp
qed

text \<open>Linking a new cell in front of \<open>q\<close>.\<close>

lemma seg_insert:
  assumes s: "seg h p as q" and d: "distinct (p # as)" and q: "q \<notin> set as"
    and new: "new \<notin> set (p # as)" "new \<noteq> q"
    and h': "h' = set_prev q new (set_next (last (p # as)) new
               (h(new := \<lparr>l_key = k, l_prev = last (p # as), l_next = q\<rparr>)))"
  shows "seg h' p (as @ [new]) q"
proof -
  have nn: "last (p # as) \<noteq> new" using new by (metis last_in_set list.discI)
  have "seg h' new [] q" using new nn by (simp add: h')
  moreover have "seg h' p as new"
  proof (cases as rule: rev_cases)
    case Nil
    with new show ?thesis by (simp add: h')
  next
    case (snoc as' b)
    have "seg h' p as' b = seg h p as' b"
      by (rule seg_cong) (use d q new snoc in \<open>auto simp: h'\<close>)
    moreover have "seg h' b [] new" using new snoc by (simp add: h')
    ultimately show ?thesis using s snoc by simp
  qed
  ultimately show ?thesis by simp
qed

subsection \<open>The association list a state stands for\<close>

definition ring :: "(nat \<Rightarrow> 'k link) \<Rightarrow> nat \<Rightarrow> nat list \<Rightarrow> nat \<Rightarrow> 'k list \<Rightarrow> bool" where
  "ring h e as fr ks \<longleftrightarrow>
     seg h e as e \<and> distinct (e # as) \<and> (\<forall>a\<in>set (e # as). a < fr) \<and>
     map (\<lambda>a. l_key (h a)) as = map Some ks"

definition od_rel :: "('k, 'v) odict \<Rightarrow> ('k \<times> 'v) list \<Rightarrow> bool" where
  "od_rel s d \<longleftrightarrow> od_ok d \<and> o_vals s = map_of d \<and>
     (\<exists>as. ring (o_heap s) (o_end s) as (o_fresh s) (od_keys d) \<and>
           o_map s = map_of (zip (od_keys d) as))"

lemma map_of_zip_not_in [simp]:
  "length ks = length as \<Longrightarrow> k \<notin> set ks \<Longrightarrow> map_of (zip ks as) k = None"
  by (simp add: map_of_zip_is_None)

lemma map_of_zip_snoc:
  "length ks = length as \<Longrightarrow> k \<notin> set ks \<Longrightarrow>
   map_of (zip (ks @ [k]) (as @ [a])) = (map_of (zip ks as))(k \<mapsto> a)"
  by (rule ext) (simp add: map_add_def split: option.splits)

lemma map_of_zip_remove:
  "length us = length bs \<Longrightarrow> length vs = length cs \<Longrightarrow> distinct (us @ k # vs) \<Longrightarrow>
   (map_of (zip (us @ k # vs) (bs @ a # cs)))(k := None) = map_of (zip (us @ vs) (bs @ cs))"
  by (rule ext) (auto simp: map_add_def split: option.splits)

lemma ring_length: "ring h e as fr ks \<Longrightarrow> length as = length ks"
  unfolding ring_def by (metis length_map)

lemma od_rel_clear [simp]: "od_rel (od_clear s) []"
  by (simp add: od_rel_def od_clear_def ring_def Let_def)

lemma od_rel_ok: "od_rel s d \<Longrightarrow> od_ok d"
  by (simp add: od_rel_def)

lemma od_rel_vals: "od_rel s d \<Longrightarrow> o_vals s k = None \<longleftrightarrow> k \<notin> set (od_keys d)"
  by (simp add: od_rel_def map_of_od_keys)

lemma ring_insert:
  assumes "ring h e as fr ks"
  shows "ring (set_prev e fr (set_next (l_prev (h e)) fr
           (h(fr := \<lparr>l_key = Some k, l_prev = l_prev (h e), l_next = e\<rparr>))))
           e (as @ [fr]) (Suc fr) (ks @ [k])"
proof -
  from assms have s: "seg h e as e" and d: "distinct (e # as)"
    and fr: "\<forall>a\<in>set (e # as). a < fr" and ks: "map (\<lambda>a. l_key (h a)) as = map Some ks"
    by (auto simp: ring_def)
  from s have pe: "l_prev (h e) = last (e # as)" by (rule seg_last)
  let ?h = "set_prev e fr (set_next (l_prev (h e)) fr
           (h(fr := \<lparr>l_key = Some k, l_prev = l_prev (h e), l_next = e\<rparr>)))"
  have "seg ?h e (as @ [fr]) e"
    by (rule seg_insert [OF s d]) (use d fr pe in auto)
  moreover have "map (\<lambda>a. l_key (?h a)) as = map (\<lambda>a. l_key (h a)) as"
    using fr by auto
  ultimately show ?thesis
    unfolding ring_def using d fr ks by (auto simp: less_Suc_eq)
qed

lemma od_rel_setitem:
  assumes "od_rel s d"
  shows "od_rel (od_setitem k v s) (od_set k v d)"
proof -
  from assms obtain as where ok: "od_ok d" and vals: "o_vals s = map_of d"
    and r: "ring (o_heap s) (o_end s) as (o_fresh s) (od_keys d)"
    and m: "o_map s = map_of (zip (od_keys d) as)"
    by (auto simp: od_rel_def)
  have len: "length as = length (od_keys d)" by (rule ring_length [OF r])
  show ?thesis
  proof (cases "k \<in> set (od_keys d)")
    case True
    then have "o_vals s k \<noteq> None" using vals map_of_od_keys by metis
    with True ok vals r m show ?thesis
      by (auto simp: od_rel_def od_setitem_def)
  next
    case False
    then have n: "o_vals s k = None" using vals map_of_od_keys by metis
    have "map_of (zip (od_keys d @ [k]) (as @ [o_fresh s])) =
          (map_of (zip (od_keys d) as))(k \<mapsto> o_fresh s)"
      by (rule map_of_zip_snoc) (use len False in auto)
    with ring_insert [OF r, of k] n ok vals m False show ?thesis
      by (auto simp: od_rel_def od_setitem_def Let_def)
  qed
qed

text \<open>Deleting a key: the ring splits at its cell and is joined around it.\<close>

lemma ring_split:
  assumes r: "ring h e as fr (us @ k # vs)" and m: "distinct (us @ k # vs)"
  obtains bs a cs where "as = bs @ a # cs" "length bs = length us" "length cs = length vs"
    "map_of (zip (us @ k # vs) as) k = Some a"
proof -
  have "length as = length us + Suc (length vs)" using ring_length [OF r] by simp
  then obtain bs rest where as: "as = bs @ rest" "length bs = length us" "length rest = Suc (length vs)"
    by (metis append_take_drop_id length_append add_left_cancel length_take min.absorb2 le_add1)
  then obtain a cs where "rest = a # cs" "length cs = length vs" by (metis length_Suc_conv)
  moreover have "map_of (zip us bs) k = None"
    using m as(2) by (simp add: map_of_zip_is_None)
  ultimately show ?thesis using that as by (simp add: map_add_def)
qed

lemma ring_delete:
  assumes r: "ring h e (bs @ a # cs) fr (us @ k # vs)" and l: "length bs = length us"
  shows "l_prev (h a) = last (e # bs)" and "l_next (h a) = hd (cs @ [e])"
    and "ring (set_prev (hd (cs @ [e])) (last (e # bs)) (set_next (last (e # bs)) (hd (cs @ [e])) h))
           e (bs @ cs) fr (us @ vs)"
proof -
  from r have s: "seg h e bs a" "seg h a cs e" and d: "distinct (e # bs @ a # cs)"
    and fr: "\<forall>x\<in>set (e # bs @ a # cs). x < fr"
    and ks: "map (\<lambda>x. l_key (h x)) (bs @ a # cs) = map Some (us @ k # vs)"
    by (auto simp: ring_def)
  show "l_prev (h a) = last (e # bs)" using s(1) by (rule seg_last)
  show "l_next (h a) = hd (cs @ [e])" using s(2) by (rule seg_first)
  have "seg (set_prev (hd (cs @ [e])) (last (e # bs)) (set_next (last (e # bs)) (hd (cs @ [e])) h))
          e (bs @ cs) e"
    by (rule seg_unlink [OF s d]) (use d in auto)
  moreover have "map (\<lambda>x. l_key (h x)) (bs @ cs) = map Some (us @ vs)"
    using ks l by auto
  ultimately show "ring (set_prev (hd (cs @ [e])) (last (e # bs))
      (set_next (last (e # bs)) (hd (cs @ [e])) h)) e (bs @ cs) fr (us @ vs)"
    using d fr by (auto simp: ring_def)
qed

lemma filter_neq_split: "distinct (us @ k # vs) \<Longrightarrow> filter (\<lambda>x. x \<noteq> k) (us @ k # vs) = us @ vs"
  by (induction us) (auto simp: filter_id_conv)

lemma od_rel_delitem:
  assumes rel: "od_rel s d" and k: "k \<in> set (od_keys d)"
  shows "\<exists>s'. od_delitem k s = Inr s' \<and> od_rel s' (od_del k d)"
proof -
  from rel obtain as where ok: "od_ok d" and vals: "o_vals s = map_of d"
    and r: "ring (o_heap s) (o_end s) as (o_fresh s) (od_keys d)"
    and m: "o_map s = map_of (zip (od_keys d) as)"
    by (auto simp: od_rel_def)
  from k obtain us vs where ks: "od_keys d = us @ k # vs" by (meson split_list)
  obtain bs a cs where as: "as = bs @ a # cs" "length bs = length us" "length cs = length vs"
    and ma: "map_of (zip (us @ k # vs) as) k = Some a"
    by (rule ring_split [of "o_heap s" "o_end s" as "o_fresh s" us k vs]) (use r ok ks in auto)
  have r': "ring (o_heap s) (o_end s) (bs @ a # cs) (o_fresh s) (us @ k # vs)"
    using r as ks by simp
  note del = ring_delete [OF r' as(2)]
  have keys: "od_keys (od_del k d) = us @ vs"
    using ok ks by (simp add: filter_neq_split del: filter_append filter.simps)
  have mk: "(map_of (zip (us @ k # vs) as))(k := None) = map_of (zip (us @ vs) (bs @ cs))"
    unfolding as(1) by (rule map_of_zip_remove) (use ok ks as in auto)
  have vk: "o_vals s k \<noteq> None" using rel k od_rel_vals by metis
  show ?thesis
    using vk ma del mk keys ok vals m ks
    by (auto simp: od_delitem_def Let_def od_rel_def split: option.splits)
qed

lemma od_delitem_missing: "od_rel s d \<Longrightarrow> k \<notin> set (od_keys d) \<Longrightarrow> od_delitem k s = Inl KeyError"
  by (simp add: od_delitem_def od_rel_vals [THEN iffD2])

lemma walk_next_seg:
  "seg h p as e \<Longrightarrow> e \<notin> set as \<Longrightarrow> walk_next h e (l_next (h p)) = Some (map (\<lambda>a. l_key (h a)) as)"
proof (induction as arbitrary: p)
  case Nil
  then show ?case by (subst walk_next.simps) simp
next
  case (Cons a as)
  then show ?case by (subst walk_next.simps) auto
qed

lemma walk_prev_seg:
  "seg h e as q \<Longrightarrow> e \<notin> set as \<Longrightarrow>
   walk_prev h e (l_prev (h q)) = Some (map (\<lambda>a. l_key (h a)) (rev as))"
proof (induction as arbitrary: q rule: rev_induct)
  case Nil
  then show ?case by (subst walk_prev.simps) simp
next
  case (snoc a as)
  then show ?case by (subst walk_prev.simps) auto
qed

lemma od_rel_iter:
  assumes "od_rel s d"
  shows "od_iter s = Some (od_keys d)" and "od_reversed s = Some (rev (od_keys d))"
proof -
  from assms obtain as where r: "ring (o_heap s) (o_end s) as (o_fresh s) (od_keys d)"
    by (auto simp: od_rel_def)
  then have s: "seg (o_heap s) (o_end s) as (o_end s)" "o_end s \<notin> set as"
    and ks: "map (\<lambda>a. l_key (o_heap s a)) as = map Some (od_keys d)"
    by (auto simp: ring_def)
  have th: "map (the \<circ> Some) xs = (xs :: 'a list)" for xs by (induction xs) auto
  show "od_iter s = Some (od_keys d)"
    by (simp add: od_iter_def walk_next_seg [OF s] ks th)
  show "od_reversed s = Some (rev (od_keys d))"
    by (simp add: od_reversed_def walk_prev_seg [OF s] rev_map ks th flip: rev_map)
qed

lemma od_rel_getitem: "od_rel s d \<Longrightarrow> od_getitem s k = od_get d k"
  by (simp add: od_rel_def od_getitem_def od_get_def)

lemma od_rel_items:
  assumes "od_rel s d"
  shows "od_items s = Some d"
proof -
  from assms have ok: "od_ok d" and v: "o_vals s = map_of d" by (auto simp: od_rel_def)
  have "map (\<lambda>k. (k, the (map_of d k))) (od_keys d) = d"
    using ok by (auto simp: od_keys_def o_def intro!: map_idI)
  then show ?thesis by (simp add: od_items_def od_rel_iter [OF assms] v)
qed

subsection \<open>The interface the rest of the sources relies on\<close>

locale ordered_map =
  fixes empty :: "'m"
    and setitem :: "'k \<Rightarrow> 'v \<Rightarrow> 'm \<Rightarrow> 'm"
    and delitem :: "'k \<Rightarrow> 'm \<Rightarrow> 'm res"
    and getitem :: "'m \<Rightarrow> 'k \<Rightarrow> 'v res"
    and iter :: "'m \<Rightarrow> 'k list option"
    and stands_for :: "'m \<Rightarrow> ('k \<times> 'v) list \<Rightarrow> bool"
  assumes empty_law: "stands_for empty []"
    and set_law: "stands_for m d \<Longrightarrow> stands_for (setitem k v m) (od_set k v d)"
    and del_law: "stands_for m d \<Longrightarrow> k \<in> set (od_keys d) \<Longrightarrow>
                    \<exists>m'. delitem k m = Inr m' \<and> stands_for m' (od_del k d)"
    and del_missing: "stands_for m d \<Longrightarrow> k \<notin> set (od_keys d) \<Longrightarrow> delitem k m = Inl KeyError"
    and get_law: "stands_for m d \<Longrightarrow> getitem m k = od_get d k"
    and iter_law: "stands_for m d \<Longrightarrow> iter m = Some (od_keys d)"
    and keys_distinct: "stands_for m d \<Longrightarrow> od_ok d"
begin

lemma set_all:
  "stands_for m d \<Longrightarrow>
   stands_for (foldl (\<lambda>m (k, v). setitem k v m) m ps) (foldl (\<lambda>d (k, v). od_set k v d) d ps)"
  by (induction ps arbitrary: m d) (auto intro: set_law)

lemma get_set:
  "stands_for m d \<Longrightarrow> getitem (setitem k v m) k' = (if k' = k then Inr v else getitem m k')"
  using get_law [OF set_law] get_law by (simp add: od_get_def)

lemma iter_set:
  "stands_for m d \<Longrightarrow>
   iter (setitem k v m) = Some (if k \<in> set (od_keys d) then od_keys d else od_keys d @ [k])"
  using iter_law [OF set_law] by simp

text \<open>Setting a new key and deleting it gives the old contents back.\<close>

lemma del_set_new:
  assumes "stands_for m d" and "k \<notin> set (od_keys d)"
  shows "\<exists>m'. delitem k (setitem k v m) = Inr m' \<and> stands_for m' d"
proof -
  have s: "stands_for (setitem k v m) (od_set k v d)" using assms(1) by (rule set_law)
  have "od_del k (od_set k v d) = d"
    using assms(2) by (auto simp: od_set_new od_del_def od_keys_def filter_id_conv image_iff)
  moreover have "k \<in> set (od_keys (od_set k v d))" by simp
  ultimately show ?thesis using del_law [OF s] by metis
qed

text \<open>Deleting an old key and setting it again moves it to the end.\<close>

lemma move_to_end:
  assumes "stands_for m d" and "k \<in> set (od_keys d)"
  shows "\<exists>m'. delitem k m = Inr m' \<and>
           iter (setitem k v m') = Some (filter (\<lambda>x. x \<noteq> k) (od_keys d) @ [k])"
proof -
  from del_law [OF assms] obtain m' where m': "delitem k m = Inr m'" "stands_for m' (od_del k d)"
    by blast
  then show ?thesis using iter_set [OF m'(2), of k v] by simp
qed

end

definition alist_del :: "'k \<Rightarrow> ('k \<times> 'v) list \<Rightarrow> ('k \<times> 'v) list res" where
  "alist_del k d = (if k \<in> set (od_keys d) then Inr (od_del k d) else Inl KeyError)"

interpretation alist: ordered_map "[]" od_set alist_del od_get "\<lambda>d. Some (od_keys d)"
    "\<lambda>m d. m = d \<and> od_ok d"
  by unfold_locales (auto simp: alist_del_def)

interpretation linked: ordered_map "od_clear od_blank" od_setitem od_delitem od_getitem od_iter od_rel
  by unfold_locales
    (blast intro: od_rel_clear od_rel_setitem od_rel_delitem od_delitem_missing od_rel_getitem
       od_rel_iter od_rel_ok)+

subsection \<open>The derived operations\<close>

lemma od_rel_update: "od_rel s d \<Longrightarrow> od_rel (od_update ps s) (foldl (\<lambda>d (k, v). od_set k v d) d ps)"
  unfolding od_update_def by (rule linked.set_all)

lemma od_keys_foldl_set:
  "od_ok d \<Longrightarrow> od_ok (foldl (\<lambda>d (k, v). od_set k v d) d ps) \<and>
   set (od_keys (foldl (\<lambda>d (k, v). od_set k v d) d ps)) = set (od_keys d) \<union> fst ` set ps"
proof (induction ps arbitrary: d)
  case (Cons p ps)
  obtain k v where "p = (k, v)" by force
  with Cons show ?case by auto
qed simp

lemma foldl_set_disjoint:
  "distinct (map fst ps) \<Longrightarrow> fst ` set ps \<inter> set (od_keys d) = {} \<Longrightarrow>
   foldl (\<lambda>d (k, v). od_set k v d) d ps = d @ ps"
proof (induction ps arbitrary: d)
  case (Cons p ps)
  obtain k v where "p = (k, v)" by force
  with Cons show ?case by (auto simp: od_set_new)
qed simp

lemma foldl_set_id: "od_ok d \<Longrightarrow> foldl (\<lambda>d (k, v). od_set k v d) [] d = d"
  using foldl_set_disjoint [of d "[]"] by (simp add: od_keys_def)

lemma od_rel_pop:
  assumes "od_rel s d" and "map_of d k = Some v"
  shows "\<exists>s'. od_pop k s = Inr (v, s') \<and> od_rel s' (od_del k d)"
proof -
  have "k \<in> set (od_keys d)" using assms(2) map_of_od_keys by (metis option.distinct(1))
  with od_rel_delitem [OF assms(1)] obtain s' where "od_delitem k s = Inr s'" "od_rel s' (od_del k d)"
    by blast
  then show ?thesis
    using assms by (simp add: od_pop_def od_rel_getitem od_get_def)
qed

lemma od_del_last: "od_ok (d @ [(k, v)]) \<Longrightarrow> od_del k (d @ [(k, v)]) = d"
  by (auto simp: od_del_def od_keys_def filter_id_conv image_iff)

lemma od_del_first: "od_ok ((k, v) # d) \<Longrightarrow> od_del k ((k, v) # d) = d"
  by (auto simp: od_del_def od_keys_def filter_id_conv image_iff)

lemma od_popitem_last:
  assumes "od_rel s (d @ [(k, v)])"
  shows "\<exists>s'. od_popitem True s = Some (Inr ((k, v), s')) \<and> od_rel s' d"
proof -
  have ok: "od_ok (d @ [(k, v)])" using assms by (simp add: od_rel_def)
  then have "map_of (d @ [(k, v)]) k = Some v"
    using map_of_od_keys [of d k] by (auto simp: map_add_def split: option.splits)
  with od_rel_pop [OF assms] obtain s' where "od_pop k s = Inr (v, s')" "od_rel s' (od_del k (d @ [(k, v)]))"
    by blast
  then show ?thesis
    using od_rel_iter [OF assms] od_del_last [OF ok] by (simp add: od_popitem_def)
qed

lemma od_popitem_first:
  assumes "od_rel s ((k, v) # d)"
  shows "\<exists>s'. od_popitem False s = Some (Inr ((k, v), s')) \<and> od_rel s' d"
proof -
  have ok: "od_ok ((k, v) # d)" using assms by (simp add: od_rel_def)
  have "map_of ((k, v) # d) k = Some v" by simp
  with od_rel_pop [OF assms] obtain s' where "od_pop k s = Inr (v, s')" "od_rel s' (od_del k ((k, v) # d))"
    by blast
  then show ?thesis
    using od_rel_iter [OF assms] od_del_first [OF ok] by (simp add: od_popitem_def)
qed

lemma od_rel_eq: "od_rel s d \<Longrightarrow> od_rel t e \<Longrightarrow> od_eq s t = Some (d = e)"
  by (auto simp: od_eq_def od_rel_items list_all_iff list_eq_iff_zip_eq)

lemma od_rel_copy:
  assumes "od_rel s d"
  shows "\<exists>t. od_copy s = Some t \<and> od_rel t d"
proof -
  have "od_rel (od_update d (od_clear od_blank)) (foldl (\<lambda>d (k, v). od_set k v d) [] d)"
    by (rule od_rel_update) simp
  moreover have "od_ok d" using assms by (simp add: od_rel_def)
  ultimately show ?thesis by (simp add: od_copy_def od_rel_items [OF assms] foldl_set_id)
qed

subsection \<open>Whole histories\<close>

text \<open>
  A client's history of calls; a \<open>KeyError\<close> is caught by the client, which finds the dictionary
  unchanged.
\<close>

datatype ('k, 'v) od_op = SetItem 'k 'v | DelItem 'k | Clear

fun od_step :: "('k, 'v) od_op \<Rightarrow> ('k, 'v) odict \<Rightarrow> ('k, 'v) odict" where
  "od_step (SetItem k v) s = od_setitem k v s"
| "od_step (DelItem k) s = (case od_delitem k s of Inl e \<Rightarrow> s | Inr s' \<Rightarrow> s')"
| "od_step Clear s = od_clear s"

fun alist_step :: "('k, 'v) od_op \<Rightarrow> ('k \<times> 'v) list \<Rightarrow> ('k \<times> 'v) list" where
  "alist_step (SetItem k v) d = od_set k v d"
| "alist_step (DelItem k) d = od_del k d"
| "alist_step Clear d = []"

lemma od_step_refines: "od_rel s d \<Longrightarrow> od_rel (od_step op s) (alist_step op d)"
proof (cases op)
  case (DelItem k)
  assume rel: "od_rel s d"
  show ?thesis
  proof (cases "k \<in> set (od_keys d)")
    case True
    then show ?thesis using od_rel_delitem [OF rel True] DelItem by auto
  next
    case False
    then have "od_del k d = d" by (auto simp: od_del_def od_keys_def filter_id_conv image_iff)
    then show ?thesis using False rel DelItem by (simp add: od_delitem_missing)
  qed
qed (auto intro: od_rel_setitem)

lemma od_history_refines: "od_rel s d \<Longrightarrow> od_rel (fold od_step ops s) (fold alist_step ops d)"
  by (induction ops arbitrary: s d) (auto intro: od_step_refines)

text \<open>Property C29. After any history of assignments, deletions and clears from a cleared
  dictionary, however the links were rewired, the forward walk, the backward walk, \<open>items\<close> and
  every lookup agree with the association list the same history builds: both walks stop, in
  insertion order and its reverse.\<close>
theorem odict_history:
  "od_iter (fold od_step ops (od_clear s)) = Some (od_keys (fold alist_step ops [])) \<and>
   od_reversed (fold od_step ops (od_clear s)) = Some (rev (od_keys (fold alist_step ops []))) \<and>
   od_items (fold od_step ops (od_clear s)) = Some (fold alist_step ops []) \<and>
   od_getitem (fold od_step ops (od_clear s)) k = od_get (fold alist_step ops []) k"
proof -
  have "od_rel (fold od_step ops (od_clear s)) (fold alist_step ops [])"
    by (rule od_history_refines) simp
  then show ?thesis by (simp add: od_rel_iter od_rel_items od_rel_getitem)
qed

text \<open>\<open>popitem\<close> takes the newest entry with \<open>last=True\<close> and the oldest with
  \<open>last=False\<close>, and leaves a dictionary that stands for the rest in the same order.\<close>
theorem odict_popitem:
  assumes "od_rel s (p # d @ [q])"
  shows "\<exists>s1 s2. od_popitem True s = Some (Inr (q, s1)) \<and> od_rel s1 (p # d) \<and>
           od_popitem False s = Some (Inr (p, s2)) \<and> od_rel s2 (d @ [q])"
  using assms od_popitem_last [of s "p # d" "fst q" "snd q"] od_popitem_first [of s "fst p" "snd p" "d @ [q]"]
  by simp

theorem odict_popitem_witness:
  "\<exists>s1 s2. od_popitem True (od_update [(1::nat, ''a''), (2, ''b''), (3, ''c'')] (od_clear od_blank)) =
       Some (Inr ((3, ''c''), s1)) \<and> od_rel s1 [(1, ''a''), (2, ''b'')] \<and>
     od_popitem False (od_update [(1::nat, ''a''), (2, ''b''), (3, ''c'')] (od_clear od_blank)) =
       Some (Inr ((1, ''a''), s2)) \<and> od_rel s2 [(2, ''b''), (3, ''c'')]"
proof -
  have "od_rel (od_update [(1::nat, ''a''), (2, ''b''), (3, ''c'')] (od_clear od_blank))
          ((1, ''a'') # [(2, ''b'')] @ [(3, ''c'')])"
    using od_rel_update [of "od_clear od_blank" "[]" "[(1::nat, ''a''), (2, ''b''), (3, ''c'')]"]
    by simp
  from odict_popitem [OF this] show ?thesis by simp
qed

text \<open>Property C30. Pickling keeps a dictionary: calling the class with the arguments \<open>__reduce__\<close> gives makes
  one that is equal and stands for the same list, and the attributes of the instance come along when
  it has any.  The text of the copy, and of the original, is the name of the class with the text of the
  list in parentheses, or with nothing in them when the list is empty; its views are those of the
  list, and \<open>setdefault\<close> adds a key at the end or returns what is there.\<close>
theorem odict_pickle:
  assumes "od_rel s d"
  shows "\<exists>args t. od_reduce attrs s = Some (args, if attrs = [] then None else Some attrs) \<and>
      od_init args = Inr t \<and> od_rel t d \<and> od_eq s t = Some True \<and> od_ne s t = Some False \<and>
      od_repr name repr t = Some (name @ (if d = [] then ''()'' else ''('' @ repr d @ '')'')) \<and>
      od_repr name repr s = od_repr name repr t \<and>
      od_keys_list t = Some (map fst d) \<and> od_values t = Some (map snd d) \<and>
      (\<exists>t'. od_setdefault k v t = Inr (case map_of d k of None \<Rightarrow> v | Some w \<Rightarrow> w, t') \<and>
         od_rel t' (if k \<in> fst ` set d then d else d @ [(k, v)]))"
proof -
  from od_rel_copy [OF assms] obtain t where t: "od_update d (od_clear od_blank) = t" "od_rel t d"
    by (auto simp: od_copy_def od_rel_items [OF assms])
  have items: "od_items s = Some d" "od_items t = Some d" using od_rel_items assms t(2) by auto
  have ok: "od_ok d" and vals: "o_vals t = map_of d" using t(2) by (auto simp: od_rel_def)
  have "map (\<lambda>k. the (map_of d k)) (od_keys d) = map snd d"
    using ok by (auto simp: od_keys_def)
  then have vs: "od_values t = Some (map snd d)"
    by (simp add: od_values_def od_rel_iter [OF t(2)] vals)
  have "\<exists>t'. od_setdefault k v t = Inr (case map_of d k of None \<Rightarrow> v | Some w \<Rightarrow> w, t') \<and>
         od_rel t' (if k \<in> fst ` set d then d else d @ [(k, v)])"
  proof (cases "k \<in> fst ` set d")
    case True
    then obtain w where "map_of d k = Some w" using map_of_eq_None_iff [of d k] by auto
    then show ?thesis using True t(2) by (simp add: od_setdefault_def od_rel_getitem od_get_def)
  next
    case False
    then have "map_of d k = None" by (simp add: map_of_eq_None_iff)
    moreover have "od_rel (od_setitem k v t) (d @ [(k, v)])"
      using od_rel_setitem [OF t(2), of k v] False by (simp add: od_set_new od_keys_def)
    ultimately show ?thesis using False t(2) by (simp add: od_setdefault_def od_rel_getitem od_get_def)
  qed
  then show ?thesis
    using t items vs od_rel_eq [OF assms t(2)]
    by (auto simp: od_reduce_def od_init_def od_ne_def od_repr_def od_keys_list_def od_rel_iter od_keys_def)
qed

theorem odict_pickle_witness:
  "\<exists>args t. od_reduce [] (od_update [(1::nat, ''a''), (2, ''b'')] (od_clear od_blank)) =
       Some (args, None :: (string \<times> nat) list option) \<and>
     od_init args = Inr t \<and> od_values t = Some [''a'', ''b''] \<and>
     od_repr ''OrderedDict'' (\<lambda>ps. ''['' @ concat (map snd ps) @ '']'') t = Some ''OrderedDict([ab])''"
proof -
  have "od_rel (od_update [(1::nat, ''a''), (2, ''b'')] (od_clear od_blank)) [(1, ''a''), (2, ''b'')]"
    using od_rel_update [of "od_clear od_blank" "[]" "[(1::nat, ''a''), (2, ''b'')]"] by simp
  from odict_pickle [OF this, of "[] :: (string \<times> nat) list" "''OrderedDict''"
      "\<lambda>ps. ''['' @ concat (map snd ps) @ '']''" 1 "''z''"]
  show ?thesis by force
qed

text \<open>Deleting a key and assigning it again moves it to the end, while assigning an
  existing key keeps its place.\<close>
theorem odict_move_to_end:
  assumes "od_rel s d" and "k \<in> set (od_keys d)"
  shows "od_iter (od_setitem k v s) = Some (od_keys d) \<and>
         (\<exists>s'. od_delitem k s = Inr s' \<and>
            od_iter (od_setitem k v s') = Some (filter (\<lambda>x. x \<noteq> k) (od_keys d) @ [k]))"
  using linked.iter_set [OF assms(1), of k v] linked.move_to_end [OF assms, of v] assms(2) by simp

theorem odict_move_to_end_witness:
  "od_iter (od_setitem 1 ''z'' (od_update [(1::nat, ''a''), (2, ''b'')] (od_clear od_blank))) = Some [1, 2] \<and>
   (\<exists>s'. od_delitem 1 (od_update [(1::nat, ''a''), (2, ''b'')] (od_clear od_blank)) = Inr s' \<and>
      od_iter (od_setitem 1 ''z'' s') = Some [2, 1])"
proof -
  have r: "od_rel (od_update [(1::nat, ''a''), (2, ''b'')] (od_clear od_blank)) [(1, ''a''), (2, ''b'')]"
    using od_rel_update [of "od_clear od_blank" "[]" "[(1::nat, ''a''), (2, ''b'')]"] by simp
  show ?thesis using odict_move_to_end [OF r, of 1 "''z''"] by simp
qed

end
