(* ===== verification/Ips_Common.thy ===== *)
theory Ips_Common imports Ordered_Dict begin

section \<open>IP lists: parsing, storing, fetching\<close>

text \<open>
  \<open>ipstools/ipstools/IPApproX_common.py\<close>: the names of make targets, the entries of
  \<open>ips_list.yml\<close> and \<open>rtl_list.yml\<close>, their storage, and the retrieval of a dependency's list from
  its server.  Parameters stand for what is outside the sources: \<open>yaml_load\<close> and \<open>yaml_dump\<close> (the
  YAML library, applied through \<open>ordered_load\<close>), \<open>read\<close> (opening and reading a file), \<open>set_list\<close>
  (the order in which a set built from these elements is listed) and \<open>pipe\<close> (the output of one
  command fed from another, \<open>None\<close> when the second fails).  Text is taken as decoded.
\<close>

subsection \<open>Names\<close>

text \<open>\<open>re.sub("[^a-zA-Z0-9_]", "_", s)\<close> replaces each other character by an underscore.\<close>

definition is_word_char :: "char \<Rightarrow> bool" where
  "is_word_char c \<longleftrightarrow> is_letter c \<or> is_digit c \<or> c = CHR ''_''"

definition prepare :: "string \<Rightarrow> string" where
  "prepare s = map (\<lambda>c. if is_word_char c then c else CHR ''_'') s"

text \<open>\<open>re.sub\<close> on a value that is not a string is a \<open>TypeError\<close>.\<close>

subsection \<open>Entries\<close>

record ip_entry =
  e_name :: string
  e_commit :: pyval
  e_server :: pyval
  e_group :: pyval
  e_path :: pyval
  e_domain :: pyval
  e_alternatives :: pyval

text \<open>\<open>name = i.split()[0].split('/')[-1]\<close>.\<close>

definition name_of_key :: "string \<Rightarrow> string res" where
  "name_of_key i =
     (case split_ws i of [] \<Rightarrow> Inl IndexError | w # _ \<Rightarrow> Inr (last (split_on (CHR ''/'') w)))"

text \<open>
  \<open>list(set.union(set(v['alternatives']), set([name])))\<close>, and \<open>None\<close> on a missing key.  The
  union is built from the elements of the first set, then the name.
\<close>

definition entry_alternatives :: "(pyval list \<Rightarrow> pyval list) \<Rightarrow> pyval \<Rightarrow> string \<Rightarrow> pyval res" where
  "entry_alternatives set_list v name =
     res_catch KeyError
       (res_bind (py_item v ''alternatives'') (\<lambda>alts.
        res_map (\<lambda>xs. PList (set_list (xs @ [PStr name]))) (py_set alts)))
       (Inr PNone)"

text \<open>One pass of the loop over the keys, with its accesses in the order of the source.\<close>

definition entry_of ::
  "(pyval list \<Rightarrow> pyval list) \<Rightarrow> bool \<Rightarrow> string \<Rightarrow> pyval \<Rightarrow> ip_entry res" where
  "entry_of set_list skip_commit i v =
     res_bind (if skip_commit then Inr PNone else py_item v ''commit'') (\<lambda>commit.
     res_bind (py_item_or v ''domain'' PNone) (\<lambda>domain.
     res_bind (py_item_or v ''server'' PNone) (\<lambda>server.
     res_bind (py_item_or v ''group'' PNone) (\<lambda>grp.
     res_bind (py_item_or v ''path'' (PStr i)) (\<lambda>path.
     res_bind (name_of_key i) (\<lambda>name.
     res_bind (entry_alternatives set_list v name) (\<lambda>alternatives.
       Inr \<lparr>e_name = name, e_commit = commit, e_server = server, e_group = grp,
            e_path = path, e_domain = domain, e_alternatives = alternatives\<rparr>)))))))"

text \<open>\<open>for i in ips_list.keys()\<close>: only a mapping has keys.\<close>

definition entries_of ::
  "(pyval list \<Rightarrow> pyval list) \<Rightarrow> bool \<Rightarrow> pyval \<Rightarrow> ip_entry list res" where
  "entries_of set_list skip_commit doc =
     res_bind (py_keys doc) (\<lambda>ks.
       res_mapM (\<lambda>i. res_bind (py_item doc i) (entry_of set_list skip_commit i)) ks)"

definition load_ips_list ::
  "(string \<Rightarrow> pyval res) \<Rightarrow> (pyval list \<Rightarrow> pyval list) \<Rightarrow> (string \<Rightarrow> string res) \<Rightarrow>
   string \<Rightarrow> bool \<Rightarrow> ip_entry list res" where
  "load_ips_list yaml_load set_list read filename skip_commit =
     res_bind (read filename) (\<lambda>text.
     res_bind (yaml_load text) (\<lambda>doc. entries_of set_list skip_commit doc))"

subsection \<open>Storing a list\<close>

definition IPS_LIST_PREAMBLE :: string where
  "IPS_LIST_PREAMBLE =
     ''#\<newline># List of IPs and relative branch/commit-hash/tag.\<newline># Uses the YAML syntax.\<newline>#\<newline># Examples:\<newline>#\<newline>#   or10n:\<newline>#     commit: tags/PULP3_final\<newline>#     domain: [cluster]\<newline>#   udma:\<newline>#     commit: 62b10440\<newline>#     domain: [soc]\<newline>#   axi_slice:\<newline>#     commit: master\<newline>#     domain: [soc,cluster]\<newline># If a *tag* or *commit* is referenced, the IP will be in a\<newline>#  state of DETACHED HEAD. Before committing any additional\<newline>#  work, make sure to checkout a branch.\<newline>#\<newline>\<newline>''"

definition entry_doc :: "ip_entry \<Rightarrow> pyval" where
  "entry_doc e =
     PDict ([(''commit'', e_commit e), (''server'', e_server e), (''group'', e_group e),
             (''domain'', e_domain e)] @
            (if e_alternatives e \<noteq> PNone then [(''alternatives'', e_alternatives e)] else []))"

text \<open>The mapping is keyed by path, which has to be a string here; a repeated path overwrites.\<close>

definition ips_doc :: "ip_entry list \<Rightarrow> pyval res" where
  "ips_doc ips =
     res_map PDict
       (res_foldM (\<lambda>d e. res_map (\<lambda>p. od_set p (entry_doc e) d) (py_as_str (e_path e))) [] ips)"

definition store_ips_list :: "(pyval \<Rightarrow> string) \<Rightarrow> ip_entry list \<Rightarrow> string res" where
  "store_ips_list yaml_dump ips = res_map (\<lambda>d. IPS_LIST_PREAMBLE @ yaml_dump d) (ips_doc ips)"

subsection \<open>Fetching a dependency's list\<close>

definition curl_cmd :: "pyval \<Rightarrow> string \<Rightarrow> pyval \<Rightarrow> string res" where
  "curl_cmd grp name commit =
     py_fmt ''curl https://raw.githubusercontent.com/%s/%s/%s/ips_list.yml''
       [py_str grp, name, py_str commit]"

definition archive_cmd :: "pyval \<Rightarrow> pyval \<Rightarrow> string \<Rightarrow> pyval \<Rightarrow> string res" where
  "archive_cmd server grp name commit =
     py_fmt ''git archive --remote=%s:%s/%s %s ips_list.yml''
       [py_str server, py_str grp, name, py_str commit]"

text \<open>
  \<open>get_ips_list_yml\<close> under Python 3.  On the \<open>github.com\<close> branch a failure of the command leaves
  \<open>ips_list_yml\<close> the \<open>str\<close> it was initialised with, and \<open>str\<close> has no \<open>decode\<close>: the
  \<open>AttributeError\<close> is raised before the fallback is tried.
\<close>

definition get_ips_list_yml ::
  "(string list \<Rightarrow> string list \<Rightarrow> string option) \<Rightarrow> pyval \<Rightarrow> pyval \<Rightarrow> string \<Rightarrow> pyval \<Rightarrow>
   string option res" where
  "get_ips_list_yml pipe server grp name commit =
     res_bind (py_in (PStr ''github.com'') server) (\<lambda>github.
       if github then
         res_bind (py_in (PStr ''tags/'') commit) (\<lambda>tagged.
         res_bind (if tagged then py_from 5 commit else Inr commit) (\<lambda>commit.
         res_bind (curl_cmd grp name commit) (\<lambda>cmd.
           (case pipe (split_ws cmd) [''cat''] of
              None \<Rightarrow> Inl AttributeError
            | Some text \<Rightarrow> Inr (Some (if take 3 text = ''404'' then [] else text))))))
       else
         res_bind (archive_cmd server grp name commit) (\<lambda>cmd.
           Inr (pipe (split_ws cmd) [''tar'', ''-xO''])))"

definition load_ips_list_from_server ::
  "(string list \<Rightarrow> string list \<Rightarrow> string option) \<Rightarrow> (string \<Rightarrow> pyval res) \<Rightarrow>
   (pyval list \<Rightarrow> pyval list) \<Rightarrow> pyval \<Rightarrow> pyval \<Rightarrow> string \<Rightarrow> pyval \<Rightarrow> bool \<Rightarrow> ip_entry list res" where
  "load_ips_list_from_server pipe yaml_load set_list server grp name commit skip_commit =
     res_bind (get_ips_list_yml pipe server grp name commit) (\<lambda>yml.
       case yml of
         None \<Rightarrow> Inr []
       | Some text \<Rightarrow>
           res_bind (yaml_load text) (\<lambda>doc.
             res_catch AttributeError (entries_of set_list skip_commit doc) (Inr [])))"

subsection \<open>Names of targets and of keys\<close>

lemma length_prepare [simp]: "length (prepare s) = length s"
  by (simp add: prepare_def)

lemma prepare_word: "list_all is_word_char (prepare s)"
proof -
  have "is_word_char CHR ''_''" by (simp add: is_word_char_def)
  then show ?thesis by (auto simp: prepare_def list_all_iff)
qed

lemma prepare_id: "list_all is_word_char s \<Longrightarrow> prepare s = s"
  by (auto simp: prepare_def list_all_iff intro: map_idI)

lemma prepare_append [simp]: "prepare (s @ t) = prepare s @ prepare t"
  by (simp add: prepare_def)

lemma prepare_nth: "i < length s \<Longrightarrow> prepare s ! i = (if is_word_char (s ! i) then s ! i else CHR ''_'')"
  by (simp add: prepare_def)

text \<open>\<open>prepare\<close> gives a make-safe name of the same length that keeps every letter,
  digit and underscore in place; applying it twice changes nothing, and a name it leaves alone is
  exactly one made of such characters.\<close>
theorem prepare_normal_form:
  "list_all is_word_char (prepare s) \<and> length (prepare s) = length s \<and>
   prepare (prepare s) = prepare s \<and> (prepare s = s \<longleftrightarrow> list_all is_word_char s)"
  using prepare_word [of s] prepare_id [of s] prepare_id [OF prepare_word, of s] by auto

lemma name_of_key_path:
  assumes "\<forall>c\<in>set (u @ v). \<not> is_space c" and "CHR ''/'' \<notin> set v" and "v \<noteq> []"
  shows "name_of_key (u @ CHR ''/'' # v) = Inr v"
proof -
  have "\<not> is_space CHR ''/''" by (simp add: is_space_def)
  then have "split_ws (u @ CHR ''/'' # v) = [u @ CHR ''/'' # v]"
    using assms(1) by (intro split_ws_word) auto
  then show ?thesis using last_split_on [OF assms(2)] by (simp add: name_of_key_def)
qed

lemma name_of_key_plain:
  assumes "\<forall>c\<in>set v. \<not> is_space c" and "CHR ''/'' \<notin> set v" and "v \<noteq> []"
  shows "name_of_key v = Inr v"
  using assms by (simp add: name_of_key_def split_ws_word split_on_no_sep)

lemma name_of_key_no_slash: "name_of_key k = Inr n \<Longrightarrow> CHR ''/'' \<notin> set n"
  using split_on_pieces [OF last_in_set [OF split_on_nonempty]]
  by (auto simp: name_of_key_def split: list.splits)

subsection \<open>Entries keep what the mapping says\<close>

text \<open>What every \<open>list(set(...))\<close> does: list each element once, in some order.\<close>

definition set_order :: "(pyval list \<Rightarrow> pyval list) \<Rightarrow> bool" where
  "set_order set_list \<longleftrightarrow> (\<forall>xs. set (set_list xs) = set xs \<and> distinct (set_list xs))"

lemma set_order_remdups: "set_order remdups"
  by (simp add: set_order_def)

lemma entry_of_fields:
  assumes "entry_of set_list skip i (PDict kvs) = Inr e"
  shows "name_of_key i = Inr (e_name e)"
    and "e_path e = (case map_of kvs ''path'' of None \<Rightarrow> PStr i | Some v \<Rightarrow> v)"
    and "e_server e = (case map_of kvs ''server'' of None \<Rightarrow> PNone | Some v \<Rightarrow> v)"
    and "e_group e = (case map_of kvs ''group'' of None \<Rightarrow> PNone | Some v \<Rightarrow> v)"
    and "e_domain e = (case map_of kvs ''domain'' of None \<Rightarrow> PNone | Some v \<Rightarrow> v)"
    and "if skip then e_commit e = PNone else map_of kvs ''commit'' = Some (e_commit e)"
    and "entry_alternatives set_list (PDict kvs) (e_name e) = Inr (e_alternatives e)"
  using assms
  by (auto simp: entry_of_def res_iffs od_get_Inr_iff split: if_splits)

lemma entry_alternatives_own_name:
  assumes "set_order set_list" and "entry_alternatives set_list v n = Inr a"
  shows "a = PNone \<or> (\<exists>xs. a = PList xs \<and> PStr n \<in> set xs)"
  using assms by (auto simp: entry_alternatives_def res_iffs set_order_def)

lemma entries_of_all:
  assumes "entries_of set_list skip doc = Inr es"
  shows "\<exists>kvs. doc = PDict kvs \<and>
           list_all2 (\<lambda>k e. \<exists>v. map_of kvs k = Some v \<and> entry_of set_list skip k v = Inr e) (od_keys kvs) es"
proof -
  from assms obtain kvs where doc: "doc = PDict kvs"
    by (cases doc) (auto simp: entries_of_def)
  moreover have "list_all2 (\<lambda>k e. res_bind (od_get kvs k) (entry_of set_list skip k) = Inr e) (od_keys kvs) es"
    using assms unfolding doc by (simp add: entries_of_def res_mapM_Inr_iff)
  ultimately show ?thesis
    by (auto simp: res_bind_Inr_iff od_get_Inr_iff elim: list_all2_mono)
qed

text \<open>Every entry of a loaded IP list is a choice among alternatives that includes the
  IP itself: when the mapping gives alternatives, the entry's list holds its own name.\<close>
theorem alternatives_include_self:
  assumes "set_order set_list" and "entries_of set_list skip doc = Inr es"
  shows "list_all (\<lambda>e. e_alternatives e = PNone \<or>
           (\<exists>xs. e_alternatives e = PList xs \<and> PStr (e_name e) \<in> set xs)) es"
proof -
  from entries_of_all [OF assms(2)] obtain kvs where
    all: "list_all2 (\<lambda>k e. \<exists>v. map_of kvs k = Some v \<and> entry_of set_list skip k v = Inr e) (od_keys kvs) es"
    by blast
  have "e_alternatives e = PNone \<or> (\<exists>xs. e_alternatives e = PList xs \<and> PStr (e_name e) \<in> set xs)"
    if "e \<in> set es" for e
  proof -
    from that obtain n where "n < length es" "e = es ! n" by (auto simp: in_set_conv_nth)
    with all obtain v where "entry_of set_list skip (od_keys kvs ! n) v = Inr e"
      by (auto simp: list_all2_conv_all_nth)
    then have "entry_alternatives set_list v (e_name e) = Inr (e_alternatives e)"
      by (auto simp: entry_of_def res_iffs)
    with assms(1) show ?thesis by (rule entry_alternatives_own_name)
  qed
  then show ?thesis by (simp add: list_all_iff)
qed

theorem alternatives_include_self_witness:
  "\<exists>es. entries_of remdups False
      (PDict [(''riscv'', PDict [(''commit'', PStr ''v1''), (''alternatives'', pstrs [''zero-riscy''])])]) = Inr es \<and>
    list_all (\<lambda>e. e_alternatives e = PNone \<or>
      (\<exists>xs. e_alternatives e = PList xs \<and> PStr (e_name e) \<in> set xs)) es"
proof -
  have "name_of_key ''riscv'' = Inr ''riscv''" by code_simp
  then have "\<exists>es. entries_of remdups False
      (PDict [(''riscv'', PDict [(''commit'', PStr ''v1''), (''alternatives'', pstrs [''zero-riscy''])])]) = Inr es"
    by (simp add: entries_of_def entry_of_def entry_alternatives_def od_get_def py_set_def)
  then show ?thesis using alternatives_include_self [OF set_order_remdups] by blast
qed

subsection \<open>Storing and reading back\<close>

definition same_entry :: "ip_entry \<Rightarrow> ip_entry \<Rightarrow> bool" where
  "same_entry e e' \<longleftrightarrow>
     e_name e = e_name e' \<and> e_commit e = e_commit e' \<and> e_server e = e_server e' \<and>
     e_group e = e_group e' \<and> e_path e = e_path e' \<and> e_domain e = e_domain e' \<and>
     (case (e_alternatives e, e_alternatives e') of
        (PNone, PNone) \<Rightarrow> True
      | (PList xs, PList ys) \<Rightarrow> set xs = set ys
      | _ \<Rightarrow> False)"

text \<open>What can be stored and loaded: a string path with a word, and alternatives that are absent or a
  list of values a set can hold.\<close>

definition storable :: "ip_entry \<Rightarrow> bool" where
  "storable e = (case e_path e of
      PStr p \<Rightarrow> \<not> isl (name_of_key p) \<and>
        (case e_alternatives e of PNone \<Rightarrow> True | PList xs \<Rightarrow> list_all py_hashable xs | _ \<Rightarrow> False)
    | _ \<Rightarrow> False)"

definition path_of :: "ip_entry \<Rightarrow> string" where
  "path_of e = (case e_path e of PStr p \<Rightarrow> p | _ \<Rightarrow> [])"

text \<open>The entry agrees with its path: its name is the last component, and among its alternatives.\<close>

definition named_by_path :: "ip_entry \<Rightarrow> bool" where
  "named_by_path e \<longleftrightarrow> name_of_key (path_of e) = Inr (e_name e) \<and>
     (case e_alternatives e of PList xs \<Rightarrow> PStr (e_name e) \<in> set xs | _ \<Rightarrow> True)"

text \<open>The entry as it comes back: named by its path, and with this name among its alternatives.\<close>

definition as_loaded :: "ip_entry \<Rightarrow> ip_entry" where
  "as_loaded e =
     (let n = (case name_of_key (path_of e) of Inl x \<Rightarrow> [] | Inr n \<Rightarrow> n)
      in e\<lparr>e_name := n,
           e_alternatives := (case e_alternatives e of PList xs \<Rightarrow> PList (xs @ [PStr n]) | v \<Rightarrow> v)\<rparr>)"

lemma storable_path: "storable e \<Longrightarrow> e_path e = PStr (path_of e)"
  by (auto simp: storable_def path_of_def split: pyval.splits)

lemma same_entry_left: "same_entry e e' \<Longrightarrow> same_entry f e' \<Longrightarrow> same_entry e f"
  by (auto simp: same_entry_def split: pyval.splits)

lemma same_entry_trans: "same_entry e f \<Longrightarrow> same_entry f e' \<Longrightarrow> same_entry e e'"
  by (auto simp: same_entry_def split: pyval.splits)

lemma same_renamed: "storable e \<Longrightarrow> same_entry e (as_loaded e) \<longleftrightarrow> named_by_path e"
  by (auto simp: same_entry_def as_loaded_def named_by_path_def storable_def path_of_def Let_def
      split: pyval.splits sum.splits)

lemma entry_doc_items:
  "map_of (case entry_doc e of PDict kvs \<Rightarrow> kvs) k =
     (if k = ''commit'' then Some (e_commit e) else if k = ''server'' then Some (e_server e)
      else if k = ''group'' then Some (e_group e) else if k = ''domain'' then Some (e_domain e)
      else if k = ''alternatives'' \<and> e_alternatives e \<noteq> PNone then Some (e_alternatives e) else None)"
  by (auto simp: entry_doc_def)

lemma entry_of_entry_doc:
  assumes ord: "set_order set_list" and ok: "storable e"
  shows "\<exists>e'. entry_of set_list False (path_of e) (entry_doc e) = Inr e' \<and> same_entry (as_loaded e) e'"
proof -
  obtain n where name: "name_of_key (path_of e) = Inr n"
    using ok by (cases "name_of_key (path_of e)") (auto simp: storable_def path_of_def split: pyval.splits)
  show ?thesis
  proof (cases "e_alternatives e")
    case PNone
    then show ?thesis
      using storable_path [OF ok] name
      by (simp add: entry_of_def entry_doc_def od_get_def entry_alternatives_def same_entry_def as_loaded_def)
  next
    case (PList xs)
    then have "list_all py_hashable xs" using ok by (auto simp: storable_def split: pyval.splits)
    moreover have "set (set_list (xs @ [PStr n])) = set (xs @ [PStr n])" using ord by (auto simp: set_order_def)
    ultimately show ?thesis
      using storable_path [OF ok] name PList
      by (simp add: entry_of_def entry_doc_def od_get_def entry_alternatives_def same_entry_def py_set_def as_loaded_def)
  qed (use ok in \<open>auto simp: storable_def split: pyval.splits\<close>)
qed

lemma ips_doc_distinct:
  assumes "list_all storable ips" and "distinct (map path_of ips)"
  shows "ips_doc ips = Inr (PDict (map (\<lambda>e. (path_of e, entry_doc e)) ips))"
proof -
  have step: "res_foldM (\<lambda>d e. res_map (\<lambda>p. od_set p (entry_doc e) d) (py_as_str (e_path e))) d ips =
      Inr (d @ map (\<lambda>e. (path_of e, entry_doc e)) ips)"
    if "set (od_keys d) \<inter> path_of ` set ips = {}" for d
    using assms that
  proof (induction ips arbitrary: d)
    case (Cons e ips)
    then show ?case by (auto simp: storable_path od_set_new)
  qed simp
  show ?thesis using step [of "[]"] by (simp add: ips_doc_def)
qed

text \<open>Property C33. What survives storing and reading back.  Take entries whose paths are distinct strings
  with at least one word each, and whose alternatives are absent or a list of values that a set can
  hold.  The mapping that \<open>store_ips_list\<close> builds from them is read as as many entries in the same
  order, with every attribute as it was, up to the order of the alternatives, whatever order
  \<open>list(set(...))\<close> picks, except that each entry is named by the last component of the first word of
  its path, and has this name among its alternatives if it has any.  So an entry comes back as it was
  exactly when it was named by its path already and has its name among its alternatives; one whose
  path was given apart from its name, and ends otherwise, comes back under another name.\<close>
theorem store_load_roundtrip:
  assumes "set_order set_list" and "list_all storable ips" and "distinct (map path_of ips)"
  shows "\<exists>doc es. ips_doc ips = Inr doc \<and> entries_of set_list False doc = Inr es \<and>
           list_all2 same_entry (map as_loaded ips) es \<and>
           list_all2 (\<lambda>e e'. same_entry e e' \<longleftrightarrow> named_by_path e) ips es"
proof -
  let ?kvs = "map (\<lambda>e. (path_of e, entry_doc e)) ips"
  have keys: "od_keys ?kvs = map path_of ips" by (simp add: od_keys_def o_def)
  have get: "od_get ?kvs (path_of e) = Inr (entry_doc e)" if "e \<in> set ips" for e
  proof -
    have "map_of ?kvs (path_of e) = Some (entry_doc e)"
      by (rule map_of_is_SomeI) (use assms(3) that in \<open>auto simp: o_def\<close>)
    then show ?thesis by (simp add: od_get_def)
  qed
  define rd where "rd e = (SOME e'. entry_of set_list False (path_of e) (entry_doc e) = Inr e' \<and> same_entry (as_loaded e) e')" for e
  have rd: "entry_of set_list False (path_of e) (entry_doc e) = Inr (rd e) \<and> same_entry (as_loaded e) (rd e)"
    if "e \<in> set ips" for e
    unfolding rd_def by (rule someI_ex, rule entry_of_entry_doc [OF assms(1)])
      (use assms(2) that in \<open>simp add: list_all_iff\<close>)
  have "entries_of set_list False (PDict ?kvs) =
      res_mapM (\<lambda>i. res_bind (od_get ?kvs i) (entry_of set_list False i)) (map path_of ips)"
    by (simp add: entries_of_def keys)
  also have "\<dots> = res_mapM (\<lambda>e. res_bind (od_get ?kvs (path_of e)) (entry_of set_list False (path_of e))) ips"
    by (simp add: res_mapM_map)
  also have "\<dots> = Inr (map rd ips)" by (rule res_mapM_Inr) (simp add: get rd)
  finally have "entries_of set_list False (PDict ?kvs) = Inr (map rd ips)" .
  moreover have "same_entry e (rd e) \<longleftrightarrow> named_by_path e" if "e \<in> set ips" for e
    using same_entry_trans [OF _ rd [OF that, THEN conjunct2]] same_entry_left [OF _ rd [OF that, THEN conjunct2]]
      same_renamed [of e] assms(2) that by (auto simp: list_all_iff)
  ultimately show ?thesis using ips_doc_distinct [OF assms(2,3)] rd
    by (auto simp: list_all2_conv_all_nth)
qed

definition example_entries :: "ip_entry list" where
  "example_entries =
     [\<lparr>e_name = ''riscv'', e_commit = PStr ''tags/v1'', e_server = PNone, e_group = PNone,
       e_path = PStr ''cores/riscv'', e_domain = pstrs [''soc''], e_alternatives = pstrs [''riscv'', ''zero'']\<rparr>,
      \<lparr>e_name = ''udma'', e_commit = PStr ''master'', e_server = PStr ''git@host'', e_group = PStr ''pulp'',
       e_path = PStr ''io/udma_core'', e_domain = PNone, e_alternatives = PNone\<rparr>]"

lemma example_entries_ok: "list_all storable example_entries" "distinct (map path_of example_entries)"
proof -
  have n: "name_of_key ''cores/riscv'' = Inr ''riscv''" "name_of_key ''io/udma_core'' = Inr ''udma_core''"
    by code_simp+
  show "list_all storable example_entries" "distinct (map path_of example_entries)"
    by (simp_all add: example_entries_def storable_def path_of_def n)
qed

theorem store_load_roundtrip_witness:
  "\<exists>doc es. ips_doc example_entries = Inr doc \<and> entries_of remdups False doc = Inr es \<and>
     same_entry (example_entries ! 0) (es ! 0) \<and> \<not> same_entry (example_entries ! 1) (es ! 1)"
proof -
  obtain doc es where d: "ips_doc example_entries = Inr doc" "entries_of remdups False doc = Inr es"
    and all: "list_all2 (\<lambda>e e'. same_entry e e' \<longleftrightarrow> named_by_path e) example_entries es"
    using store_load_roundtrip [OF set_order_remdups example_entries_ok] by blast
  have "length example_entries = 2" by (simp add: example_entries_def)
  with all have "same_entry (example_entries ! i) (es ! i) \<longleftrightarrow> named_by_path (example_entries ! i)" if "i < 2" for i
    using that by (simp add: list_all2_conv_all_nth)
  moreover have "named_by_path (example_entries ! 0)" "\<not> named_by_path (example_entries ! 1)" by code_simp+
  ultimately show ?thesis using d by fastforce
qed

subsection \<open>Retrieval\<close>

text \<open>For a server on \<open>github.com\<close> the result depends on the outcome of the raw download
  alone: when that fails the function raises \<open>AttributeError\<close>, and the \<open>git archive\<close> fallback
  written for this case is never run, whatever it would return.\<close>
theorem github_fallback_unreachable:
  assumes "py_in (PStr ''github.com'') server = Inr True"
    and "\<And>cmd. pipe cmd [''cat''] = pipe' cmd [''cat'']"
  shows "get_ips_list_yml pipe server grp name commit = get_ips_list_yml pipe' server grp name commit \<and>
    ((\<forall>cmd. pipe cmd [''cat''] = None) \<longrightarrow>
      (\<forall>r. get_ips_list_yml pipe server grp name commit \<noteq> Inr r))"
  using assms by (auto simp: get_ips_list_yml_def res_iffs split: if_splits)

theorem github_fallback_unreachable_witness:
  "get_ips_list_yml (\<lambda>c d. if d = [''cat''] then None else Some ''udma:'') (PStr ''https://github.com'')
     (PStr ''pulp-platform'') ''riscv'' (PStr ''master'') =
   get_ips_list_yml (\<lambda>c d. None) (PStr ''https://github.com'') (PStr ''pulp-platform'') ''riscv'' (PStr ''master'')"
proof -
  have "py_in (PStr ''github.com'') (PStr ''https://github.com'') = Inr True"
    by (simp add: prefix_def)
  from github_fallback_unreachable [OF this, of "\<lambda>c d. if d = [''cat''] then None else Some ''udma:''" "\<lambda>c d. None"
      "PStr ''pulp-platform''" "''riscv''" "PStr ''master''"]
  show ?thesis by simp
qed

lemma entries_of_errors:
  assumes "entries_of set_list skip (PDict kvs) = Inl x"
  shows "x \<in> {KeyError, TypeError, IndexError}"
proof (rule ccontr)
  assume "x \<notin> {KeyError, TypeError, IndexError}"
  then have x: "KeyError \<noteq> x" "TypeError \<noteq> x" "IndexError \<noteq> x" by auto
  have item: "od_get kvs k \<noteq> Inl x" for k using x by (simp add: od_get_def split: option.splits)
  have py: "py_item v k \<noteq> Inl x" "py_item_or v k d \<noteq> Inl x" "py_set v \<noteq> Inl x" for v k d
    using x by (cases v; auto simp: py_item_or_def od_get_def py_set_def split: option.splits)+
  have alt: "entry_alternatives set_list v n \<noteq> Inl x" for v n
    using py by (auto simp: entry_alternatives_def res_catch_def res_bind_Inl_iff split: sum.splits)
  have name: "name_of_key k \<noteq> Inl x" for k using x by (auto simp: name_of_key_def split: list.splits)
  have entry: "entry_of set_list skip i v \<noteq> Inl x" for i v
    using py alt name by (auto simp: entry_of_def res_bind_Inl_iff split: if_splits)
  have "res_mapM f xs \<noteq> Inl x" if "\<And>y. f y \<noteq> Inl x" for f :: "string \<Rightarrow> ip_entry res" and xs
    by (induction xs) (auto simp: res_bind_Inl_iff that)
  then show False using assms item entry by (auto simp: entries_of_def res_bind_Inl_iff)
qed

lemma entries_of_no_attribute_error: "entries_of set_list skip (PDict kvs) \<noteq> Inl AttributeError"
  using entries_of_errors [of set_list skip kvs AttributeError] by auto

text \<open>A dependency becomes a leaf of the tree, with no exception, in exactly two cases:
  no list could be gathered, or the text is not a mapping (an empty file, a 404 page).  Errors
  inside a mapping, such as a missing \<open>commit\<close>, still surface.\<close>
theorem server_list_leaf:
  assumes "get_ips_list_yml pipe server grp name commit = Inr yml"
  shows "load_ips_list_from_server pipe yaml_load set_list server grp name commit skip =
    (case yml of
       None \<Rightarrow> Inr []
     | Some text \<Rightarrow>
        (case yaml_load text of
           Inl e \<Rightarrow> Inl e
         | Inr (PDict kvs) \<Rightarrow> entries_of set_list skip (PDict kvs)
         | Inr _ \<Rightarrow> Inr []))"
proof -
  have "res_catch AttributeError (entries_of set_list skip (PDict kvs)) (Inr []) =
      entries_of set_list skip (PDict kvs)" for kvs
    using entries_of_no_attribute_error [of set_list skip kvs]
    by (cases "entries_of set_list skip (PDict kvs)") auto
  then show ?thesis
    using assms
    by (auto simp: load_ips_list_from_server_def entries_of_def split: option.splits sum.splits pyval.splits)
qed

theorem server_list_leaf_witness:
  "load_ips_list_from_server (\<lambda>c d. Some ''404: Not Found'') (\<lambda>t. Inr (if t = [] then PNone else PStr t)) remdups
     (PStr ''https://github.com'') (PStr ''pulp-platform'') ''riscv'' (PStr ''62b10440'') False = Inr []"
proof -
  have "get_ips_list_yml (\<lambda>c d. Some ''404: Not Found'') (PStr ''https://github.com'') (PStr ''pulp-platform'')
      ''riscv'' (PStr ''62b10440'') = Inr (Some [])"
    by (simp add: get_ips_list_yml_def prefix_def curl_cmd_def)
  from server_list_leaf [OF this, of "\<lambda>t. Inr (if t = [] then PNone else PStr t)" remdups False]
  show ?thesis by simp
qed

end
