(* ===== verification/Ip_Tree.thy ===== *)
theory Ip_Tree imports Ips_Common begin

section \<open>The dependency tree and its conflicts\<close>

text \<open>
  \<open>ipstools/ipstools/IPTreeNode.py\<close>: the construction of the tree by fetching each dependency's own
  list, the flat list of descendants, and the dictionary of conflicts.  Nodes are objects compared
  by identity, so each carries the number of its allocation.  The root object has no entry of its
  own and is represented by its list of children.  The recursion of the constructor is not bounded
  by the data, a cyclic dependency never reaches a leaf; Python bounds it by its recursion limit,
  which is the fuel of \<open>make_node\<close>.
\<close>

record origin =
  o_server :: pyval
  o_group :: pyval
  o_name :: string
  o_commit :: pyval

datatype ip_tree =
  IPTreeNode (oid: nat) (node: ip_entry) (father: "origin option") (itself: origin)
    (children: "ip_tree list")

abbreviation node_name :: "ip_tree \<Rightarrow> string" where
  "node_name t \<equiv> e_name (node t)"

abbreviation node_commit :: "ip_tree \<Rightarrow> pyval" where
  "node_commit t \<equiv> e_commit (node t)"

subsection \<open>Construction\<close>

definition or_default :: "pyval \<Rightarrow> pyval \<Rightarrow> pyval" where
  "or_default v d = (if v \<noteq> PNone then v else d)"

definition origin_of :: "pyval \<Rightarrow> pyval \<Rightarrow> pyval \<Rightarrow> ip_entry \<Rightarrow> origin" where
  "origin_of default_server default_group default_commit e =
     \<lparr>o_server = or_default (e_server e) default_server, o_group = or_default (e_group e) default_group,
      o_name = e_name e, o_commit = or_default (e_commit e) default_commit\<rparr>"

text \<open>
  \<open>fetch\<close> is \<open>load_ips_list_from_server\<close> at the node's origin; \<open>k\<close> is the next free object number.
  The object is allocated before its children.
\<close>

fun make_node :: "(origin \<Rightarrow> ip_entry list res) \<Rightarrow> (ip_entry \<Rightarrow> origin) \<Rightarrow> nat \<Rightarrow>
    origin option \<Rightarrow> nat \<Rightarrow> ip_entry \<Rightarrow> (nat \<times> ip_tree) res"
  and make_nodes :: "(origin \<Rightarrow> ip_entry list res) \<Rightarrow> (ip_entry \<Rightarrow> origin) \<Rightarrow> nat \<Rightarrow>
    origin option \<Rightarrow> nat \<Rightarrow> ip_entry list \<Rightarrow> (nat \<times> ip_tree list) res" where
  "make_node fetch org 0 fth k e = Inl RecursionError"
| "make_node fetch org (Suc fuel) fth k e =
     res_bind (fetch (org e)) (\<lambda>ips.
     res_map (\<lambda>(k', cs). (k', IPTreeNode k e fth (org e) cs))
       (make_nodes fetch org fuel (Some (org e)) (Suc k) ips))"
| "make_nodes fetch org fuel fth k [] = Inr (k, [])"
| "make_nodes fetch org fuel fth k (e # es) =
     res_bind (make_node fetch org fuel fth k e) (\<lambda>(k', t).
     res_map (\<lambda>(k'', ts). (k'', t # ts)) (make_nodes fetch org fuel fth k' es))"

subsection \<open>The flat list\<close>

fun flattenize :: "ip_tree \<Rightarrow> ip_tree list" where
  "flattenize (IPTreeNode i e f s cs) = concat (map (\<lambda>c. flattenize c @ [c]) cs)"

definition flattenize_children :: "ip_tree list \<Rightarrow> ip_tree list" where
  "flattenize_children cs = concat (map (\<lambda>c. flattenize c @ [c]) cs)"

subsection \<open>Conflicts\<close>

text \<open>\<open>in\<close>, \<open>is\<close> and \<open>remove\<close> on node objects go by identity.\<close>

definition same_obj :: "ip_tree \<Rightarrow> ip_tree \<Rightarrow> bool" where
  "same_obj f g \<longleftrightarrow> oid f = oid g"

definition obj_in :: "ip_tree \<Rightarrow> ip_tree list \<Rightarrow> bool" where
  "obj_in f fs = list_ex (same_obj f) fs"

fun obj_remove :: "ip_tree \<Rightarrow> ip_tree list \<Rightarrow> ip_tree list" where
  "obj_remove f [] = []"
| "obj_remove f (g # gs) = (if same_obj f g then gs else g # obj_remove f gs)"

definition add_node :: "string \<Rightarrow> ip_tree \<Rightarrow> (string \<times> ip_tree list) list \<Rightarrow> (string \<times> ip_tree list) list" where
  "add_node n g d =
     (case map_of d n of
        Some gs \<Rightarrow> if obj_in g gs then d else od_set n (gs @ [g]) d
      | None \<Rightarrow> d)"

text \<open>The four passes: empty lists, population, eviction of empty entries, one entry per commit.\<close>

definition conflicts_init :: "ip_tree list \<Rightarrow> (string \<times> ip_tree list) list" where
  "conflicts_init flat = foldl (\<lambda>d f. od_set (node_name f) [] d) [] flat"

definition conflicts_populate :: "ip_tree list \<Rightarrow> (string \<times> ip_tree list) list \<Rightarrow> (string \<times> ip_tree list) list" where
  "conflicts_populate flat d0 =
     foldl (\<lambda>d f.
        foldl (\<lambda>d g. if \<not> same_obj f g \<and> node_name f = node_name g then add_node (node_name f) g d else d)
          (add_node (node_name f) f d) flat) d0 flat"

definition conflicts_evict :: "(string \<times> ip_tree list) list \<Rightarrow> (string \<times> ip_tree list) list" where
  "conflicts_evict d = foldl (\<lambda>d k. od_del k d) d (map fst (filter (\<lambda>(k, gs). length gs < 1) d))"

text \<open>\<open>(nodes_to_remove, commits)\<close> of one list, then the removals.\<close>

definition scan_commits :: "ip_tree list \<Rightarrow> ip_tree list \<times> pyval list" where
  "scan_commits c =
     foldl (\<lambda>(rm, commits) ip.
        if list_ex (py_eq (node_commit ip)) commits then (rm @ [ip], commits)
        else (rm, commits @ [node_commit ip])) ([], []) c"

definition collapse_commits :: "ip_tree list \<Rightarrow> ip_tree list" where
  "collapse_commits c = foldl (\<lambda>c ip. obj_remove ip c) c (fst (scan_commits c))"

definition get_conflicts :: "ip_tree list \<Rightarrow> (string \<times> ip_tree list) list" where
  "get_conflicts root =
     (let flat = flattenize_children root in
      map (\<lambda>(k, c). (k, collapse_commits c))
        (conflicts_evict (conflicts_populate flat (conflicts_init flat))))"

subsection \<open>Object numbers\<close>

definition subtree_ids :: "ip_tree \<Rightarrow> nat list" where
  "subtree_ids t = map oid (flattenize t @ [t])"

lemma flattenize_node [simp]: "flattenize (IPTreeNode i e f s cs) = flattenize_children cs"
  by (simp add: flattenize_children_def)

lemma flattenize_children_simps [simp]:
  "flattenize_children [] = []"
  "flattenize_children (c # cs) = flattenize c @ c # flattenize_children cs"
  by (simp_all add: flattenize_children_def)

declare flattenize.simps [simp del]

lemma ids_append:
  assumes "distinct A" "set A = {k..<k1}" "distinct B" "set B = {k1..<k'}" "k \<le> k1" "k1 \<le> (k' :: nat)"
  shows "distinct (A @ B) \<and> set (A @ B) = {k..<k'}"
  using assms by auto

lemma make_node_ids:
  "make_node fetch org fuel fth k e = Inr (k', t) \<Longrightarrow>
     k < k' \<and> distinct (map oid (flattenize t @ [t])) \<and> set (map oid (flattenize t @ [t])) = {k..<k'}"
  "make_nodes fetch org fuel fth k es = Inr (k', ts) \<Longrightarrow>
     k \<le> k' \<and> distinct (map oid (flattenize_children ts)) \<and>
     set (map oid (flattenize_children ts)) = {k..<k'}"
proof (induction fetch org fuel fth k e and fetch org fuel fth k es arbitrary: k' t and k' ts
    rule: make_node_make_nodes.induct)
  case (2 fetch org fuel fth k e)
  then obtain ips cs where f: "fetch (org e) = Inr ips"
    and c: "make_nodes fetch org fuel (Some (org e)) (Suc k) ips = Inr (k', cs)"
    and t: "t = IPTreeNode k e fth (org e) cs"
    by (auto simp: res_iffs)
  from "2.IH" [OF f c] show ?case using t by (auto simp: atLeastLessThan_eq_atLeastAtMost_diff)
next
  case (4 fetch org fuel fth k e es)
  then obtain k1 t ts' where n: "make_node fetch org fuel fth k e = Inr (k1, t)"
    and ns: "make_nodes fetch org fuel fth k1 es = Inr (k', ts')" and ts: "ts = t # ts'"
    by (auto simp: res_iffs)
  have eq: "map oid (flattenize_children ts) = map oid (flattenize t @ [t]) @ map oid (flattenize_children ts')"
    by (simp add: ts)
  have 1: "k < k1 \<and> distinct (map oid (flattenize t @ [t])) \<and> set (map oid (flattenize t @ [t])) = {k..<k1}"
    by (rule "4.IH"(1) [OF n])
  have 2: "k1 \<le> k' \<and> distinct (map oid (flattenize_children ts')) \<and>
      set (map oid (flattenize_children ts')) = {k1..<k'}"
    by (rule "4.IH"(2) [OF n refl ns])
  show ?case unfolding eq
    using ids_append [of "map oid (flattenize t @ [t])" k k1 "map oid (flattenize_children ts')" k'] 1 2
    by (simp del: map_append)
qed auto

subsection \<open>When the construction ends\<close>

lemma make_nodes_total:
  assumes "\<And>k e. e \<in> set es \<Longrightarrow> \<exists>r. make_node fetch org fuel fth k e = Inr r"
  shows "\<exists>r. make_nodes fetch org fuel fth k es = Inr r"
  using assms
proof (induction es arbitrary: k)
  case (Cons e es)
  then obtain k' t where "make_node fetch org fuel fth k e = Inr (k', t)" by force
  moreover have "\<exists>r. make_nodes fetch org fuel fth k' es = Inr r"
    by (rule Cons.IH) (use Cons.prems in auto)
  ultimately show ?case by force
qed simp

lemma make_node_total:
  assumes rank: "\<And>e. e \<in> S \<Longrightarrow> \<exists>ips. fetch (org e) = Inr ips \<and> set ips \<subseteq> S \<and> (\<forall>e'\<in>set ips. rank e' < rank e)"
  shows "e \<in> S \<Longrightarrow> rank e < fuel \<Longrightarrow> \<exists>r. make_node fetch org fuel fth k e = Inr r"
proof (induction fuel arbitrary: e fth k)
  case (Suc fuel)
  from rank [OF Suc.prems(1)] obtain ips where ips: "fetch (org e) = Inr ips" "set ips \<subseteq> S"
    "\<forall>e'\<in>set ips. rank e' < rank e" by blast
  have "\<exists>r. make_nodes fetch org fuel (Some (org e)) (Suc k) ips = Inr r"
    by (rule make_nodes_total) (use ips Suc in fastforce)
  then show ?case using ips(1) by force
qed simp

lemma make_nodes_member:
  "make_nodes fetch org fuel fth k es = Inr (k', ts) \<Longrightarrow> e \<in> set es \<Longrightarrow>
   \<exists>k1 r. make_node fetch org fuel fth k1 e = Inr r"
proof (induction es arbitrary: k k' ts)
  case (Cons x es)
  then obtain k1 t ts' where n: "make_node fetch org fuel fth k x = Inr (k1, t)"
    and ns: "make_nodes fetch org fuel fth k1 es = Inr (k', ts')"
    by (auto simp: res_iffs)
  from Cons.prems(2) consider "e = x" | "e \<in> set es" by auto
  then show ?case by cases (use n Cons.IH [OF ns] in auto)
qed simp

text \<open>
  Without cyclic dependencies the construction of the tree ends: if every reachable
  list can be fetched and each entry has a rank above its dependencies', any recursion limit above
  the rank of the entry gives a node.
\<close>
theorem tree_construction_ends:
  assumes "\<And>e. e \<in> S \<Longrightarrow> \<exists>ips. fetch (org e) = Inr ips \<and> set ips \<subseteq> S \<and> (\<forall>e'\<in>set ips. rank e' < (rank e :: nat))"
    and "e \<in> S" and "rank e < fuel"
  shows "\<exists>r. make_node fetch org fuel fth k e = Inr r"
  using make_node_total [of S fetch org rank, OF assms] .

definition leaf_entry :: "string \<Rightarrow> ip_entry" where
  "leaf_entry n = \<lparr>e_name = n, e_commit = PStr ''master'', e_server = PNone, e_group = PNone,
     e_path = PStr n, e_domain = PNone, e_alternatives = PNone\<rparr>"

definition example_org :: "ip_entry \<Rightarrow> origin" where
  "example_org = origin_of (PStr ''https://github.com'') (PStr ''pulp-platform'') (PStr ''master'')"

definition example_fetch :: "origin \<Rightarrow> ip_entry list res" where
  "example_fetch g = (if o_name g = ''soc'' then Inr [leaf_entry ''axi'', leaf_entry ''apb''] else Inr [])"

theorem tree_construction_ends_witness:
  "\<exists>r. make_node example_fetch example_org 2 None 0 (leaf_entry ''soc'') = Inr r"
proof (rule tree_construction_ends [where S = "{leaf_entry ''soc'', leaf_entry ''axi'', leaf_entry ''apb''}"
      and rank = "\<lambda>e. if e_name e = ''soc'' then 1 else 0"])
  show "\<exists>ips. example_fetch (example_org e) = Inr ips \<and>
      set ips \<subseteq> {leaf_entry ''soc'', leaf_entry ''axi'', leaf_entry ''apb''} \<and>
      (\<forall>e'\<in>set ips. (if e_name e' = ''soc'' then 1 else 0) < ((if e_name e = ''soc'' then 1 else 0) :: nat))"
    if "e \<in> {leaf_entry ''soc'', leaf_entry ''axi'', leaf_entry ''apb''}" for e
    using that by (auto simp: example_fetch_def example_org_def origin_of_def leaf_entry_def)
qed (simp_all add: leaf_entry_def)

text \<open>A cyclic dependency has no tree at any recursion limit: if every entry of a set
  can only be fetched to a list that leads back into the set, the constructor never returns.\<close>
theorem cyclic_dependency_diverges:
  assumes "\<And>e ips. e \<in> S \<Longrightarrow> fetch (org e) = Inr ips \<Longrightarrow> \<exists>e'\<in>S. e' \<in> set ips"
    and "e \<in> S"
  shows "make_node fetch org fuel fth k e \<noteq> Inr r"
  using assms(2)
proof (induction fuel arbitrary: e fth k r)
  case (Suc fuel)
  show ?case
  proof
    assume "make_node fetch org (Suc fuel) fth k e = Inr r"
    then obtain ips k' cs where ips: "fetch (org e) = Inr ips"
      and cs: "make_nodes fetch org fuel (Some (org e)) (Suc k) ips = Inr (k', cs)"
      by (auto simp: res_iffs)
    from assms(1) [OF Suc.prems ips] obtain e' where "e' \<in> S" "e' \<in> set ips" by blast
    with make_nodes_member [OF cs] Suc.IH show False by blast
  qed
qed simp

theorem cyclic_dependency_diverges_witness:
  "make_node (\<lambda>g. Inr [leaf_entry (if o_name g = ''a'' then ''b'' else ''a'')]) example_org 1000 None 0
     (leaf_entry ''a'') \<noteq> Inr (0, IPTreeNode 0 (leaf_entry ''a'') None (example_org (leaf_entry ''a'')) [])"
  by (rule cyclic_dependency_diverges [where S = "{leaf_entry ''a'', leaf_entry ''b''}"])
    (auto simp: example_org_def origin_of_def leaf_entry_def)

subsection \<open>What the four passes compute\<close>

abbreviation named :: "string \<Rightarrow> ip_tree list \<Rightarrow> ip_tree list" where
  "named n fs \<equiv> filter (\<lambda>g. node_name g = n) fs"

lemma obj_in_iff: "obj_in f fs \<longleftrightarrow> oid f \<in> oid ` set fs"
  by (auto simp: obj_in_def same_obj_def list_ex_iff)

lemma od_keys_add_node [simp]: "od_keys (add_node n g d) = od_keys d"
proof -
  have "map_of d n = Some gs \<Longrightarrow> n \<in> set (od_keys d)" for gs
    using map_of_od_keys by (metis option.distinct(1))
  then show ?thesis by (auto simp: add_node_def split: option.splits)
qed

lemma map_of_add_node:
  "map_of d n = Some gs \<Longrightarrow>
   map_of (add_node n g d) = (map_of d)(n \<mapsto> (if obj_in g gs then gs else gs @ [g]))"
  by (auto simp: add_node_def)

lemma conflicts_init_keys: "od_keys (conflicts_init flat) = first_by (\<lambda>n. n) (map node_name flat)"
proof -
  have "od_keys (foldl (\<lambda>d f. od_set (node_name f) [] d) [] fs) = first_by (\<lambda>n. n) (map node_name fs)" for fs
  proof (induction fs rule: rev_induct)
    case (snoc f fs)
    have "set (first_by (\<lambda>n. n) (map node_name fs)) = node_name ` set fs"
      using image_first_by [of "\<lambda>n. n" "map node_name fs"] by simp
    with snoc show ?case by (simp add: first_by_snoc)
  qed simp
  then show ?thesis by (simp add: conflicts_init_def)
qed

lemma conflicts_init_map:
  "map_of (conflicts_init flat) n = (if n \<in> node_name ` set flat then Some [] else None)"
proof -
  have "map_of (foldl (\<lambda>d f. od_set (node_name f) [] d) [] fs) n =
      (if n \<in> node_name ` set fs then Some [] else None)" for fs
    by (induction fs rule: rev_induct) auto
  then show ?thesis unfolding conflicts_init_def .
qed

text \<open>The inner loop for one node \<open>f\<close>: the list of its name grows by the nodes not yet there.\<close>

lemma populate_inner:
  assumes "map_of d (node_name f) = Some xs" and "distinct (map oid gs)"
  shows "map_of (foldl (\<lambda>d g. if \<not> same_obj f g \<and> node_name f = node_name g
            then add_node (node_name f) g d else d) d gs) =
         (map_of d)(node_name f \<mapsto> xs @ filter (\<lambda>g. \<not> same_obj f g \<and> \<not> obj_in g xs) (named (node_name f) gs)) \<and>
       od_keys (foldl (\<lambda>d g. if \<not> same_obj f g \<and> node_name f = node_name g
            then add_node (node_name f) g d else d) d gs) = od_keys d"
  using assms
proof (induction gs arbitrary: d xs)
  case Nil
  then show ?case by (simp add: fun_upd_idem)
next
  case (Cons g gs)
  have rest: "filter (\<lambda>h. \<not> same_obj f h \<and> \<not> obj_in h (xs @ [g])) (named (node_name f) gs) =
      filter (\<lambda>h. \<not> same_obj f h \<and> \<not> obj_in h xs) (named (node_name f) gs)"
    using Cons.prems(2) by (intro filter_cong) (auto simp: obj_in_iff image_iff)
  show ?case
  proof (cases "\<not> same_obj f g \<and> node_name f = node_name g \<and> \<not> obj_in g xs")
    case True
    then have m: "map_of (add_node (node_name f) g d) = (map_of d)(node_name f \<mapsto> xs @ [g])"
      using Cons.prems(1) by (simp add: map_of_add_node)
    have "map_of (add_node (node_name f) g d) (node_name f) = Some (xs @ [g])" by (simp add: m)
    from Cons.IH [OF this, unfolded rest m] Cons.prems(2) True show ?thesis
      by (simp add: fun_eq_iff)
  next
    case False
    have m: "map_of (if \<not> same_obj f g \<and> node_name f = node_name g then add_node (node_name f) g d else d) = map_of d"
      using False Cons.prems(1) by (auto simp: map_of_add_node fun_upd_idem)
    have k: "od_keys (if \<not> same_obj f g \<and> node_name f = node_name g then add_node (node_name f) g d else d) = od_keys d"
      by simp
    have "map_of (if \<not> same_obj f g \<and> node_name f = node_name g then add_node (node_name f) g d else d)
        (node_name f) = Some xs" using Cons.prems(1) m by simp
    from Cons.IH [OF this] Cons.prems(2) show ?thesis using False by (auto simp: m k)
  qed
qed

lemma populate_step:
  assumes d: "map_of d (node_name f) = Some xs" and oids: "distinct (map oid flat)"
    and f: "flat = pre @ f # post"
    and xs: "xs = (if node_name f \<in> node_name ` set pre then named (node_name f) flat else [])"
  shows "map_of (foldl (\<lambda>d g. if \<not> same_obj f g \<and> node_name f = node_name g
            then add_node (node_name f) g d else d) (add_node (node_name f) f d) flat) =
         (map_of d)(node_name f \<mapsto> named (node_name f) flat) \<and>
       od_keys (foldl (\<lambda>d g. if \<not> same_obj f g \<and> node_name f = node_name g
            then add_node (node_name f) g d else d) (add_node (node_name f) f d) flat) = od_keys d"
proof (cases "node_name f \<in> node_name ` set pre")
  case True
  have in_xs: "obj_in g xs" if "g \<in> set flat" "node_name g = node_name f" for g
    using True xs that by (auto simp: obj_in_iff)
  then have "obj_in f xs" using f by simp
  then have m: "map_of (add_node (node_name f) f d) = map_of d"
    using d by (simp add: map_of_add_node fun_upd_idem)
  have "filter (\<lambda>g. \<not> same_obj f g \<and> \<not> obj_in g xs) (named (node_name f) flat) = []"
    using in_xs by (auto simp: filter_empty_conv)
  with populate_inner [of "add_node (node_name f) f d" f xs flat] m d oids True xs show ?thesis by simp
next
  case False
  then have nil: "xs = []" using xs by simp
  then have m: "map_of (add_node (node_name f) f d) = (map_of d)(node_name f \<mapsto> [f])"
    using d by (simp add: map_of_add_node obj_in_def)
  have pre: "named (node_name f) pre = []" using False by (simp add: filter_empty_conv image_iff) metis
  have "filter (\<lambda>g. \<not> same_obj f g \<and> \<not> obj_in g [f]) (named (node_name f) post) = named (node_name f) post"
    by (rule filter_True) (use oids f in \<open>auto simp: obj_in_def same_obj_def image_iff\<close>)
  then have "[f] @ filter (\<lambda>g. \<not> same_obj f g \<and> \<not> obj_in g [f]) (named (node_name f) flat) = named (node_name f) flat"
    using pre f by (simp add: same_obj_def)
  with populate_inner [of "add_node (node_name f) f d" f "[f]" flat] m oids show ?thesis by simp
qed

lemma populate_prefix:
  assumes oids: "distinct (map oid flat)" and init: "\<And>n. map_of d n = (if n \<in> node_name ` set flat then Some [] else None)"
  shows "flat = pre @ post \<Longrightarrow>
    (\<forall>n. map_of (foldl (\<lambda>d f. foldl (\<lambda>d g. if \<not> same_obj f g \<and> node_name f = node_name g
            then add_node (node_name f) g d else d) (add_node (node_name f) f d) flat) d pre) n =
       (if n \<in> node_name ` set flat then Some (if n \<in> node_name ` set pre then named n flat else []) else None)) \<and>
    od_keys (foldl (\<lambda>d f. foldl (\<lambda>d g. if \<not> same_obj f g \<and> node_name f = node_name g
            then add_node (node_name f) g d else d) (add_node (node_name f) f d) flat) d pre) = od_keys d"
proof (induction pre arbitrary: post rule: rev_induct)
  case Nil
  then show ?case using init by simp
next
  case (snoc f pre)
  let ?step = "\<lambda>d f. foldl (\<lambda>d g. if \<not> same_obj f g \<and> node_name f = node_name g
            then add_node (node_name f) g d else d) (add_node (node_name f) f d) flat"
  have split: "flat = pre @ f # post" using snoc.prems by simp
  from snoc.IH [OF split] have
    m: "\<And>n. map_of (foldl ?step d pre) n = (if n \<in> node_name ` set flat
        then Some (if n \<in> node_name ` set pre then named n flat else []) else None)"
    and k: "od_keys (foldl ?step d pre) = od_keys d" by auto
  have "map_of (foldl ?step d pre) (node_name f) =
      Some (if node_name f \<in> node_name ` set pre then named (node_name f) flat else [])"
    using m split by simp
  from populate_step [OF this oids split refl]
  have "map_of (foldl ?step d (pre @ [f])) = (map_of (foldl ?step d pre))(node_name f \<mapsto> named (node_name f) flat)"
    "od_keys (foldl ?step d (pre @ [f])) = od_keys d" using k by auto
  then show ?case using m split by auto
qed

lemma populate_all:
  assumes "distinct (map oid flat)"
  shows "map_of (conflicts_populate flat (conflicts_init flat)) n =
           (if n \<in> node_name ` set flat then Some (named n flat) else None)"
    and "od_keys (conflicts_populate flat (conflicts_init flat)) = first_by (\<lambda>n. n) (map node_name flat)"
  using populate_prefix [OF assms, of "conflicts_init flat" flat "[]"]
  by (simp_all add: conflicts_populate_def conflicts_init_map conflicts_init_keys)

lemma evict_nothing:
  assumes "list_all (\<lambda>(k, gs). gs \<noteq> []) d"
  shows "conflicts_evict d = d"
proof -
  have "filter (\<lambda>(k, gs). length gs < 1) d = []"
    using assms by (auto simp: filter_empty_conv list_all_iff)
  then show ?thesis unfolding conflicts_evict_def by (simp only: list.map foldl.simps)
qed

text \<open>The scan keeps the first node of every commit; removing the others by identity leaves those.\<close>

fun keep_commits :: "pyval list \<Rightarrow> ip_tree list \<Rightarrow> ip_tree list" where
  "keep_commits cs [] = []"
| "keep_commits cs (x # xs) =
     (if list_ex (py_eq (node_commit x)) cs then keep_commits cs xs
      else x # keep_commits (cs @ [node_commit x]) xs)"

fun drop_commits :: "pyval list \<Rightarrow> ip_tree list \<Rightarrow> ip_tree list" where
  "drop_commits cs [] = []"
| "drop_commits cs (x # xs) =
     (if list_ex (py_eq (node_commit x)) cs then x # drop_commits cs xs
      else drop_commits (cs @ [node_commit x]) xs)"

lemma fst_scan:
  "fst (foldl (\<lambda>(rm, commits) ip.
        if list_ex (py_eq (node_commit ip)) commits then (rm @ [ip], commits)
        else (rm, commits @ [node_commit ip])) (rm, cs) c) = rm @ drop_commits cs c"
  by (induction c arbitrary: rm cs) auto

lemma obj_remove_filter: "distinct (map oid c) \<Longrightarrow> obj_remove f c = filter (\<lambda>g. oid g \<noteq> oid f) c"
  by (induction c) (auto simp: same_obj_def image_iff intro!: filter_True [symmetric])

lemma obj_remove_all:
  "distinct (map oid c) \<Longrightarrow>
   foldl (\<lambda>c ip. obj_remove ip c) c rm = filter (\<lambda>g. oid g \<notin> oid ` set rm) c"
proof (induction rm arbitrary: c)
  case (Cons r rm)
  then have "distinct (map oid (obj_remove r c))"
    by (simp add: obj_remove_filter distinct_map inj_on_def)
  with Cons show ?case by (auto simp: obj_remove_filter intro!: filter_cong)
qed simp

lemma keep_commits_filter:
  "distinct (map oid c) \<Longrightarrow> filter (\<lambda>g. oid g \<notin> oid ` set (drop_commits cs c)) c = keep_commits cs c"
proof (induction cs c rule: keep_commits.induct)
  case (2 cs x xs)
  have sub: "set (drop_commits cs' xs) \<subseteq> set xs" for cs'
    by (induction xs arbitrary: cs') auto
  have ne: "oid y \<noteq> oid x" if "y \<in> set xs" for y
    using "2.prems" that by (auto simp: image_iff)
  show ?case
  proof (cases "list_ex (py_eq (node_commit x)) cs")
    case True
    have "filter (\<lambda>g. oid g \<noteq> oid x \<and> oid g \<notin> oid ` set (drop_commits cs xs)) xs =
        filter (\<lambda>g. oid g \<notin> oid ` set (drop_commits cs xs)) xs"
      using ne by (intro filter_cong) auto
    then show ?thesis using True "2.IH"(1) "2.prems" by simp
  next
    case False
    have "oid x \<notin> oid ` set (drop_commits (cs @ [node_commit x]) xs)"
      using sub ne by force
    then show ?thesis using False "2.IH"(2) "2.prems" by simp
  qed
qed simp

lemma keep_commits_first_by:
  "keep_commits cs c =
     filter (\<lambda>g. py_norm (node_commit g) \<notin> py_norm ` set cs) (first_by (\<lambda>g. py_norm (node_commit g)) c)"
proof (induction c arbitrary: cs)
  case (Cons x xs)
  have ex: "list_ex (py_eq (node_commit x)) cs \<longleftrightarrow> py_norm (node_commit x) \<in> py_norm ` set cs"
    by (auto simp: list_ex_iff py_eq_def)
  show ?case
    by (auto simp: ex Cons.IH intro!: filter_cong)
qed simp

lemma collapse_commits_first_by:
  "distinct (map oid c) \<Longrightarrow> collapse_commits c = first_by (\<lambda>g. py_norm (node_commit g)) c"
  unfolding collapse_commits_def scan_commits_def fst_scan
  by (simp add: obj_remove_all keep_commits_filter keep_commits_first_by [of "[]"])

lemma get_conflicts_spec:
  assumes "distinct (map oid (flattenize_children root))"
  shows "get_conflicts root =
    map (\<lambda>n. (n, first_by (\<lambda>g. py_norm (node_commit g)) (named n (flattenize_children root))))
      (first_by (\<lambda>n. n) (map node_name (flattenize_children root)))"
proof -
  let ?flat = "flattenize_children root"
  let ?d = "conflicts_populate ?flat (conflicts_init ?flat)"
  let ?ns = "first_by (\<lambda>n. n) (map node_name ?flat)"
  have keys: "od_keys ?d = ?ns" by (rule populate_all(2) [OF assms])
  have ok: "od_ok ?d" unfolding keys using distinct_first_by [of "\<lambda>n. n" "map node_name ?flat"] by simp
  have ns: "set ?ns = node_name ` set ?flat" using image_first_by [of "\<lambda>n. n" "map node_name ?flat"] by simp
  have d: "?d = map (\<lambda>n. (n, named n ?flat)) ?ns"
  proof (rule od_ext)
    show "od_keys ?d = od_keys (map (\<lambda>n. (n, named n ?flat)) ?ns)"
      unfolding keys by (simp add: od_keys_def o_def)
    show "map_of ?d k = map_of (map (\<lambda>n. (n, named n ?flat)) ?ns) k" if "k \<in> set (od_keys ?d)" for k
      using that populate_all(1) [OF assms, of k] unfolding keys ns
      by (simp add: map_of_map_restrict ns)
  qed (rule ok)
  have "list_all (\<lambda>(k, gs). gs \<noteq> []) ?d"
    unfolding d using ns by (auto simp: list_all_iff filter_empty_conv)
  then have ev: "conflicts_evict ?d = ?d" by (rule evict_nothing)
  have col: "collapse_commits (named n ?flat) = first_by (\<lambda>g. py_norm (node_commit g)) (named n ?flat)" for n
    by (rule collapse_commits_first_by) (use assms in \<open>simp add: distinct_map inj_on_def\<close>)
  show ?thesis
    unfolding get_conflicts_def Let_def ev unfolding d by (simp add: col)
qed

text \<open>Property C1. Over a tree the constructor built, the conflict dictionary lists every IP name in
  the order of its first occurrence among the descendants, and under it exactly one node per
  distinct commit: the first descendant of that name with that commit.  No node is lost but the
  redundant ones, and none is listed twice.\<close>
theorem conflicts_of_built_tree:
  assumes "make_nodes fetch org fuel fth k es = Inr (k', root)"
  shows "get_conflicts root =
    map (\<lambda>n. (n, first_by (\<lambda>g. py_norm (node_commit g)) (named n (flattenize_children root))))
      (first_by (\<lambda>n. n) (map node_name (flattenize_children root)))"
  using make_node_ids(2) [OF assms] by (intro get_conflicts_spec) simp

theorem conflicts_of_built_tree_witness:
  "\<exists>k' root. make_nodes example_fetch example_org 3 None 0 [leaf_entry ''soc'', leaf_entry ''axi''] = Inr (k', root) \<and>
     map (\<lambda>(n, gs). (n, map oid gs)) (get_conflicts root) = [(''axi'', [1]), (''apb'', [2]), (''soc'', [0])]"
proof -
  have soc: "example_fetch (example_org (leaf_entry ''soc'')) = Inr [leaf_entry ''axi'', leaf_entry ''apb'']"
    and leaf: "example_fetch (example_org (leaf_entry ''axi'')) = Inr []"
      "example_fetch (example_org (leaf_entry ''apb'')) = Inr []"
    by (simp_all add: example_fetch_def example_org_def origin_of_def leaf_entry_def)
  let ?g = "example_org (leaf_entry ''soc'')"
  let ?root = "[IPTreeNode 0 (leaf_entry ''soc'') None ?g
        [IPTreeNode 1 (leaf_entry ''axi'') (Some ?g) (example_org (leaf_entry ''axi'')) [],
         IPTreeNode 2 (leaf_entry ''apb'') (Some ?g) (example_org (leaf_entry ''apb'')) []],
      IPTreeNode 3 (leaf_entry ''axi'') None (example_org (leaf_entry ''axi'')) []]"
  have built: "make_nodes example_fetch example_org 3 None 0 [leaf_entry ''soc'', leaf_entry ''axi''] = Inr (4, ?root)"
    by (simp add: soc leaf numeral_eq_Suc)
  from conflicts_of_built_tree [OF built]
  have "map (\<lambda>(n, gs). (n, map oid gs)) (get_conflicts ?root) = [(''axi'', [1]), (''apb'', [2]), (''soc'', [0])]"
    by (simp add: leaf_entry_def)
  with built show ?thesis by (intro exI conjI)
qed

end
