(* ===== verification/Templates.thy ===== *)
theory Templates imports Py_Prelude begin

section \<open>Script templates\<close>

text \<open>
  The text templates of the \<open>*_defines.py\<close> modules of \<open>ipstools/ipstools\<close>, character for
  character, with their \<open>%s\<close> slots: \<open>CHR 0x09\<close> is a tab and \<open>CHR 0x5C\<close> a backslash.
  The collection \<open>fmt_simps\<close> holds what each template used by an exporter yields when filled: the
  number of its slots is the number of arguments its callers pass, so no call raises.  The
  collection \<open>fill_simps\<close> says the same without spelling the text out.
\<close>

named_theorems fmt_simps
named_theorems fill_simps

subsection \<open>Filling a template piece by piece\<close>

definition no_pct :: "string \<Rightarrow> bool" where
  "no_pct p \<longleftrightarrow> list_all (\<lambda>c. c \<noteq> CHR ''%'') p"

lemma fmt_fill:
  "no_pct p \<Longrightarrow> py_fmt p [] = Inr p"
  "no_pct p \<Longrightarrow> py_fmt (p @ ''%s'') [a] = Inr (p @ a)"
  "no_pct p \<Longrightarrow> py_fmt t as = Inr r \<Longrightarrow> py_fmt (p @ ''%s'' @ t) (a # as) = Inr (p @ a @ r)"
  "py_fmt t as = Inr r \<Longrightarrow> py_fmt (''%s'' @ t) (a # as) = Inr (a @ r)"
proof -
  have *: "no_pct p \<Longrightarrow> CHR ''%'' \<notin> set p" for p
    by (auto simp: no_pct_def list_all_iff)
  show "no_pct p \<Longrightarrow> py_fmt p [] = Inr p"
    by (rule py_fmt_const [OF *])
  show "no_pct p \<Longrightarrow> py_fmt (p @ ''%s'') [a] = Inr (p @ a)"
    by (simp add: py_fmt_plain [OF *])
  show "no_pct p \<Longrightarrow> py_fmt t as = Inr r \<Longrightarrow> py_fmt (p @ ''%s'' @ t) (a # as) = Inr (p @ a @ r)"
    by (simp add: py_fmt_plain [OF *])
  show "py_fmt t as = Inr r \<Longrightarrow> py_fmt (''%s'' @ t) (a # as) = Inr (a @ r)"
    by simp
qed

text \<open>The text of a filled template, when the number of arguments is right.\<close>

definition fill :: "string \<Rightarrow> string list \<Rightarrow> string" where
  "fill t args = (case py_fmt t args of Inl _ \<Rightarrow> [] | Inr r \<Rightarrow> r)"

lemma py_fmt_fill: "py_fmt t args = Inr r \<Longrightarrow> py_fmt t args = Inr (fill t args)"
  by (simp add: fill_def)

subsection \<open>ModelSim/QuestaSim scripts\<close>

definition VSIM_PREAMBLE :: string where
  "VSIM_PREAMBLE =
     ''#!/bin/tcsh\<newline>source ${PULP_PATH}/'' @
     ''%s'' @
     ''/vcompile/setup.csh\<newline>\<newline>##############################################################################\<newline># Settings\<newline>##############################################################################\<newline>\<newline>set IP='' @
     ''%s'' @
     ''\<newline>\<newline>##############################################################################\<newline># Check settings\<newline>##############################################################################\<newline>\<newline># check if environment variables are defined\<newline>if (! $?MSIM_LIBS_PATH ) then\<newline>  echo \"${Red} MSIM_LIBS_PATH is not defined ${NC}\"\<newline>  exit 1\<newline>endif\<newline>\<newline>if (! $?IPS_PATH ) then\<newline>  echo \"${Red} IPS_PATH is not defined ${NC}\"\<newline>  exit 1\<newline>endif\<newline>\<newline>set LIB_NAME=\"${IP}_lib\"\<newline>set LIB_PATH=\"${MSIM_LIBS_PATH}/${LIB_NAME}\"\<newline>set IP_PATH=\"${IPS_PATH}/'' @
     ''%s'' @
     ''\"\<newline>set RTL_PATH=\"${RTL_PATH}\"\<newline>\<newline>##############################################################################\<newline># Preparing library\<newline>##############################################################################\<newline>\<newline>echo \"${Green}--> Compiling ${IP}... ${NC}\"\<newline>\<newline>rm -rf $LIB_PATH\<newline>\<newline>vlib $LIB_PATH\<newline>vmap $LIB_NAME $LIB_PATH\<newline>\<newline>##############################################################################\<newline># Compiling RTL\<newline>##############################################################################\<newline>''"

definition VSIM_POSTAMBLE :: string where
  "VSIM_POSTAMBLE =
     ''\<newline>echo \"${Cyan}--> ${IP} compilation complete! ${NC}\"\<newline>exit 0\<newline>\<newline>##############################################################################\<newline># Error handler\<newline>##############################################################################\<newline>\<newline>error:\<newline>echo \"${NC}\"\<newline>exit 1\<newline>''"

definition VSIM_PREAMBLE_SUBIP :: string where
  "VSIM_PREAMBLE_SUBIP =
     ''\<newline>echo \"${Green}Compiling component: ${Brown} '' @
     ''%s'' @
     '' ${NC}\"\<newline>echo \"${Red}\"\<newline>''"

definition VSIM_VLOG_INCDIR_CMD :: string where
  "VSIM_VLOG_INCDIR_CMD =
     ''+incdir+''"

definition VSIM_VLOG_CMD :: string where
  "VSIM_VLOG_CMD =
     ''vlog -quiet -sv -suppress 2583 -work ${LIB_PATH} '' @
     ''%s'' @
     '' '' @
     ''%s'' @
     '' '' @
     ''%s'' @
     '' || goto error\<newline>''"

definition VSIM_VCOM_CMD :: string where
  "VSIM_VCOM_CMD =
     ''vcom -quiet -suppress 2583 -work ${LIB_PATH} '' @
     ''%s'' @
     '' '' @
     ''%s'' @
     '' || goto error\<newline>''"

definition VSIM_TCL_PREAMBLE :: string where
  "VSIM_TCL_PREAMBLE =
     ''set VSIM_'' @
     ''%s'' @
     (''_LIBS \" '' @ [CHR 0x5C] @ ''\<newline>'')"

definition VSIM_TCL_CMD :: string where
  "VSIM_TCL_CMD =
     ''  -L '' @
     ''%s'' @
     (''_lib '' @ [CHR 0x5C] @ ''\<newline>'')"

definition VSIM_TCL_POSTAMBLE :: string where
  "VSIM_TCL_POSTAMBLE =
     ''\"\<newline>''"

definition VCOMPILE_LIBS_PREAMBLE :: string where
  "VCOMPILE_LIBS_PREAMBLE =
     ''#!/usr/bin/tcsh\<newline>\<newline>echo \"\"\<newline>echo \"${Green}--> Compiling PULP IPs libraries... ${NC}\"\<newline>''"

definition VCOMPILE_LIBS_CMD :: string where
  "VCOMPILE_LIBS_CMD =
     ''tcsh ${PULP_PATH}/'' @
     ''%s'' @
     ''/vcompile/ips/vcompile_'' @
     ''%s'' @
     ''.csh || exit 1\<newline>''"

definition VCOMPILE_LIBS_XILINX_CMD :: string where
  "VCOMPILE_LIBS_XILINX_CMD =
     ''tcsh ${PULP_PATH}/fpga/sim/vcompile/ips/vcompile_'' @
     ''%s'' @
     ''.csh || exit 1\<newline>''"

subsection \<open>Makefiles\<close>

definition MK_PREAMBLE :: string where
  "MK_PREAMBLE =
     ''#\<newline># Copyright (C) 2016 ETH Zurich, University of Bologna\<newline># All rights reserved.\<newline>#\<newline># This software may be modified and distributed under the terms\<newline># of the BSD license.  See the LICENSE file for details.\<newline>#\<newline>\<newline>IP='' @
     ''%s'' @
     ''\<newline>IP_PATH='' @
     ''%s'' @
     ''/'' @
     ''%s'' @
     ''\<newline>LIB_NAME=$(IP)_lib\<newline>\<newline>include vcompile/build.mk\<newline>\<newline>.PHONY: vcompile-$(IP) '' @
     ''%s'' @
     ''\<newline>\<newline>vcompile-$(IP): $(LIB_PATH)/_vmake\<newline>\<newline>$(LIB_PATH)/_vmake : '' @
     ''%s'' @
     (''\<newline>'' @ [CHR 0x09] @ ''@touch $(LIB_PATH)/_vmake\<newline>'')"

definition MK_POSTAMBLE :: string where
  "MK_POSTAMBLE =
     ''\<newline>\<newline>''"

definition MK_SUBIPSRC :: string where
  "MK_SUBIPSRC =
     ''SRC_SVLOG_'' @
     ''%s'' @
     ''='' @
     ''%s'' @
     ''\<newline>SRC_VHDL_'' @
     ''%s'' @
     ''='' @
     ''%s'' @
     ''\<newline>''"

definition MK_SUBIPINC :: string where
  "MK_SUBIPINC =
     ''# '' @
     ''%s'' @
     '' component\<newline>INCDIR_'' @
     ''%s'' @
     ''='' @
     ''%s'' @
     ''\<newline>''"

definition MK_SUBIPRULE :: string where
  "MK_SUBIPRULE =
     ''vcompile-subip-'' @
     ''%s'' @
     '': $(LIB_PATH)/'' @
     ''%s'' @
     ''.vmake\<newline>\<newline>$(LIB_PATH)/'' @
     ''%s'' @
     ''.vmake: $(SRC_SVLOG_'' @
     ''%s'' @
     '') $(SRC_VHDL_'' @
     ''%s'' @
     ('')\<newline>'' @ [CHR 0x09] @ ''$(call subip_echo,'') @
     ''%s'' @
     ('')\<newline>'' @ [CHR 0x09]) @
     ''%s'' @
     (''\<newline>'' @ [CHR 0x09] @ ''@touch $(LIB_PATH)/'') @
     ''%s'' @
     ''.vmake\<newline>''"

definition MK_BUILDCMD_SVLOG_LINT :: string where
  "MK_BUILDCMD_SVLOG_LINT =
     ''$(SVLOG_LINT) '' @
     ''%s'' @
     '' $(INCDIR_'' @
     ''%s'' @
     '') $(SRC_SVLOG_'' @
     ''%s'' @
     '')''"

definition MK_BUILDCMD_VLOG_LINT :: string where
  "MK_BUILDCMD_VLOG_LINT =
     ''$(VLOG_LINT) '' @
     ''%s'' @
     '' $(INCDIR_'' @
     ''%s'' @
     '') $(SRC_'' @
     ''%s'' @
     '')''"

definition MK_BUILDCMD_SVLOG :: string where
  "MK_BUILDCMD_SVLOG =
     ''$(SVLOG_CC) -work $(LIB_PATH) '' @
     ''%s'' @
     '' $(INCDIR_'' @
     ''%s'' @
     '') $(SRC_SVLOG_'' @
     ''%s'' @
     '')''"

definition MK_BUILDCMD_VLOG :: string where
  "MK_BUILDCMD_VLOG =
     ''$(VLOG_CC) -work $(LIB_PATH) '' @
     ''%s'' @
     '' $(INCDIR_'' @
     ''%s'' @
     '') $(SRC_'' @
     ''%s'' @
     '')''"

definition MK_BUILDCMD_VHDL :: string where
  "MK_BUILDCMD_VHDL =
     ''$(VHDL_CC) -work $(LIB_PATH) '' @
     ''%s'' @
     '' $(SRC_VHDL_'' @
     ''%s'' @
     '')''"

definition MK_LIBS_PREAMBLE :: string where
  "MK_LIBS_PREAMBLE =
     ''#\<newline># Copyright (C) 2016-2018 ETH Zurich, University of Bologna\<newline># All rights reserved.\<newline>#\<newline># This software may be modified and distributed under the terms\<newline># of the BSD license.  See the LICENSE file for details.\<newline>#\<newline>\<newline>mkfile_path := $(dir $(abspath $(firstword $(MAKEFILE_LIST))))\<newline>\<newline>.PHONY: build clean lib\<newline>\<newline>build:''"

definition MK_LIBS_CLEAN :: string where
  "MK_LIBS_CLEAN =
     ''\<newline>clean:''"

definition MK_LIBS_LIB :: string where
  "MK_LIBS_LIB =
     ''\<newline>lib:''"

definition MK_LIBS_CMD :: string where
  "MK_LIBS_CMD =
     (''\<newline>'' @ [CHR 0x09] @ ''@make --no-print-directory -f $(mkfile_path)/ips/'') @
     ''%s'' @
     ''.mk '' @
     ''%s''"

definition MK_LIBS_CMD_RTL :: string where
  "MK_LIBS_CMD_RTL =
     (''\<newline>'' @ [CHR 0x09] @ ''@make --no-print-directory -f $(mkfile_path)/rtl/'') @
     ''%s'' @
     ''.mk '' @
     ''%s''"

subsection \<open>Makefiles for NCSim\<close>

definition MKN_PREAMBLE :: string where
  "MKN_PREAMBLE =
     ''#\<newline># Copyright (C) 2015-2017 ETH Zurich, University of Bologna\<newline># All rights reserved.\<newline>#\<newline># This software may be modified and distributed under the terms\<newline># of the BSD license.  See the LICENSE file for details.\<newline>#\<newline>\<newline>IP='' @
     ''%s'' @
     ''\<newline>IP_PATH='' @
     ''%s'' @
     ''/'' @
     ''%s'' @
     ''\<newline>LIB_NAME=$(IP)_lib\<newline>\<newline>include ncompile/build.mk\<newline>\<newline>.PHONY: ncompile-$(IP) '' @
     ''%s'' @
     ''\<newline>\<newline>ncompile-$(IP): $(LIB_PATH)/_nmake\<newline>\<newline>$(LIB_PATH)/_nmake : '' @
     ''%s'' @
     (''\<newline>'' @ [CHR 0x09] @ ''@touch $(LIB_PATH)/_nmake\<newline>'')"

definition MKN_SUBIPRULE :: string where
  "MKN_SUBIPRULE =
     ''ncompile-subip-'' @
     ''%s'' @
     '': $(LIB_PATH)/'' @
     ''%s'' @
     ''.nmake\<newline>\<newline>$(LIB_PATH)/'' @
     ''%s'' @
     ''.nmake: $(SRC_SVLOG_'' @
     ''%s'' @
     '') $(SRC_VHDL_'' @
     ''%s'' @
     ('')\<newline>'' @ [CHR 0x09] @ ''$(call subip_echo,'') @
     ''%s'' @
     ('')\<newline>'' @ [CHR 0x09]) @
     ''%s'' @
     (''\<newline>'' @ [CHR 0x09] @ ''@touch $(LIB_PATH)/'') @
     ''%s'' @
     ''.nmake\<newline>''"

definition MKN_BUILDCMD_SVLOG :: string where
  "MKN_BUILDCMD_SVLOG =
     ''$(SVLOG_CC) -work $(LIB_NAME) '' @
     ''%s'' @
     '' $(INCDIR_'' @
     ''%s'' @
     '') $(SRC_SVLOG_'' @
     ''%s'' @
     '')''"

definition MKN_BUILDCMD_VLOG :: string where
  "MKN_BUILDCMD_VLOG =
     ''$(VLOG_CC) -work $(LIB_NAME) '' @
     ''%s'' @
     '' $(INCDIR_'' @
     ''%s'' @
     '') $(SRC_'' @
     ''%s'' @
     '')''"

definition MKN_BUILDCMD_VHDL :: string where
  "MKN_BUILDCMD_VHDL =
     ''$(VHDL_CC) -work $(LIB_NAME) '' @
     ''%s'' @
     '' $(SRC_VHDL_'' @
     ''%s'' @
     '')''"

definition NCELAB_LIST_PREAMBLE :: string where
  "NCELAB_LIST_PREAMBLE =
     ''#\<newline># Copyright (C) 2015-2017 ETH Zurich, University of Bologna\<newline># All rights reserved.\<newline>#\<newline># This software may be modified and distributed under the terms\<newline># of the BSD license.  See the LICENSE file for details.\<newline>#\<newline>\<newline>export NCELAB_LIBS_'' @
     ''%s'' @
     (''= '' @ [CHR 0x5C] @ ''\<newline>'')"

definition NCELAB_LIST_CMD :: string where
  "NCELAB_LIST_CMD =
     ([CHR 0x09] @ ''-LIBNAME '') @
     ''%s'' @
     (''_lib '' @ [CHR 0x5C] @ ''\<newline>'')"

subsection \<open>Vivado scripts\<close>

definition VIVADO_PREAMBLE :: string where
  "VIVADO_PREAMBLE =
     ''if ![info exists PULP_HSA_SIM] {\<newline>    set RTL '' @
     ''%s'' @
     ''/'' @
     ''%s'' @
     ''\<newline>    set IPS '' @
     ''%s'' @
     ''/'' @
     ''%s'' @
     ''\<newline>    set FPGA_IPS ../ips\<newline>    set FPGA_RTL ../rtl\<newline>}\<newline>''"

definition VIVADO_PREAMBLE_SUBIP :: string where
  "VIVADO_PREAMBLE_SUBIP =
     ''\<newline># '' @
     ''%s'' @
     ''\<newline>set SRC_'' @
     ''%s'' @
     ('' \" '' @ [CHR 0x5C] @ ''\<newline>'')"

definition VIVADO_PREAMBLE_SUBIP_INCDIRS :: string where
  "VIVADO_PREAMBLE_SUBIP_INCDIRS =
     ''set INC_'' @
     ''%s'' @
     ('' \" '' @ [CHR 0x5C] @ ''\<newline>'')"

definition VIVADO_SUBIP_LIB :: string where
  "VIVADO_SUBIP_LIB =
     ''set LIB_'' @
     ''%s'' @
     ''\<newline>''"

definition VIVADO_POSTAMBLE_SUBIP :: string where
  "VIVADO_POSTAMBLE_SUBIP =
     ''\"\<newline>''"

definition VIVADO_ADD_FILES_CMD :: string where
  "VIVADO_ADD_FILES_CMD =
     ''add_files -norecurse -scan_for_includes $SRC_'' @
     ''%s'' @
     ''\<newline>''"

definition VIVADO_INC_DIRS_PREAMBLE :: string where
  "VIVADO_INC_DIRS_PREAMBLE =
     (''if ![info exists INCLUDE_DIRS] {\<newline>'' @ [CHR 0x09] @ ''set INCLUDE_DIRS \"\"\<newline>}\<newline>\<newline>eval \"set INCLUDE_DIRS {\<newline>    '') @
     ''%s'' @
     ''/'' @
     ''%s'' @
     (''/includes '' @ [CHR 0x5C] @ ''\<newline>'')"

definition VIVADO_INC_DIRS_CMD :: string where
  "VIVADO_INC_DIRS_CMD =
     ''    '' @
     ''%s'' @
     ''/'' @
     ''%s'' @
     ''/'' @
     ''%s'' @
     ('' '' @ [CHR 0x5C] @ ''\<newline>'')"

definition VIVADO_INC_DIRS_POSTAMBLE :: string where
  "VIVADO_INC_DIRS_POSTAMBLE =
     ([CHR 0x09] @ ''${INCLUDE_DIRS} '' @ [CHR 0x5C] @ ''\<newline>}\"\<newline>'')"

subsection \<open>Synopsys scripts\<close>

definition SYNOPSYS_ANALYZE_PREAMBLE :: string where
  "SYNOPSYS_ANALYZE_PREAMBLE =
     ''puts \"${Green}Analyzing '' @
     ''%s'' @
     '' ${NC}\"\<newline>''"

definition SYNOPSYS_ANALYZE_PREAMBLE_SUBIP :: string where
  "SYNOPSYS_ANALYZE_PREAMBLE_SUBIP =
     ''\<newline>puts \"${Green}--> compile '' @
     ''%s'' @
     ''${NC}\"\<newline>''"

definition SYNOPSYS_ANALYZE_SV_CMD :: string where
  "SYNOPSYS_ANALYZE_SV_CMD =
     ''analyze -format sverilog '' @
     ''%s'' @
     '' -work work ${'' @
     ''%s'' @
     ''_PATH}/'' @
     ''%s'' @
     ''\<newline>''"

definition SYNOPSYS_ANALYZE_V_CMD :: string where
  "SYNOPSYS_ANALYZE_V_CMD =
     ''analyze -format verilog  '' @
     ''%s'' @
     '' -work work ${'' @
     ''%s'' @
     ''_PATH}/'' @
     ''%s'' @
     ''\<newline>''"

definition SYNOPSYS_ANALYZE_VHDL_CMD :: string where
  "SYNOPSYS_ANALYZE_VHDL_CMD =
     ''analyze -format vhdl        -work '' @
     ''%s'' @
     ''_lib ${'' @
     ''%s'' @
     ''_PATH}/'' @
     ''%s'' @
     ''\<newline>''"

definition SYNOPSYS_ADD_IPS_FILES_CMD :: string where
  "SYNOPSYS_ADD_IPS_FILES_CMD =
     ''source scripts/analyze/ips/'' @
     ''%s'' @
     ''\<newline>''"

definition SYNOPSYS_ADD_RTL_FILES_CMD :: string where
  "SYNOPSYS_ADD_RTL_FILES_CMD =
     ''source scripts/analyze/rtl/'' @
     ''%s'' @
     ''\<newline>''"

subsection \<open>Cadence scripts\<close>

definition CADENCE_ANALYZE_PREAMBLE :: string where
  "CADENCE_ANALYZE_PREAMBLE =
     ''puts \"${Green}Analyzing '' @
     ''%s'' @
     '' ${NC}\"\<newline>''"

definition CADENCE_ANALYZE_PREAMBLE_SUBIP :: string where
  "CADENCE_ANALYZE_PREAMBLE_SUBIP =
     ''\<newline>puts \"${Green}--> compile '' @
     ''%s'' @
     ''${NC}\"\<newline>''"

definition CADENCE_ANALYZE_SV_CMD :: string where
  "CADENCE_ANALYZE_SV_CMD =
     ''read_hdl -sv '' @
     ''%s'' @
     '' -library work ${'' @
     ''%s'' @
     ''_PATH}/'' @
     ''%s'' @
     ''\<newline>''"

definition CADENCE_ANALYZE_V_CMD :: string where
  "CADENCE_ANALYZE_V_CMD =
     ''read_hdl -v  '' @
     ''%s'' @
     '' -library work ${'' @
     ''%s'' @
     ''_PATH}/'' @
     ''%s'' @
     ''\<newline>''"

definition CADENCE_ANALYZE_VHDL_CMD :: string where
  "CADENCE_ANALYZE_VHDL_CMD =
     ''read_hdl -vhdl  -library work ${'' @
     ''%s'' @
     ''_PATH}/'' @
     ''%s'' @
     ''\<newline>''"

subsection \<open>Verilator scripts\<close>

definition VERILATOR_PREAMBLE :: string where
  "VERILATOR_PREAMBLE =
     ''#!/bin/tcsh\<newline>\<newline>''"

definition VERILATOR_INCLUDES :: string where
  "VERILATOR_INCLUDES =
     ''set VERILATOR_INCLUDES=\"'' @
     ''%s'' @
     ''\" ''"

definition VERILATOR_COMMAND :: string where
  "VERILATOR_COMMAND =
     ''\<newline>\<newline>verilator +1800-2012ext+ --trace -CFLAGS -std=c++0x -cc --Mdir verilator_libs -Wno-fatal '' @
     ''%s'' @
     '' $VERILATOR_INCLUDES\<newline>\<newline>''"

subsection \<open>The filled templates\<close>

lemma fmt_VSIM_PREAMBLE [fmt_simps]:
  "py_fmt VSIM_PREAMBLE [a, b, c] =
     Inr (''#!/bin/tcsh\<newline>source ${PULP_PATH}/'' @
       a @
       ''/vcompile/setup.csh\<newline>\<newline>##############################################################################\<newline># Settings\<newline>##############################################################################\<newline>\<newline>set IP='' @
       b @
       ''\<newline>\<newline>##############################################################################\<newline># Check settings\<newline>##############################################################################\<newline>\<newline># check if environment variables are defined\<newline>if (! $?MSIM_LIBS_PATH ) then\<newline>  echo \"${Red} MSIM_LIBS_PATH is not defined ${NC}\"\<newline>  exit 1\<newline>endif\<newline>\<newline>if (! $?IPS_PATH ) then\<newline>  echo \"${Red} IPS_PATH is not defined ${NC}\"\<newline>  exit 1\<newline>endif\<newline>\<newline>set LIB_NAME=\"${IP}_lib\"\<newline>set LIB_PATH=\"${MSIM_LIBS_PATH}/${LIB_NAME}\"\<newline>set IP_PATH=\"${IPS_PATH}/'' @
       c @
       ''\"\<newline>set RTL_PATH=\"${RTL_PATH}\"\<newline>\<newline>##############################################################################\<newline># Preparing library\<newline>##############################################################################\<newline>\<newline>echo \"${Green}--> Compiling ${IP}... ${NC}\"\<newline>\<newline>rm -rf $LIB_PATH\<newline>\<newline>vlib $LIB_PATH\<newline>vmap $LIB_NAME $LIB_PATH\<newline>\<newline>##############################################################################\<newline># Compiling RTL\<newline>##############################################################################\<newline>'')"
  unfolding VSIM_PREAMBLE_def by (intro fmt_fill; simp add: no_pct_def)

lemma fill_VSIM_PREAMBLE [fill_simps]: "py_fmt VSIM_PREAMBLE [a, b, c] = Inr (fill VSIM_PREAMBLE [a, b, c])"
  by (rule py_fmt_fill) (rule fmt_VSIM_PREAMBLE)

lemma fmt_VSIM_PREAMBLE_SUBIP [fmt_simps]:
  "py_fmt VSIM_PREAMBLE_SUBIP [a] =
     Inr (''\<newline>echo \"${Green}Compiling component: ${Brown} '' @
       a @
       '' ${NC}\"\<newline>echo \"${Red}\"\<newline>'')"
  unfolding VSIM_PREAMBLE_SUBIP_def by (intro fmt_fill; simp add: no_pct_def)

lemma fill_VSIM_PREAMBLE_SUBIP [fill_simps]: "py_fmt VSIM_PREAMBLE_SUBIP [a] = Inr (fill VSIM_PREAMBLE_SUBIP [a])"
  by (rule py_fmt_fill) (rule fmt_VSIM_PREAMBLE_SUBIP)

lemma fmt_VSIM_VLOG_CMD [fmt_simps]:
  "py_fmt VSIM_VLOG_CMD [a, b, c] =
     Inr (''vlog -quiet -sv -suppress 2583 -work ${LIB_PATH} '' @
       a @
       '' '' @
       b @
       '' '' @
       c @
       '' || goto error\<newline>'')"
  unfolding VSIM_VLOG_CMD_def by (intro fmt_fill; simp add: no_pct_def)

lemma fill_VSIM_VLOG_CMD [fill_simps]: "py_fmt VSIM_VLOG_CMD [a, b, c] = Inr (fill VSIM_VLOG_CMD [a, b, c])"
  by (rule py_fmt_fill) (rule fmt_VSIM_VLOG_CMD)

lemma fmt_VSIM_VCOM_CMD [fmt_simps]:
  "py_fmt VSIM_VCOM_CMD [a, b] =
     Inr (''vcom -quiet -suppress 2583 -work ${LIB_PATH} '' @
       a @
       '' '' @
       b @
       '' || goto error\<newline>'')"
  unfolding VSIM_VCOM_CMD_def by (intro fmt_fill; simp add: no_pct_def)

lemma fill_VSIM_VCOM_CMD [fill_simps]: "py_fmt VSIM_VCOM_CMD [a, b] = Inr (fill VSIM_VCOM_CMD [a, b])"
  by (rule py_fmt_fill) (rule fmt_VSIM_VCOM_CMD)

lemma fmt_VSIM_TCL_PREAMBLE [fmt_simps]:
  "py_fmt VSIM_TCL_PREAMBLE [a] =
     Inr (''set VSIM_'' @
       a @
       (''_LIBS \" '' @ [CHR 0x5C] @ ''\<newline>''))"
  unfolding VSIM_TCL_PREAMBLE_def by (intro fmt_fill; simp add: no_pct_def)

lemma fill_VSIM_TCL_PREAMBLE [fill_simps]: "py_fmt VSIM_TCL_PREAMBLE [a] = Inr (fill VSIM_TCL_PREAMBLE [a])"
  by (rule py_fmt_fill) (rule fmt_VSIM_TCL_PREAMBLE)

lemma fmt_VSIM_TCL_CMD [fmt_simps]:
  "py_fmt VSIM_TCL_CMD [a] =
     Inr (''  -L '' @
       a @
       (''_lib '' @ [CHR 0x5C] @ ''\<newline>''))"
  unfolding VSIM_TCL_CMD_def by (intro fmt_fill; simp add: no_pct_def)

lemma fill_VSIM_TCL_CMD [fill_simps]: "py_fmt VSIM_TCL_CMD [a] = Inr (fill VSIM_TCL_CMD [a])"
  by (rule py_fmt_fill) (rule fmt_VSIM_TCL_CMD)

lemma fmt_MK_PREAMBLE [fmt_simps]:
  "py_fmt MK_PREAMBLE [a, b, c, d, e] =
     Inr (''#\<newline># Copyright (C) 2016 ETH Zurich, University of Bologna\<newline># All rights reserved.\<newline>#\<newline># This software may be modified and distributed under the terms\<newline># of the BSD license.  See the LICENSE file for details.\<newline>#\<newline>\<newline>IP='' @
       a @
       ''\<newline>IP_PATH='' @
       b @
       ''/'' @
       c @
       ''\<newline>LIB_NAME=$(IP)_lib\<newline>\<newline>include vcompile/build.mk\<newline>\<newline>.PHONY: vcompile-$(IP) '' @
       d @
       ''\<newline>\<newline>vcompile-$(IP): $(LIB_PATH)/_vmake\<newline>\<newline>$(LIB_PATH)/_vmake : '' @
       e @
       (''\<newline>'' @ [CHR 0x09] @ ''@touch $(LIB_PATH)/_vmake\<newline>''))"
  unfolding MK_PREAMBLE_def by (intro fmt_fill; simp add: no_pct_def)

lemma fill_MK_PREAMBLE [fill_simps]: "py_fmt MK_PREAMBLE [a, b, c, d, e] = Inr (fill MK_PREAMBLE [a, b, c, d, e])"
  by (rule py_fmt_fill) (rule fmt_MK_PREAMBLE)

lemma fmt_MK_SUBIPSRC [fmt_simps]:
  "py_fmt MK_SUBIPSRC [a, b, c, d] =
     Inr (''SRC_SVLOG_'' @
       a @
       ''='' @
       b @
       ''\<newline>SRC_VHDL_'' @
       c @
       ''='' @
       d @
       ''\<newline>'')"
  unfolding MK_SUBIPSRC_def by (intro fmt_fill; simp add: no_pct_def)

lemma fill_MK_SUBIPSRC [fill_simps]: "py_fmt MK_SUBIPSRC [a, b, c, d] = Inr (fill MK_SUBIPSRC [a, b, c, d])"
  by (rule py_fmt_fill) (rule fmt_MK_SUBIPSRC)

lemma fmt_MK_SUBIPINC [fmt_simps]:
  "py_fmt MK_SUBIPINC [a, b, c] =
     Inr (''# '' @
       a @
       '' component\<newline>INCDIR_'' @
       b @
       ''='' @
       c @
       ''\<newline>'')"
  unfolding MK_SUBIPINC_def by (intro fmt_fill; simp add: no_pct_def)

lemma fill_MK_SUBIPINC [fill_simps]: "py_fmt MK_SUBIPINC [a, b, c] = Inr (fill MK_SUBIPINC [a, b, c])"
  by (rule py_fmt_fill) (rule fmt_MK_SUBIPINC)

lemma fmt_MK_SUBIPRULE [fmt_simps]:
  "py_fmt MK_SUBIPRULE [a, b, c, d, e, f, g, h] =
     Inr (''vcompile-subip-'' @
       a @
       '': $(LIB_PATH)/'' @
       b @
       ''.vmake\<newline>\<newline>$(LIB_PATH)/'' @
       c @
       ''.vmake: $(SRC_SVLOG_'' @
       d @
       '') $(SRC_VHDL_'' @
       e @
       ('')\<newline>'' @ [CHR 0x09] @ ''$(call subip_echo,'') @
       f @
       ('')\<newline>'' @ [CHR 0x09]) @
       g @
       (''\<newline>'' @ [CHR 0x09] @ ''@touch $(LIB_PATH)/'') @
       h @
       ''.vmake\<newline>'')"
  unfolding MK_SUBIPRULE_def by (intro fmt_fill; simp add: no_pct_def)

lemma fill_MK_SUBIPRULE [fill_simps]: "py_fmt MK_SUBIPRULE [a, b, c, d, e, f, g, h] = Inr (fill MK_SUBIPRULE [a, b, c, d, e, f, g, h])"
  by (rule py_fmt_fill) (rule fmt_MK_SUBIPRULE)

lemma fmt_MK_BUILDCMD_SVLOG [fmt_simps]:
  "py_fmt MK_BUILDCMD_SVLOG [a, b, c] =
     Inr (''$(SVLOG_CC) -work $(LIB_PATH) '' @
       a @
       '' $(INCDIR_'' @
       b @
       '') $(SRC_SVLOG_'' @
       c @
       '')'')"
  unfolding MK_BUILDCMD_SVLOG_def by (intro fmt_fill; simp add: no_pct_def)

lemma fill_MK_BUILDCMD_SVLOG [fill_simps]: "py_fmt MK_BUILDCMD_SVLOG [a, b, c] = Inr (fill MK_BUILDCMD_SVLOG [a, b, c])"
  by (rule py_fmt_fill) (rule fmt_MK_BUILDCMD_SVLOG)

lemma fmt_MK_BUILDCMD_VHDL [fmt_simps]:
  "py_fmt MK_BUILDCMD_VHDL [a, b] =
     Inr (''$(VHDL_CC) -work $(LIB_PATH) '' @
       a @
       '' $(SRC_VHDL_'' @
       b @
       '')'')"
  unfolding MK_BUILDCMD_VHDL_def by (intro fmt_fill; simp add: no_pct_def)

lemma fill_MK_BUILDCMD_VHDL [fill_simps]: "py_fmt MK_BUILDCMD_VHDL [a, b] = Inr (fill MK_BUILDCMD_VHDL [a, b])"
  by (rule py_fmt_fill) (rule fmt_MK_BUILDCMD_VHDL)

lemma fmt_MK_LIBS_CMD [fmt_simps]:
  "py_fmt MK_LIBS_CMD [a, b] =
     Inr ((''\<newline>'' @ [CHR 0x09] @ ''@make --no-print-directory -f $(mkfile_path)/ips/'') @
       a @
       ''.mk '' @
       b)"
  unfolding MK_LIBS_CMD_def by (intro fmt_fill; simp add: no_pct_def)

lemma fill_MK_LIBS_CMD [fill_simps]: "py_fmt MK_LIBS_CMD [a, b] = Inr (fill MK_LIBS_CMD [a, b])"
  by (rule py_fmt_fill) (rule fmt_MK_LIBS_CMD)

lemma fmt_MK_LIBS_CMD_RTL [fmt_simps]:
  "py_fmt MK_LIBS_CMD_RTL [a, b] =
     Inr ((''\<newline>'' @ [CHR 0x09] @ ''@make --no-print-directory -f $(mkfile_path)/rtl/'') @
       a @
       ''.mk '' @
       b)"
  unfolding MK_LIBS_CMD_RTL_def by (intro fmt_fill; simp add: no_pct_def)

lemma fill_MK_LIBS_CMD_RTL [fill_simps]: "py_fmt MK_LIBS_CMD_RTL [a, b] = Inr (fill MK_LIBS_CMD_RTL [a, b])"
  by (rule py_fmt_fill) (rule fmt_MK_LIBS_CMD_RTL)

lemma fmt_MKN_PREAMBLE [fmt_simps]:
  "py_fmt MKN_PREAMBLE [a, b, c, d, e] =
     Inr (''#\<newline># Copyright (C) 2015-2017 ETH Zurich, University of Bologna\<newline># All rights reserved.\<newline>#\<newline># This software may be modified and distributed under the terms\<newline># of the BSD license.  See the LICENSE file for details.\<newline>#\<newline>\<newline>IP='' @
       a @
       ''\<newline>IP_PATH='' @
       b @
       ''/'' @
       c @
       ''\<newline>LIB_NAME=$(IP)_lib\<newline>\<newline>include ncompile/build.mk\<newline>\<newline>.PHONY: ncompile-$(IP) '' @
       d @
       ''\<newline>\<newline>ncompile-$(IP): $(LIB_PATH)/_nmake\<newline>\<newline>$(LIB_PATH)/_nmake : '' @
       e @
       (''\<newline>'' @ [CHR 0x09] @ ''@touch $(LIB_PATH)/_nmake\<newline>''))"
  unfolding MKN_PREAMBLE_def by (intro fmt_fill; simp add: no_pct_def)

lemma fill_MKN_PREAMBLE [fill_simps]: "py_fmt MKN_PREAMBLE [a, b, c, d, e] = Inr (fill MKN_PREAMBLE [a, b, c, d, e])"
  by (rule py_fmt_fill) (rule fmt_MKN_PREAMBLE)

lemma fmt_MKN_SUBIPRULE [fmt_simps]:
  "py_fmt MKN_SUBIPRULE [a, b, c, d, e, f, g, h] =
     Inr (''ncompile-subip-'' @
       a @
       '': $(LIB_PATH)/'' @
       b @
       ''.nmake\<newline>\<newline>$(LIB_PATH)/'' @
       c @
       ''.nmake: $(SRC_SVLOG_'' @
       d @
       '') $(SRC_VHDL_'' @
       e @
       ('')\<newline>'' @ [CHR 0x09] @ ''$(call subip_echo,'') @
       f @
       ('')\<newline>'' @ [CHR 0x09]) @
       g @
       (''\<newline>'' @ [CHR 0x09] @ ''@touch $(LIB_PATH)/'') @
       h @
       ''.nmake\<newline>'')"
  unfolding MKN_SUBIPRULE_def by (intro fmt_fill; simp add: no_pct_def)

lemma fill_MKN_SUBIPRULE [fill_simps]: "py_fmt MKN_SUBIPRULE [a, b, c, d, e, f, g, h] = Inr (fill MKN_SUBIPRULE [a, b, c, d, e, f, g, h])"
  by (rule py_fmt_fill) (rule fmt_MKN_SUBIPRULE)

lemma fmt_MKN_BUILDCMD_SVLOG [fmt_simps]:
  "py_fmt MKN_BUILDCMD_SVLOG [a, b, c] =
     Inr (''$(SVLOG_CC) -work $(LIB_NAME) '' @
       a @
       '' $(INCDIR_'' @
       b @
       '') $(SRC_SVLOG_'' @
       c @
       '')'')"
  unfolding MKN_BUILDCMD_SVLOG_def by (intro fmt_fill; simp add: no_pct_def)

lemma fill_MKN_BUILDCMD_SVLOG [fill_simps]: "py_fmt MKN_BUILDCMD_SVLOG [a, b, c] = Inr (fill MKN_BUILDCMD_SVLOG [a, b, c])"
  by (rule py_fmt_fill) (rule fmt_MKN_BUILDCMD_SVLOG)

lemma fmt_MKN_BUILDCMD_VHDL [fmt_simps]:
  "py_fmt MKN_BUILDCMD_VHDL [a, b] =
     Inr (''$(VHDL_CC) -work $(LIB_NAME) '' @
       a @
       '' $(SRC_VHDL_'' @
       b @
       '')'')"
  unfolding MKN_BUILDCMD_VHDL_def by (intro fmt_fill; simp add: no_pct_def)

lemma fill_MKN_BUILDCMD_VHDL [fill_simps]: "py_fmt MKN_BUILDCMD_VHDL [a, b] = Inr (fill MKN_BUILDCMD_VHDL [a, b])"
  by (rule py_fmt_fill) (rule fmt_MKN_BUILDCMD_VHDL)

lemma fmt_NCELAB_LIST_PREAMBLE [fmt_simps]:
  "py_fmt NCELAB_LIST_PREAMBLE [a] =
     Inr (''#\<newline># Copyright (C) 2015-2017 ETH Zurich, University of Bologna\<newline># All rights reserved.\<newline>#\<newline># This software may be modified and distributed under the terms\<newline># of the BSD license.  See the LICENSE file for details.\<newline>#\<newline>\<newline>export NCELAB_LIBS_'' @
       a @
       (''= '' @ [CHR 0x5C] @ ''\<newline>''))"
  unfolding NCELAB_LIST_PREAMBLE_def by (intro fmt_fill; simp add: no_pct_def)

lemma fill_NCELAB_LIST_PREAMBLE [fill_simps]: "py_fmt NCELAB_LIST_PREAMBLE [a] = Inr (fill NCELAB_LIST_PREAMBLE [a])"
  by (rule py_fmt_fill) (rule fmt_NCELAB_LIST_PREAMBLE)

lemma fmt_NCELAB_LIST_CMD [fmt_simps]:
  "py_fmt NCELAB_LIST_CMD [a] =
     Inr (([CHR 0x09] @ ''-LIBNAME '') @
       a @
       (''_lib '' @ [CHR 0x5C] @ ''\<newline>''))"
  unfolding NCELAB_LIST_CMD_def by (intro fmt_fill; simp add: no_pct_def)

lemma fill_NCELAB_LIST_CMD [fill_simps]: "py_fmt NCELAB_LIST_CMD [a] = Inr (fill NCELAB_LIST_CMD [a])"
  by (rule py_fmt_fill) (rule fmt_NCELAB_LIST_CMD)

lemma fmt_VIVADO_PREAMBLE [fmt_simps]:
  "py_fmt VIVADO_PREAMBLE [a, b, c, d] =
     Inr (''if ![info exists PULP_HSA_SIM] {\<newline>    set RTL '' @
       a @
       ''/'' @
       b @
       ''\<newline>    set IPS '' @
       c @
       ''/'' @
       d @
       ''\<newline>    set FPGA_IPS ../ips\<newline>    set FPGA_RTL ../rtl\<newline>}\<newline>'')"
  unfolding VIVADO_PREAMBLE_def by (intro fmt_fill; simp add: no_pct_def)

lemma fill_VIVADO_PREAMBLE [fill_simps]: "py_fmt VIVADO_PREAMBLE [a, b, c, d] = Inr (fill VIVADO_PREAMBLE [a, b, c, d])"
  by (rule py_fmt_fill) (rule fmt_VIVADO_PREAMBLE)

lemma fmt_VIVADO_PREAMBLE_SUBIP [fmt_simps]:
  "py_fmt VIVADO_PREAMBLE_SUBIP [a, b] =
     Inr (''\<newline># '' @
       a @
       ''\<newline>set SRC_'' @
       b @
       ('' \" '' @ [CHR 0x5C] @ ''\<newline>''))"
  unfolding VIVADO_PREAMBLE_SUBIP_def by (intro fmt_fill; simp add: no_pct_def)

lemma fill_VIVADO_PREAMBLE_SUBIP [fill_simps]: "py_fmt VIVADO_PREAMBLE_SUBIP [a, b] = Inr (fill VIVADO_PREAMBLE_SUBIP [a, b])"
  by (rule py_fmt_fill) (rule fmt_VIVADO_PREAMBLE_SUBIP)

lemma fmt_VIVADO_PREAMBLE_SUBIP_INCDIRS [fmt_simps]:
  "py_fmt VIVADO_PREAMBLE_SUBIP_INCDIRS [a] =
     Inr (''set INC_'' @
       a @
       ('' \" '' @ [CHR 0x5C] @ ''\<newline>''))"
  unfolding VIVADO_PREAMBLE_SUBIP_INCDIRS_def by (intro fmt_fill; simp add: no_pct_def)

lemma fill_VIVADO_PREAMBLE_SUBIP_INCDIRS [fill_simps]: "py_fmt VIVADO_PREAMBLE_SUBIP_INCDIRS [a] = Inr (fill VIVADO_PREAMBLE_SUBIP_INCDIRS [a])"
  by (rule py_fmt_fill) (rule fmt_VIVADO_PREAMBLE_SUBIP_INCDIRS)

lemma fmt_VIVADO_ADD_FILES_CMD [fmt_simps]:
  "py_fmt VIVADO_ADD_FILES_CMD [a] =
     Inr (''add_files -norecurse -scan_for_includes $SRC_'' @
       a @
       ''\<newline>'')"
  unfolding VIVADO_ADD_FILES_CMD_def by (intro fmt_fill; simp add: no_pct_def)

lemma fill_VIVADO_ADD_FILES_CMD [fill_simps]: "py_fmt VIVADO_ADD_FILES_CMD [a] = Inr (fill VIVADO_ADD_FILES_CMD [a])"
  by (rule py_fmt_fill) (rule fmt_VIVADO_ADD_FILES_CMD)

lemma fmt_VIVADO_INC_DIRS_PREAMBLE [fmt_simps]:
  "py_fmt VIVADO_INC_DIRS_PREAMBLE [a, b] =
     Inr ((''if ![info exists INCLUDE_DIRS] {\<newline>'' @ [CHR 0x09] @ ''set INCLUDE_DIRS \"\"\<newline>}\<newline>\<newline>eval \"set INCLUDE_DIRS {\<newline>    '') @
       a @
       ''/'' @
       b @
       (''/includes '' @ [CHR 0x5C] @ ''\<newline>''))"
  unfolding VIVADO_INC_DIRS_PREAMBLE_def by (intro fmt_fill; simp add: no_pct_def)

lemma fill_VIVADO_INC_DIRS_PREAMBLE [fill_simps]: "py_fmt VIVADO_INC_DIRS_PREAMBLE [a, b] = Inr (fill VIVADO_INC_DIRS_PREAMBLE [a, b])"
  by (rule py_fmt_fill) (rule fmt_VIVADO_INC_DIRS_PREAMBLE)

lemma fmt_VIVADO_INC_DIRS_CMD [fmt_simps]:
  "py_fmt VIVADO_INC_DIRS_CMD [a, b, c] =
     Inr (''    '' @
       a @
       ''/'' @
       b @
       ''/'' @
       c @
       ('' '' @ [CHR 0x5C] @ ''\<newline>''))"
  unfolding VIVADO_INC_DIRS_CMD_def by (intro fmt_fill; simp add: no_pct_def)

lemma fill_VIVADO_INC_DIRS_CMD [fill_simps]: "py_fmt VIVADO_INC_DIRS_CMD [a, b, c] = Inr (fill VIVADO_INC_DIRS_CMD [a, b, c])"
  by (rule py_fmt_fill) (rule fmt_VIVADO_INC_DIRS_CMD)

lemma fmt_SYNOPSYS_ANALYZE_PREAMBLE [fmt_simps]:
  "py_fmt SYNOPSYS_ANALYZE_PREAMBLE [a] =
     Inr (''puts \"${Green}Analyzing '' @
       a @
       '' ${NC}\"\<newline>'')"
  unfolding SYNOPSYS_ANALYZE_PREAMBLE_def by (intro fmt_fill; simp add: no_pct_def)

lemma fill_SYNOPSYS_ANALYZE_PREAMBLE [fill_simps]: "py_fmt SYNOPSYS_ANALYZE_PREAMBLE [a] = Inr (fill SYNOPSYS_ANALYZE_PREAMBLE [a])"
  by (rule py_fmt_fill) (rule fmt_SYNOPSYS_ANALYZE_PREAMBLE)

lemma fmt_SYNOPSYS_ANALYZE_PREAMBLE_SUBIP [fmt_simps]:
  "py_fmt SYNOPSYS_ANALYZE_PREAMBLE_SUBIP [a] =
     Inr (''\<newline>puts \"${Green}--> compile '' @
       a @
       ''${NC}\"\<newline>'')"
  unfolding SYNOPSYS_ANALYZE_PREAMBLE_SUBIP_def by (intro fmt_fill; simp add: no_pct_def)

lemma fill_SYNOPSYS_ANALYZE_PREAMBLE_SUBIP [fill_simps]: "py_fmt SYNOPSYS_ANALYZE_PREAMBLE_SUBIP [a] = Inr (fill SYNOPSYS_ANALYZE_PREAMBLE_SUBIP [a])"
  by (rule py_fmt_fill) (rule fmt_SYNOPSYS_ANALYZE_PREAMBLE_SUBIP)

lemma fmt_SYNOPSYS_ANALYZE_SV_CMD [fmt_simps]:
  "py_fmt SYNOPSYS_ANALYZE_SV_CMD [a, b, c] =
     Inr (''analyze -format sverilog '' @
       a @
       '' -work work ${'' @
       b @
       ''_PATH}/'' @
       c @
       ''\<newline>'')"
  unfolding SYNOPSYS_ANALYZE_SV_CMD_def by (intro fmt_fill; simp add: no_pct_def)

lemma fill_SYNOPSYS_ANALYZE_SV_CMD [fill_simps]: "py_fmt SYNOPSYS_ANALYZE_SV_CMD [a, b, c] = Inr (fill SYNOPSYS_ANALYZE_SV_CMD [a, b, c])"
  by (rule py_fmt_fill) (rule fmt_SYNOPSYS_ANALYZE_SV_CMD)

lemma fmt_SYNOPSYS_ANALYZE_V_CMD [fmt_simps]:
  "py_fmt SYNOPSYS_ANALYZE_V_CMD [a, b, c] =
     Inr (''analyze -format verilog  '' @
       a @
       '' -work work ${'' @
       b @
       ''_PATH}/'' @
       c @
       ''\<newline>'')"
  unfolding SYNOPSYS_ANALYZE_V_CMD_def by (intro fmt_fill; simp add: no_pct_def)

lemma fill_SYNOPSYS_ANALYZE_V_CMD [fill_simps]: "py_fmt SYNOPSYS_ANALYZE_V_CMD [a, b, c] = Inr (fill SYNOPSYS_ANALYZE_V_CMD [a, b, c])"
  by (rule py_fmt_fill) (rule fmt_SYNOPSYS_ANALYZE_V_CMD)

lemma fmt_SYNOPSYS_ANALYZE_VHDL_CMD [fmt_simps]:
  "py_fmt SYNOPSYS_ANALYZE_VHDL_CMD [a, b, c] =
     Inr (''analyze -format vhdl        -work '' @
       a @
       ''_lib ${'' @
       b @
       ''_PATH}/'' @
       c @
       ''\<newline>'')"
  unfolding SYNOPSYS_ANALYZE_VHDL_CMD_def by (intro fmt_fill; simp add: no_pct_def)

lemma fill_SYNOPSYS_ANALYZE_VHDL_CMD [fill_simps]: "py_fmt SYNOPSYS_ANALYZE_VHDL_CMD [a, b, c] = Inr (fill SYNOPSYS_ANALYZE_VHDL_CMD [a, b, c])"
  by (rule py_fmt_fill) (rule fmt_SYNOPSYS_ANALYZE_VHDL_CMD)

lemma fmt_CADENCE_ANALYZE_PREAMBLE [fmt_simps]:
  "py_fmt CADENCE_ANALYZE_PREAMBLE [a] =
     Inr (''puts \"${Green}Analyzing '' @
       a @
       '' ${NC}\"\<newline>'')"
  unfolding CADENCE_ANALYZE_PREAMBLE_def by (intro fmt_fill; simp add: no_pct_def)

lemma fill_CADENCE_ANALYZE_PREAMBLE [fill_simps]: "py_fmt CADENCE_ANALYZE_PREAMBLE [a] = Inr (fill CADENCE_ANALYZE_PREAMBLE [a])"
  by (rule py_fmt_fill) (rule fmt_CADENCE_ANALYZE_PREAMBLE)

lemma fmt_CADENCE_ANALYZE_PREAMBLE_SUBIP [fmt_simps]:
  "py_fmt CADENCE_ANALYZE_PREAMBLE_SUBIP [a] =
     Inr (''\<newline>puts \"${Green}--> compile '' @
       a @
       ''${NC}\"\<newline>'')"
  unfolding CADENCE_ANALYZE_PREAMBLE_SUBIP_def by (intro fmt_fill; simp add: no_pct_def)

lemma fill_CADENCE_ANALYZE_PREAMBLE_SUBIP [fill_simps]: "py_fmt CADENCE_ANALYZE_PREAMBLE_SUBIP [a] = Inr (fill CADENCE_ANALYZE_PREAMBLE_SUBIP [a])"
  by (rule py_fmt_fill) (rule fmt_CADENCE_ANALYZE_PREAMBLE_SUBIP)

lemma fmt_CADENCE_ANALYZE_SV_CMD [fmt_simps]:
  "py_fmt CADENCE_ANALYZE_SV_CMD [a, b, c] =
     Inr (''read_hdl -sv '' @
       a @
       '' -library work ${'' @
       b @
       ''_PATH}/'' @
       c @
       ''\<newline>'')"
  unfolding CADENCE_ANALYZE_SV_CMD_def by (intro fmt_fill; simp add: no_pct_def)

lemma fill_CADENCE_ANALYZE_SV_CMD [fill_simps]: "py_fmt CADENCE_ANALYZE_SV_CMD [a, b, c] = Inr (fill CADENCE_ANALYZE_SV_CMD [a, b, c])"
  by (rule py_fmt_fill) (rule fmt_CADENCE_ANALYZE_SV_CMD)

lemma fmt_CADENCE_ANALYZE_VHDL_CMD [fmt_simps]:
  "py_fmt CADENCE_ANALYZE_VHDL_CMD [a, b] =
     Inr (''read_hdl -vhdl  -library work ${'' @
       a @
       ''_PATH}/'' @
       b @
       ''\<newline>'')"
  unfolding CADENCE_ANALYZE_VHDL_CMD_def by (intro fmt_fill; simp add: no_pct_def)

lemma fill_CADENCE_ANALYZE_VHDL_CMD [fill_simps]: "py_fmt CADENCE_ANALYZE_VHDL_CMD [a, b] = Inr (fill CADENCE_ANALYZE_VHDL_CMD [a, b])"
  by (rule py_fmt_fill) (rule fmt_CADENCE_ANALYZE_VHDL_CMD)

end
