(* ===== verification/Sub_Ip.thy ===== *)
theory Sub_Ip imports Ips_Common Templates begin

section \<open>Sub-IPs and their compilation commands\<close>

text \<open>
  \<open>ipstools/ipstools/SubIPConfig.py\<close>: the mapping of a \<open>src_files.yml\<close> that describes one sub-IP,
  its schema checks, and the fragments of script each backend gets for it.  The fields keep the
  values of the mapping as they came, so an export of an ill-typed mapping raises what Python
  raises.  A name of a simulator is compared by \<open>is\<close> in the source: the callers pass the same
  interned literals, for which identity is equality.  What is printed is left out.
\<close>

subsection \<open>Kinds of source files\<close>

definition is_vhdl :: "pyval \<Rightarrow> bool res" where
  "is_vhdl f = res_bind (py_last 4 f) (\<lambda>t. res_map (\<lambda>s. s = ''.vhd'') (py_lower_val t))"

definition is_verilog_2001 :: "pyval \<Rightarrow> bool res" where
  "is_verilog_2001 f = res_bind (py_last 2 f) (\<lambda>t. res_map (\<lambda>s. s = ''.v'') (py_lower_val t))"

subsection \<open>The schema\<close>

definition ALLOWED_KEYS :: "string list" where
  "ALLOWED_KEYS = [''incdirs'', ''vlog_opts'', ''vcom_opts'', ''targets'', ''flags'', ''defines'', ''dir'']"

definition MANDATORY_KEYS :: "string list" where
  "MANDATORY_KEYS = [''files'']"

definition ALLOWED_TARGETS :: "string list" where
  "ALLOWED_TARGETS =
     [''all'', ''rtl'', ''verilator'', ''xilinx'', ''st28fdsoi'', ''umc65'', ''tsmc55'', ''tsmc40'',
      ''gf28'', ''gf22'', ''smic130'', ''smic110'']"

definition ALLOWED_FLAGS :: "string list" where
  "ALLOWED_FLAGS = [''skip_simulation'', ''skip_synthesis'', ''skip_tcsh'', ''only_local'']"

definition LEGACY_TCSH_BLACKLIST :: "string list" where
  "LEGACY_TCSH_BLACKLIST = []"

record sub_ip =
  s_ip_name :: string
  s_ip_path :: pyval
  s_name :: string
  s_name_alt :: string
  s_dic :: pyval
  s_files :: pyval
  s_targets :: pyval
  s_flags :: pyval
  s_incdirs :: pyval
  s_defines :: pyval
  s_vlog_opts :: string
  s_vcom_opts :: string

definition check_dic :: "pyval \<Rightarrow> unit res" where
  "check_dic dic =
     res_bind (py_keys dic) (\<lambda>ks.
       if \<not> list_ex (\<lambda>k. k \<in> set ks) MANDATORY_KEYS then Inl (SystemExit 1)
       else if list_ex (\<lambda>k. k \<notin> set MANDATORY_KEYS \<and> k \<notin> set ALLOWED_KEYS) ks
       then Inl (SystemExit 1)
       else Inr ())"

text \<open>\<open>set(v) - set(allowed) != set([])\<close> is fatal.\<close>

definition check_allowed :: "string list \<Rightarrow> pyval \<Rightarrow> unit res" where
  "check_allowed allowed v =
     res_bind (py_set v) (\<lambda>xs.
       if list_ex (\<lambda>x. \<not> list_ex (\<lambda>a. py_eq x (PStr a)) allowed) xs then Inl (SystemExit 1) else Inr ())"

definition get_files :: "pyval \<Rightarrow> pyval res" where
  "get_files dic = py_item dic ''files''"

definition get_defines :: "pyval \<Rightarrow> pyval res" where
  "get_defines dic = py_item_or dic ''defines'' (PList [])"

definition get_flags :: "pyval \<Rightarrow> pyval res" where
  "get_flags dic =
     res_bind (py_item_or dic ''flags'' (PList [])) (\<lambda>flags.
       res_map (\<lambda>_. flags) (check_allowed ALLOWED_FLAGS flags))"

definition get_targets :: "pyval \<Rightarrow> pyval res" where
  "get_targets dic =
     res_bind (py_item_or dic ''targets'' (pstrs [''all''])) (\<lambda>targets.
       res_map (\<lambda>_. targets) (check_allowed ALLOWED_TARGETS targets))"

definition get_incdirs :: "pyval \<Rightarrow> pyval res" where
  "get_incdirs dic = py_item_or dic ''incdirs'' (PList [])"

definition get_tech :: "pyval \<Rightarrow> pyval res" where
  "get_tech dic = py_item_or dic ''tech'' (PBool False)"

definition get_vlog_opts :: "pyval \<Rightarrow> string res" where
  "get_vlog_opts dic =
     res_catch KeyError (res_bind (py_item dic ''vlog_opts'') (py_join_val '' '')) (Inr [])"

definition get_vcom_opts :: "pyval \<Rightarrow> string res" where
  "get_vcom_opts dic =
     res_catch KeyError (res_bind (py_item dic ''vcom_opts'') (py_join_val '' '')) (Inr [])"

text \<open>\<open>SubIPConfig(ip_name, sub_ip_name, sub_ip_dic, ip_path)\<close>.\<close>

definition sub_ip_init :: "string \<Rightarrow> string \<Rightarrow> pyval \<Rightarrow> pyval \<Rightarrow> sub_ip res" where
  "sub_ip_init ip_name name dic ip_path =
     res_bind (check_dic dic) (\<lambda>_.
     res_bind (get_files dic) (\<lambda>files.
     res_bind (get_targets dic) (\<lambda>targets.
     res_bind (get_flags dic) (\<lambda>flags.
     res_bind (get_incdirs dic) (\<lambda>incdirs.
     res_bind (get_defines dic) (\<lambda>defines.
     res_bind (get_vlog_opts dic) (\<lambda>vlog_opts.
     res_bind (get_vcom_opts dic) (\<lambda>vcom_opts.
       Inr \<lparr>s_ip_name = ip_name, s_ip_path = ip_path, s_name = name, s_name_alt = prepare name,
            s_dic = dic, s_files = files, s_targets = targets, s_flags = flags,
            s_incdirs = incdirs, s_defines = defines, s_vlog_opts = vlog_opts,
            s_vcom_opts = vcom_opts\<rparr>))))))))"

subsection \<open>Tests on targets and flags\<close>

text \<open>\<open>x1 not in v and x2 not in v and ...\<close>, stopping at the first that is.\<close>

fun none_in :: "pyval list \<Rightarrow> pyval \<Rightarrow> bool res" where
  "none_in [] v = Inr True"
| "none_in (x # xs) v = res_bind (py_in x v) (\<lambda>b. if b then Inr False else none_in xs v)"

definition any_in :: "pyval list \<Rightarrow> pyval \<Rightarrow> bool res" where
  "any_in xs v = res_map Not (none_in xs v)"

text \<open>\<open>if c1: return x1  if c2: return x2 ... otherwise m\<close>, the conditions tried in order.\<close>

fun guarded :: "(bool res \<times> 'a) list \<Rightarrow> 'a res \<Rightarrow> 'a res" where
  "guarded [] m = m"
| "guarded ((c, x) # cs) m = res_bind c (\<lambda>b. if b then Inr x else guarded cs m)"

definition nl :: string where
  "nl = ''\<newline>''"

text \<open>\<open>for i in v: s += piece(i)\<close>.\<close>

definition append_each :: "(pyval \<Rightarrow> string res) \<Rightarrow> string \<Rightarrow> pyval \<Rightarrow> string res" where
  "append_each piece s v =
     res_bind (py_iter v) (\<lambda>xs. res_foldM (\<lambda>acc x. res_map (append acc) (piece x)) s xs)"

text \<open>\<open>for d in self.defines: defines = "%s +define+%s" % (defines, d)\<close>.\<close>

definition add_defines :: "string \<Rightarrow> string \<Rightarrow> pyval \<Rightarrow> string res" where
  "add_defines opt init v =
     res_bind (py_iter v) (\<lambda>xs.
       res_foldM (\<lambda>acc d. py_fmt (''%s '' @ opt @ ''%s'') [acc, py_str d]) init xs)"

subsection \<open>Makefiles\<close>

text \<open>
  The locals of \<open>export_make\<close> that are bound only for a known simulator: the templates of the rule,
  of the SystemVerilog and of the VHDL command, and the options.
\<close>

definition make_locals :: "string \<Rightarrow> sub_ip \<Rightarrow> (string \<times> string \<times> string \<times> string \<times> string) res" where
  "make_locals simulator s =
     (if simulator = ''vsim'' then
        Inr (MK_SUBIPRULE, MK_BUILDCMD_SVLOG, MK_BUILDCMD_VHDL, s_vlog_opts s, s_vcom_opts s)
      else if simulator = ''ncsim'' then
        Inr (MKN_SUBIPRULE, MKN_BUILDCMD_SVLOG, MKN_BUILDCMD_VHDL, [], [])
      else Inl UnboundLocalError)"

text \<open>\<open>linting\<close> is a local of the function: reading it before it is assigned raises.\<close>

definition make_linting :: "sub_ip \<Rightarrow> bool res" where
  "make_linting s =
     res_bind (py_in (PStr ''lint'') (s_targets s)) (\<lambda>lint.
       if \<not> lint then Inr False
       else res_bind (py_in (PStr ''skip_synthesis'') (s_flags s)) (\<lambda>skip.
         if skip then Inr False else Inl UnboundLocalError))"

text \<open>The lists of sources: \<open>vlog_files\<close> and \<open>vhdl_files\<close>, one continuation line per file.\<close>

definition make_sources :: "string \<Rightarrow> pyval \<Rightarrow> (string \<times> string) res" where
  "make_sources abs_path files =
     res_bind (py_iter files) (\<lambda>fs.
       res_foldM (\<lambda>(vlog, vhdl) f.
         res_bind (is_vhdl f) (\<lambda>b.
         res_map (\<lambda>piece. if b then (vlog, vhdl @ piece) else (vlog @ piece, vhdl))
           (py_fmt ([CHR 0x5C] @ ''\<newline>'' @ [CHR 0x09] @ ''%s/%s'') [abs_path, py_str f])))
         ([], []) fs)"

text \<open>The commands of the rule: the SystemVerilog and Verilog sources together, then the VHDL ones.\<close>

definition make_svlog_rule :: "string \<Rightarrow> pyval \<Rightarrow> string \<Rightarrow> sub_ip \<Rightarrow> string res" where
  "make_svlog_rule more_opts target_tech simulator s =
     res_bind
       (add_defines ''+define+''
         (if target_tech = PStr ''xilinx''
          then ''+define+PULP_FPGA_EMUL +define+PULP_FPGA_SIM -suppress 2583''
          else if simulator = ''vsim'' then ''-suppress 2583 -suppress 13314''
          else []) (s_defines s)) (\<lambda>defines.
     res_bind (make_locals simulator s) (\<lambda>(_, svlog, _, vlog_opts, _).
     res_bind (py_fmt ''%s %s %s'' [more_opts, vlog_opts, defines]) (\<lambda>opts.
     res_map (\<lambda>cmd. cmd @ ''\<newline>'' @ [CHR 0x09])
       (py_fmt svlog [opts, py_upper (s_name s), py_upper (s_name s)]))))"

definition make_vhdl_rule :: "string \<Rightarrow> string \<Rightarrow> sub_ip \<Rightarrow> string res" where
  "make_vhdl_rule more_opts simulator s =
     res_bind (make_locals simulator s) (\<lambda>(_, _, vhdl, _, vcom_opts).
     res_bind (py_fmt ''%s %s'' [more_opts, vcom_opts]) (\<lambda>opts.
     res_map (\<lambda>cmd. cmd @ nl) (py_fmt vhdl [opts, py_upper (s_name s)])))"

definition sub_export_make ::
  "string \<Rightarrow> string \<Rightarrow> pyval \<Rightarrow> bool \<Rightarrow> string \<Rightarrow> sub_ip \<Rightarrow> string res" where
  "sub_export_make abs_path more_opts target_tech loc simulator s =
     res_bind (none_in [PStr ''all'', PStr ''rtl'', target_tech] (s_targets s)) (\<lambda>excluded.
     res_bind (make_linting s) (\<lambda>linting.
     guarded
       [(Inr (excluded \<and> \<not> linting), nl),
        (res_map (\<lambda>b. b \<and> \<not> loc) (py_in (PStr ''only_local'') (s_flags s)), nl),
        (py_in (PStr ''skip_simulation'') (s_flags s), nl)]
       (res_bind (append_each (\<lambda>i. py_fmt ''+%s/%s'' [abs_path, py_str i]) [] (s_incdirs s)) (\<lambda>vlog_includes.
        res_bind (make_sources abs_path (s_files s)) (\<lambda>(vlog_files, vhdl_files).
        res_bind (if vlog_includes \<noteq> []
                  then py_fmt MK_SUBIPINC [s_name s, py_upper (s_name s), ''+incdir'' @ vlog_includes]
                  else Inr []) (\<lambda>inc.
        res_bind (py_fmt MK_SUBIPSRC
                   [py_upper (s_name s), vlog_files, py_upper (s_name s), vhdl_files]) (\<lambda>src.
        res_bind (if vlog_files \<noteq> [] then make_svlog_rule more_opts target_tech simulator s
                  else Inr []) (\<lambda>svlog.
        res_bind (if vhdl_files \<noteq> [] then make_vhdl_rule more_opts simulator s
                  else Inr []) (\<lambda>vhdl.
        res_bind (make_locals simulator s) (\<lambda>(rule, _, _, _, _).
        res_map (\<lambda>r. inc @ src @ nl @ r @ nl)
          (py_fmt rule [s_name s, s_name s, s_name s, py_upper (s_name s), py_upper (s_name s),
             s_name s, svlog @ vhdl, s_name s])))))))))))"

subsection \<open>ModelSim\<close>

text \<open>\<open>vlog_includes\<close> of the \<open>csh\<close> scripts.\<close>

definition vsim_includes :: "string \<Rightarrow> sub_ip \<Rightarrow> string res" where
  "vsim_includes abs_path s =
     append_each (\<lambda>i. py_fmt ''%s%s/%s'' [VSIM_VLOG_INCDIR_CMD, abs_path, py_str i]) [] (s_incdirs s)"

definition sub_export_vsim_xilinx :: "string \<Rightarrow> string \<Rightarrow> sub_ip \<Rightarrow> string res" where
  "sub_export_vsim_xilinx abs_path more_opts s =
     guarded
       [(none_in [PStr ''all'', PStr ''xilinx''] (s_targets s), nl),
        (py_in (PStr ''skip_simulation'') (s_flags s), nl)]
       (res_bind (py_fmt VSIM_PREAMBLE_SUBIP [s_name s]) (\<lambda>preamble.
        res_bind (vsim_includes abs_path s) (\<lambda>vlog_includes.
        append_each (\<lambda>f.
          res_bind (is_vhdl f) (\<lambda>vhdl.
          res_bind (py_fmt ''%s/%s'' [abs_path, py_str f]) (\<lambda>path.
            if \<not> vhdl then
              res_bind (py_fmt ''%s %s %s''
                [more_opts, '' +define+PULP_FPGA_EMUL +define+PULP_FPGA_SIM -suppress 2583'',
                 s_vlog_opts s]) (\<lambda>opts.
              py_fmt VSIM_VLOG_CMD [opts, vlog_includes, path])
            else
              res_bind (py_fmt ''%s %s'' [more_opts, s_vcom_opts s]) (\<lambda>opts.
              py_fmt VSIM_VCOM_CMD [opts, path]))))
          preamble (s_files s))))"

definition sub_export_vsim :: "string \<Rightarrow> string \<Rightarrow> pyval \<Rightarrow> bool \<Rightarrow> sub_ip \<Rightarrow> string res" where
  "sub_export_vsim abs_path more_opts target_tech loc s =
     res_bind (none_in [PStr ''all'', PStr ''rtl'', target_tech] (s_targets s)) (\<lambda>excluded.
     if excluded then Inr nl
     else if target_tech = PStr ''xilinx'' then sub_export_vsim_xilinx abs_path more_opts s
     else guarded
       [(res_map (\<lambda>b. b \<and> loc) (py_in (PStr ''only_local'') (s_flags s)), nl),
        (py_in (PStr ''skip_simulation'') (s_flags s), nl),
        (py_in (PStr ''skip_tcsh'') (s_flags s), nl),
        (Inr (s_ip_name s \<in> set LEGACY_TCSH_BLACKLIST), nl)]
       (res_bind (py_fmt VSIM_PREAMBLE_SUBIP [s_name s]) (\<lambda>preamble.
        res_bind (vsim_includes abs_path s) (\<lambda>vlog_includes.
        res_bind (add_defines ''+define+'' ''-suppress 2583'' (s_defines s)) (\<lambda>defines.
        append_each (\<lambda>f.
          res_bind (is_vhdl f) (\<lambda>vhdl.
          res_bind (py_fmt ''%s/%s'' [abs_path, py_str f]) (\<lambda>path.
            if \<not> vhdl then
              res_bind (py_fmt ''%s %s %s'' [more_opts, s_vlog_opts s, defines]) (\<lambda>opts.
              py_fmt VSIM_VLOG_CMD [opts, vlog_includes, path])
            else
              res_bind (py_fmt ''%s %s'' [more_opts, s_vcom_opts s]) (\<lambda>opts.
              py_fmt VSIM_VCOM_CMD [opts, path]))))
          preamble (s_files s))))))"

subsection \<open>Synthesis\<close>

definition sub_export_synopsys :: "pyval \<Rightarrow> pyval \<Rightarrow> string \<Rightarrow> sub_ip \<Rightarrow> string res" where
  "sub_export_synopsys path target_tech source s =
     guarded
       [(res_bind (py_in (PStr ''all'') (s_targets s)) (\<lambda>a.
           if a \<or> target_tech = PNone then Inr False
           else res_map Not (py_in target_tech (s_targets s))), nl),
        (py_in (PStr ''skip_synthesis'') (s_flags s), nl)]
       (res_bind (py_fmt SYNOPSYS_ANALYZE_PREAMBLE_SUBIP [s_name s]) (\<lambda>preamble.
        res_bind (add_defines ''-define '' [] (s_defines s)) (\<lambda>defines.
        append_each (\<lambda>f.
          res_bind (py_fmt ''%s/%s'' [py_str path, py_str f]) (\<lambda>file.
          res_bind (is_vhdl f) (\<lambda>vhdl.
            if vhdl then
              py_fmt SYNOPSYS_ANALYZE_VHDL_CMD [s_name s, py_upper source, file]
            else res_bind (is_verilog_2001 f) (\<lambda>v2001.
              if v2001 then py_fmt SYNOPSYS_ANALYZE_V_CMD [defines, py_upper source, file]
              else py_fmt SYNOPSYS_ANALYZE_SV_CMD [defines, py_upper source, file]))))
          preamble (s_files s))))"

definition sub_export_cadence :: "pyval \<Rightarrow> pyval \<Rightarrow> string \<Rightarrow> sub_ip \<Rightarrow> string res" where
  "sub_export_cadence path target_tech source s =
     guarded
       [(none_in [PStr ''all'', target_tech] (s_targets s), nl),
        (py_in (PStr ''skip_synthesis'') (s_flags s), nl)]
       (res_bind (py_fmt CADENCE_ANALYZE_PREAMBLE_SUBIP [s_name s]) (\<lambda>preamble.
        res_bind (add_defines ''-define '' [] (s_defines s)) (\<lambda>defines.
        append_each (\<lambda>f.
          res_bind (py_fmt ''%s/%s'' [py_str path, py_str f]) (\<lambda>file.
          res_bind (is_vhdl f) (\<lambda>vhdl.
            if \<not> vhdl then py_fmt CADENCE_ANALYZE_SV_CMD [defines, py_upper source, file]
            else py_fmt CADENCE_ANALYZE_VHDL_CMD [py_upper source, file])))
          preamble (s_files s))))"

definition vivado_line :: "string \<Rightarrow> pyval \<Rightarrow> pyval \<Rightarrow> string res" where
  "vivado_line abs_path ip_path f =
     py_fmt (''    %s/%s/%s '' @ [CHR 0x5C] @ ''\<newline>'') [abs_path, py_str ip_path, py_str f]"

definition sub_export_vivado :: "string \<Rightarrow> sub_ip \<Rightarrow> string res" where
  "sub_export_vivado abs_path s =
     guarded
       [(none_in [PStr ''all'', PStr ''xilinx''] (s_targets s), nl),
        (py_in (PStr ''skip_synthesis'') (s_flags s), nl)]
       (res_bind (py_fmt VIVADO_PREAMBLE_SUBIP [s_name s, prepare (py_upper (s_name s))]) (\<lambda>preamble.
        res_bind (append_each (vivado_line abs_path (s_ip_path s)) preamble (s_files s)) (\<lambda>srcs.
        res_bind (py_len (s_incdirs s)) (\<lambda>n.
          if 0 < n then
            res_bind (py_fmt VIVADO_PREAMBLE_SUBIP_INCDIRS [prepare (py_upper (s_name s))]) (\<lambda>incs.
            res_map (\<lambda>cmd. cmd @ VIVADO_POSTAMBLE_SUBIP)
              (append_each (vivado_line abs_path (s_ip_path s))
                (srcs @ VIVADO_POSTAMBLE_SUBIP @ incs) (s_incdirs s)))
          else Inr (srcs @ VIVADO_POSTAMBLE_SUBIP)))))"

definition sub_export_synplify :: "string \<Rightarrow> sub_ip \<Rightarrow> string res" where
  "sub_export_synplify abs_path s =
     guarded
       [(none_in [PStr ''all'', PStr ''xilinx''] (s_targets s), nl),
        (py_in (PStr ''skip_synthesis'') (s_flags s), nl)]
       (res_bind (py_len (s_files s)) (\<lambda>n.
        res_bind (if n = 0 then (case s_files s of PList _ \<Rightarrow> Inr () | _ \<Rightarrow> Inl AttributeError)
                  else Inr ()) (\<lambda>_.
        append_each (\<lambda>f.
          res_bind (is_vhdl f) (\<lambda>vhdl.
            py_fmt (if \<not> vhdl then ''add_file -verilog %s/%s/%s\<newline>'' else ''add_file -vhdl %s/%s/%s\<newline>'')
              [abs_path, py_str (s_ip_path s), py_str f]))
          [] (s_files s))))"

subsection \<open>Mappings of the documented types\<close>

text \<open>
  What the documentation asks for: every field a list of strings.  \<open>strs\<close> reads such a field, and
  \<open>targeted\<close> and \<open>flagged\<close> are the questions the exporters ask.
\<close>

fun is_pstr :: "pyval \<Rightarrow> bool" where
  "is_pstr (PStr s) = True"
| "is_pstr v = False"

fun is_pstrs :: "pyval \<Rightarrow> bool" where
  "is_pstrs (PList vs) = list_all is_pstr vs"
| "is_pstrs v = False"

fun the_pstr :: "pyval \<Rightarrow> string" where
  "the_pstr (PStr s) = s"
| "the_pstr v = []"

fun strs :: "pyval \<Rightarrow> string list" where
  "strs (PList vs) = map the_pstr vs"
| "strs v = []"

lemma strs_pstrs [simp]: "strs (pstrs ss) = ss"
  by (simp add: map_idI)

lemma is_pstrs_pstrs [simp]: "is_pstrs (pstrs ss)"
  by (simp add: list_all_iff)

lemma is_pstr_the: "is_pstr v \<Longrightarrow> PStr (the_pstr v) = v"
  by (cases v) auto

lemma is_pstrs_strs: "is_pstrs v \<Longrightarrow> v = pstrs (strs v)"
  by (cases v) (auto simp: list_all_iff is_pstr_the map_idI)

text \<open>The fields of a well-typed sub-IP read as lists of strings.\<close>

definition well_typed :: "sub_ip \<Rightarrow> bool" where
  "well_typed s \<longleftrightarrow> is_pstrs (s_files s) \<and> is_pstrs (s_targets s) \<and> is_pstrs (s_flags s) \<and>
     is_pstrs (s_incdirs s) \<and> is_pstrs (s_defines s)"

definition targeted :: "string \<Rightarrow> sub_ip \<Rightarrow> bool" where
  "targeted t s \<longleftrightarrow> t \<in> set (strs (s_targets s))"

definition flagged :: "string \<Rightarrow> sub_ip \<Rightarrow> bool" where
  "flagged t s \<longleftrightarrow> t \<in> set (strs (s_flags s))"

text \<open>A target technology is a string or \<open>None\<close>.\<close>

fun tech_ok :: "pyval \<Rightarrow> bool" where
  "tech_ok PNone = True"
| "tech_ok (PStr t) = True"
| "tech_ok v = False"

fun tech_targeted :: "pyval \<Rightarrow> sub_ip \<Rightarrow> bool" where
  "tech_targeted (PStr t) s = targeted t s"
| "tech_targeted v s = False"

lemma well_typed_fields:
  assumes "well_typed s"
  shows "s_files s = pstrs (strs (s_files s))" "s_targets s = pstrs (strs (s_targets s))"
    "s_flags s = pstrs (strs (s_flags s))" "s_incdirs s = pstrs (strs (s_incdirs s))"
    "s_defines s = pstrs (strs (s_defines s))"
  using assms is_pstrs_strs by (auto simp: well_typed_def)

lemma py_in_flags: "well_typed s \<Longrightarrow> py_in (PStr x) (s_flags s) = Inr (flagged x s)"
  using well_typed_fields(3) py_in_pstrs unfolding flagged_def by metis

lemma py_in_targets: "well_typed s \<Longrightarrow> py_in (PStr x) (s_targets s) = Inr (targeted x s)"
  using well_typed_fields(2) py_in_pstrs unfolding targeted_def by metis

lemma py_in_tech:
  assumes "well_typed s" and "tech_ok t"
  shows "py_in t (s_targets s) = Inr (tech_targeted t s)"
proof (cases t)
  case PNone
  then show ?thesis using well_typed_fields(2) [OF assms(1)] py_in_None_pstrs by (metis tech_targeted.simps(2))
qed (use assms in \<open>auto simp: py_in_targets\<close>)

lemma none_in_targets:
  assumes "well_typed s" and "list_all tech_ok xs"
  shows "none_in xs (s_targets s) = Inr (\<not> list_ex (\<lambda>t. tech_targeted t s) xs)"
  using assms(2) by (induction xs) (auto simp: py_in_tech [OF assms(1)])

lemmas wt_simps = py_in_flags py_in_targets py_in_tech none_in_targets

subsection \<open>Loops over typed fields\<close>

lemma append_each_pstrs:
  assumes "v = pstrs ss" and "\<And>x. x \<in> set ss \<Longrightarrow> piece (PStr x) = Inr (g x)"
  shows "append_each piece s v = Inr (s @ concat (map g ss))"
proof -
  have "res_foldM (\<lambda>acc x. res_map (append acc) (piece x)) s (map PStr ss) =
        Inr (s @ concat (map (\<lambda>x. g (the_pstr x)) (map PStr ss)))"
    by (rule res_foldM_concat) (auto simp: assms(2))
  then show ?thesis by (simp add: append_each_def assms(1) comp_def)
qed

lemma add_defines_pstrs:
  assumes "v = pstrs ds" and "CHR ''%'' \<notin> set opt"
  shows "add_defines opt init v = Inr (init @ concat (map (\<lambda>d. '' '' @ opt @ d) ds))"
proof -
  have step: "py_fmt (''%s '' @ opt @ ''%s'') [a, b] = Inr (a @ '' '' @ opt @ b)" for a b
    using assms(2) by (simp add: py_fmt_plain)
  have "res_foldM (\<lambda>acc d. py_fmt (''%s '' @ opt @ ''%s'') [acc, py_str d]) init (map PStr ds) =
        Inr (init @ concat (map (\<lambda>d. '' '' @ opt @ d) ds))"
    by (induction ds arbitrary: init) (simp_all only: list.map res_foldM.simps step py_str.simps
        res_bind_simps concat.simps append_Nil2 append_assoc)
  then show ?thesis by (simp add: add_defines_def assms(1))
qed

text \<open>Kinds of files by their name.\<close>

definition vhdl_file :: "string \<Rightarrow> bool" where
  "vhdl_file f \<longleftrightarrow> py_lower (slice_last 4 f) = ''.vhd''"

definition verilog_file :: "string \<Rightarrow> bool" where
  "verilog_file f \<longleftrightarrow> py_lower (slice_last 2 f) = ''.v''"

lemma is_vhdl_PStr [simp]: "is_vhdl (PStr f) = Inr (vhdl_file f)"
  by (simp add: is_vhdl_def vhdl_file_def)

lemma is_verilog_2001_PStr [simp]: "is_verilog_2001 (PStr f) = Inr (verilog_file f)"
  by (simp add: is_verilog_2001_def verilog_file_def)

subsection \<open>The constructor decides the schema\<close>

definition field :: "(string \<times> pyval) list \<Rightarrow> string \<Rightarrow> pyval \<Rightarrow> pyval" where
  "field kvs k dflt = (case map_of kvs k of None \<Rightarrow> dflt | Some v \<Rightarrow> v)"

definition values_typed :: "(string \<times> pyval) list \<Rightarrow> bool" where
  "values_typed kvs \<longleftrightarrow> list_all (\<lambda>(k, v). k = ''dir'' \<or> is_pstrs v) kvs"

definition schema_ok :: "(string \<times> pyval) list \<Rightarrow> bool" where
  "schema_ok kvs \<longleftrightarrow>
     ''files'' \<in> set (od_keys kvs) \<and>
     set (od_keys kvs) \<subseteq> set MANDATORY_KEYS \<union> set ALLOWED_KEYS \<and>
     set (strs (field kvs ''targets'' (pstrs [''all'']))) \<subseteq> set ALLOWED_TARGETS \<and>
     set (strs (field kvs ''flags'' (PList []))) \<subseteq> set ALLOWED_FLAGS"

text \<open>The sub-IP a schema-conforming mapping describes.\<close>

definition described :: "string \<Rightarrow> string \<Rightarrow> (string \<times> pyval) list \<Rightarrow> pyval \<Rightarrow> sub_ip" where
  "described ip_name name kvs ip_path =
     \<lparr>s_ip_name = ip_name, s_ip_path = ip_path, s_name = name, s_name_alt = prepare name,
      s_dic = PDict kvs, s_files = field kvs ''files'' PNone,
      s_targets = field kvs ''targets'' (pstrs [''all'']), s_flags = field kvs ''flags'' (PList []),
      s_incdirs = field kvs ''incdirs'' (PList []), s_defines = field kvs ''defines'' (PList []),
      s_vlog_opts = py_join '' '' (strs (field kvs ''vlog_opts'' (PList []))),
      s_vcom_opts = py_join '' '' (strs (field kvs ''vcom_opts'' (PList [])))\<rparr>"

lemma field_typed:
  assumes "values_typed kvs" and "k \<noteq> ''dir''" and "is_pstrs dflt"
  shows "is_pstrs (field kvs k dflt)"
proof (cases "map_of kvs k")
  case None
  then show ?thesis using assms(3) by (simp add: field_def)
next
  case (Some v)
  then have "(k, v) \<in> set kvs" by (rule map_of_SomeD)
  with assms Some show ?thesis by (auto simp: field_def values_typed_def list_all_iff)
qed

lemma check_dic_eq:
  "check_dic (PDict kvs) =
     (if ''files'' \<in> set (od_keys kvs) \<and> set (od_keys kvs) \<subseteq> set MANDATORY_KEYS \<union> set ALLOWED_KEYS
      then Inr () else Inl (SystemExit 1))"
proof -
  have "list_ex (\<lambda>k. k \<notin> set MANDATORY_KEYS \<and> k \<notin> set ALLOWED_KEYS) (od_keys kvs) \<longleftrightarrow>
        \<not> set (od_keys kvs) \<subseteq> set MANDATORY_KEYS \<union> set ALLOWED_KEYS"
    by (auto simp: list_ex_iff)
  moreover have "list_ex (\<lambda>k. k \<in> set (od_keys kvs)) MANDATORY_KEYS \<longleftrightarrow> ''files'' \<in> set (od_keys kvs)"
    by (simp add: MANDATORY_KEYS_def)
  ultimately show ?thesis by (simp add: check_dic_def)
qed

lemma check_allowed_pstrs:
  "check_allowed allowed (pstrs ss) = (if set ss \<subseteq> set allowed then Inr () else Inl (SystemExit 1))"
  by (auto simp: check_allowed_def list_ex_iff)

lemma check_allowed_typed:
  assumes "is_pstrs v"
  shows "check_allowed allowed v =
         (if set (strs v) \<subseteq> set allowed then Inr () else Inl (SystemExit 1))"
proof -
  have "v = pstrs (strs v)" using assms by (rule is_pstrs_strs)
  then have "check_allowed allowed v = check_allowed allowed (pstrs (strs v))" by (rule arg_cong)
  then show ?thesis by (simp only: check_allowed_pstrs)
qed

lemma get_opts_eq:
  assumes "is_pstrs (field kvs k (PList []))"
  shows "res_catch KeyError (res_bind (py_item (PDict kvs) k) (py_join_val '' '')) (Inr []) =
         Inr (py_join '' '' (strs (field kvs k (PList []))))"
proof (cases "map_of kvs k")
  case None
  then show ?thesis by (simp add: field_def od_get_def)
next
  case (Some v)
  with assms have "v = pstrs (strs v)" by (simp add: field_def is_pstrs_strs)
  then have "py_join_val '' '' v = py_join_val '' '' (pstrs (strs v))" by (rule arg_cong)
  with Some show ?thesis by (simp add: field_def od_get_def)
qed

lemma sub_ip_init_eq:
  assumes "values_typed kvs"
  shows "sub_ip_init ip_name name (PDict kvs) ip_path =
         (if schema_ok kvs then Inr (described ip_name name kvs ip_path) else Inl (SystemExit 1))"
proof (cases "''files'' \<in> set (od_keys kvs) \<and>
              set (od_keys kvs) \<subseteq> set MANDATORY_KEYS \<union> set ALLOWED_KEYS")
  case False
  then show ?thesis by (auto simp: sub_ip_init_def check_dic_eq schema_ok_def)
next
  case True
  then obtain files where files: "map_of kvs ''files'' = Some files"
    using map_of_od_keys [of kvs "''files''"] by fastforce
  let ?t = "field kvs ''targets'' (pstrs [''all''])" and ?f = "field kvs ''flags'' (PList [])"
  have t: "check_allowed ALLOWED_TARGETS ?t =
           (if set (strs ?t) \<subseteq> set ALLOWED_TARGETS then Inr () else Inl (SystemExit 1))"
    by (rule check_allowed_typed, rule field_typed [OF assms]) simp_all
  have f: "check_allowed ALLOWED_FLAGS ?f =
           (if set (strs ?f) \<subseteq> set ALLOWED_FLAGS then Inr () else Inl (SystemExit 1))"
    by (rule check_allowed_typed, rule field_typed [OF assms]) simp_all
  have or_field: "py_item_or (PDict kvs) k d = Inr (field kvs k d)" for k d
    by (simp add: field_def)
  have opts: "get_vlog_opts (PDict kvs) = Inr (py_join '' '' (strs (field kvs ''vlog_opts'' (PList []))))"
    "get_vcom_opts (PDict kvs) = Inr (py_join '' '' (strs (field kvs ''vcom_opts'' (PList []))))"
    unfolding get_vlog_opts_def get_vcom_opts_def
    by (rule get_opts_eq, rule field_typed [OF assms]; simp)+
  have fields: "get_files (PDict kvs) = Inr (field kvs ''files'' PNone)"
    "get_incdirs (PDict kvs) = Inr (field kvs ''incdirs'' (PList []))"
    "get_defines (PDict kvs) = Inr (field kvs ''defines'' (PList []))"
    using files by (simp_all add: get_files_def get_incdirs_def get_defines_def or_field field_def od_get_def)
  have checked: "get_targets (PDict kvs) =
      (if set (strs ?t) \<subseteq> set ALLOWED_TARGETS then Inr ?t else Inl (SystemExit 1))"
    "get_flags (PDict kvs) =
      (if set (strs ?f) \<subseteq> set ALLOWED_FLAGS then Inr ?f else Inl (SystemExit 1))"
    by (simp_all only: get_targets_def get_flags_def or_field t f res_bind_simps) auto
  from True show ?thesis
    by (simp only: sub_ip_init_def check_dic_eq if_True res_bind_simps fields checked opts)
       (simp add: schema_ok_def described_def)
qed

text \<open>Property C12. On a mapping whose fields are lists of strings the constructor accepts exactly the
  mappings of the schema: it has its mandatory key, only known keys, only known targets and flags.
  What it accepts becomes the described sub-IP, with \<open>all\<close> as the default target and empty
  defaults elsewhere; anything else ends the program with status 1.  The schema is the one of the
  constants of \<open>SubIPConfig.py\<close>, which is wider than the documented one: \<open>doc/src_files.rst\<close> has neither
  the key \<open>dir\<close> nor the targets \<open>rtl\<close> and \<open>smic110\<close>.\<close>
theorem sub_ip_init_decides:
  assumes "values_typed kvs"
  shows "sub_ip_init ip_name name (PDict kvs) ip_path =
         (if schema_ok kvs then Inr (described ip_name name kvs ip_path) else Inl (SystemExit 1))"
  using assms by (rule sub_ip_init_eq)

theorem sub_ip_init_decides_witness:
  "sub_ip_init ''axi'' ''axi_slice'' (PDict [(''files'', pstrs [''a.sv'']), (''targets'', pstrs [''gf22''])]) (PStr ''axi'') =
     Inr (described ''axi'' ''axi_slice'' [(''files'', pstrs [''a.sv'']), (''targets'', pstrs [''gf22''])] (PStr ''axi'')) \<and>
   sub_ip_init ''axi'' ''axi_slice'' (PDict [(''files'', pstrs [''a.sv'']), (''targets'', pstrs [''lint''])]) (PStr ''axi'') =
     Inl (SystemExit 1)"
proof -
  have "values_typed [(''files'', pstrs [''a.sv'']), (''targets'', pstrs [''gf22''])]"
    "values_typed [(''files'', pstrs [''a.sv'']), (''targets'', pstrs [''lint''])]"
    by (simp_all add: values_typed_def)
  moreover have "schema_ok [(''files'', pstrs [''a.sv'']), (''targets'', pstrs [''gf22''])]"
    "\<not> schema_ok [(''files'', pstrs [''a.sv'']), (''targets'', pstrs [''lint''])]"
    by (simp_all add: schema_ok_def MANDATORY_KEYS_def ALLOWED_KEYS_def ALLOWED_TARGETS_def field_def)
  ultimately show ?thesis
    using sub_ip_init_decides [of "[(''files'', pstrs [''a.sv'']), (''targets'', pstrs [''gf22''])]"]
      sub_ip_init_decides [of "[(''files'', pstrs [''a.sv'']), (''targets'', pstrs [''lint''])]"]
    by simp
qed

lemma described_well_typed:
  assumes "values_typed kvs" and "schema_ok kvs"
  shows "well_typed (described ip_name name kvs ip_path)"
proof -
  have "''files'' \<in> set (od_keys kvs)" using assms(2) by (simp add: schema_ok_def)
  then obtain v where "map_of kvs ''files'' = Some v" using map_of_od_keys [of kvs "''files''"] by fastforce
  then have "field kvs ''files'' PNone = field kvs ''files'' (PList [])" by (simp add: field_def)
  then show ?thesis
    by (simp add: well_typed_def described_def field_typed [OF assms(1)])
qed

lemma sub_ip_init_Inr:
  assumes "sub_ip_init ip_name name dic ip_path = Inr s"
  shows "s_ip_name s = ip_name" "s_name s = name" "s_ip_path s = ip_path" "s_dic s = dic"
    "get_targets dic = Inr (s_targets s)" "get_flags dic = Inr (s_flags s)"
  using assms by (auto simp: sub_ip_init_def res_bind_Inr_iff)

lemma allowed_not_in:
  assumes "check_allowed allowed v = Inr u" and "x \<notin> set allowed" and "x \<noteq> []"
    and "\<forall>a\<in>set allowed. 2 \<le> length a"
  shows "py_in (PStr x) v = Inr False"
proof -
  have some: "\<exists>a\<in>set allowed. y = PStr a" if "py_iter v = Inr ys" and "y \<in> set ys" for y ys
    using assms(1) that by (auto simp: check_allowed_def py_set_def list_ex_iff split: if_splits)
  show ?thesis
  proof (cases v)
    case (PStr t)
    have "t = []"
    proof (cases t)
      case (Cons c t')
      then obtain a where "a \<in> set allowed" "[c] = a" using some [of _ "PStr [c]"] PStr by auto
      with assms(4) show ?thesis by fastforce
    qed
    with PStr assms(3) show ?thesis by simp
  next
    case (PList vs)
    then show ?thesis using some [of vs] assms(2) by (auto simp: list_ex_iff)
  next
    case (PDict kvs)
    then show ?thesis using some [of "map PStr (od_keys kvs)"] assms(2) by (auto simp: list_ex_iff)
  qed (use assms(1) in \<open>auto simp: check_allowed_def py_set_def\<close>)
qed

lemma make_linting_constructed:
  assumes "sub_ip_init ip_name name dic ip_path = Inr s"
  shows "make_linting s = Inr False"
proof -
  have "\<exists>u. check_allowed ALLOWED_TARGETS (s_targets s) = Inr u"
    using sub_ip_init_Inr(5) [OF assms] by (auto simp: get_targets_def res_iffs)
  moreover have "''lint'' \<notin> set ALLOWED_TARGETS" "\<forall>a\<in>set ALLOWED_TARGETS. 2 \<le> length a"
    by (simp_all add: ALLOWED_TARGETS_def)
  ultimately have "py_in (PStr ''lint'') (s_targets s) = Inr False"
    using allowed_not_in by blast
  then show ?thesis by (simp add: make_linting_def)
qed

text \<open>For every sub-IP the constructor accepts, whatever the types in its mapping, the
  lint branch of \<open>export_make\<close> is dead: \<open>lint\<close> is not a known target, so the local \<open>linting\<close> that
  the function reads before assigning it is never read and stays false.\<close>
theorem lint_branch_dead:
  assumes "sub_ip_init ip_name name dic ip_path = Inr s"
  shows "make_linting s = Inr False"
  using assms by (rule make_linting_constructed)

theorem lint_branch_dead_witness:
  "make_linting (described ''a'' ''b'' [(''files'', PList [])] PNone) = Inr False"
  by (rule lint_branch_dead [of "''a''" "''b''" "PDict [(''files'', PList [])]" PNone])
     (simp add: sub_ip_init_def check_dic_def MANDATORY_KEYS_def get_files_def get_targets_def get_flags_def
       get_incdirs_def get_defines_def get_vlog_opts_def get_vcom_opts_def od_get_def check_allowed_def
       py_set_def ALLOWED_TARGETS_def described_def field_def)

subsection \<open>What the exports are for\<close>

text \<open>
  The specification of the exporters on well-typed sub-IPs: when a backend gets the sub-IP at all
  (\<open>..._active\<close>), and then one command per source file, in the order of the list.
\<close>

definition under :: "string \<Rightarrow> string \<Rightarrow> string" where
  "under d f = d @ ''/'' @ f"

definition defines_text :: "string \<Rightarrow> sub_ip \<Rightarrow> string" where
  "defines_text opt s = concat (map (\<lambda>d. '' '' @ opt @ d) (strs (s_defines s)))"

definition make_active :: "pyval \<Rightarrow> bool \<Rightarrow> sub_ip \<Rightarrow> bool" where
  "make_active tech loc s \<longleftrightarrow>
     (targeted ''all'' s \<or> targeted ''rtl'' s \<or> tech_targeted tech s) \<and>
     (flagged ''only_local'' s \<longrightarrow> loc) \<and> \<not> flagged ''skip_simulation'' s"

definition vsim_active :: "pyval \<Rightarrow> bool \<Rightarrow> sub_ip \<Rightarrow> bool" where
  "vsim_active tech loc s \<longleftrightarrow>
     (targeted ''all'' s \<or> targeted ''rtl'' s \<or> tech_targeted tech s) \<and>
     \<not> flagged ''skip_simulation'' s \<and>
     (if tech = PStr ''xilinx'' then targeted ''all'' s \<or> targeted ''xilinx'' s
      else \<not> (flagged ''only_local'' s \<and> loc) \<and> \<not> flagged ''skip_tcsh'' s)"

definition synth_active :: "string \<Rightarrow> sub_ip \<Rightarrow> bool" where
  "synth_active tech s \<longleftrightarrow>
     (targeted ''all'' s \<or> targeted tech s) \<and> \<not> flagged ''skip_synthesis'' s"

definition vsim_command :: "string \<Rightarrow> string \<Rightarrow> pyval \<Rightarrow> sub_ip \<Rightarrow> string \<Rightarrow> string" where
  "vsim_command abs_path more_opts tech s f =
     (if vhdl_file f then
        fill VSIM_VCOM_CMD [more_opts @ '' '' @ s_vcom_opts s, under abs_path f]
      else
        fill VSIM_VLOG_CMD
          [if tech = PStr ''xilinx''
           then more_opts @ ''  +define+PULP_FPGA_EMUL +define+PULP_FPGA_SIM -suppress 2583 '' @ s_vlog_opts s
           else more_opts @ '' '' @ s_vlog_opts s @ '' -suppress 2583'' @ defines_text ''+define+'' s,
           concat (map (\<lambda>i. ''+incdir+'' @ under abs_path i) (strs (s_incdirs s))),
           under abs_path f])"

definition vsim_spec :: "string \<Rightarrow> string \<Rightarrow> pyval \<Rightarrow> bool \<Rightarrow> sub_ip \<Rightarrow> string" where
  "vsim_spec abs_path more_opts tech loc s =
     (if vsim_active tech loc s then
        fill VSIM_PREAMBLE_SUBIP [s_name s] @
        concat (map (vsim_command abs_path more_opts tech s) (strs (s_files s)))
      else nl)"

definition synopsys_command :: "pyval \<Rightarrow> string \<Rightarrow> sub_ip \<Rightarrow> string \<Rightarrow> string" where
  "synopsys_command path source s f =
     (let file = under (py_str path) f; defs = defines_text ''-define '' s in
      if vhdl_file f then fill SYNOPSYS_ANALYZE_VHDL_CMD [s_name s, py_upper source, file]
      else if verilog_file f then fill SYNOPSYS_ANALYZE_V_CMD [defs, py_upper source, file]
      else fill SYNOPSYS_ANALYZE_SV_CMD [defs, py_upper source, file])"

definition synopsys_spec :: "pyval \<Rightarrow> pyval \<Rightarrow> string \<Rightarrow> sub_ip \<Rightarrow> string" where
  "synopsys_spec path tech source s =
     (if (targeted ''all'' s \<or> tech = PNone \<or> tech_targeted tech s) \<and> \<not> flagged ''skip_synthesis'' s then
        fill SYNOPSYS_ANALYZE_PREAMBLE_SUBIP [s_name s] @
        concat (map (synopsys_command path source s) (strs (s_files s)))
      else nl)"

definition cadence_command :: "pyval \<Rightarrow> string \<Rightarrow> sub_ip \<Rightarrow> string \<Rightarrow> string" where
  "cadence_command path source s f =
     (if vhdl_file f then fill CADENCE_ANALYZE_VHDL_CMD [py_upper source, under (py_str path) f]
      else fill CADENCE_ANALYZE_SV_CMD
             [defines_text ''-define '' s, py_upper source, under (py_str path) f])"

definition cadence_spec :: "pyval \<Rightarrow> pyval \<Rightarrow> string \<Rightarrow> sub_ip \<Rightarrow> string" where
  "cadence_spec path tech source s =
     (if (targeted ''all'' s \<or> tech_targeted tech s) \<and> \<not> flagged ''skip_synthesis'' s then
        fill CADENCE_ANALYZE_PREAMBLE_SUBIP [s_name s] @
        concat (map (cadence_command path source s) (strs (s_files s)))
      else nl)"

definition vivado_entry :: "string \<Rightarrow> sub_ip \<Rightarrow> string \<Rightarrow> string" where
  "vivado_entry abs_path s f =
     ''    '' @ under abs_path (under (py_str (s_ip_path s)) f) @ '' '' @ [CHR 0x5C] @ nl"

definition vivado_spec :: "string \<Rightarrow> sub_ip \<Rightarrow> string" where
  "vivado_spec abs_path s =
     (if synth_active ''xilinx'' s then
        fill VIVADO_PREAMBLE_SUBIP [s_name s, prepare (py_upper (s_name s))] @
        concat (map (vivado_entry abs_path s) (strs (s_files s))) @ VIVADO_POSTAMBLE_SUBIP @
        (if s_incdirs s = PList [] then [] else
           fill VIVADO_PREAMBLE_SUBIP_INCDIRS [prepare (py_upper (s_name s))] @
           concat (map (vivado_entry abs_path s) (strs (s_incdirs s))) @ VIVADO_POSTAMBLE_SUBIP)
      else nl)"

definition synplify_spec :: "string \<Rightarrow> sub_ip \<Rightarrow> string" where
  "synplify_spec abs_path s =
     (if synth_active ''xilinx'' s then
        concat (map (\<lambda>f. (if vhdl_file f then ''add_file -vhdl '' else ''add_file -verilog '') @
                         under abs_path (under (py_str (s_ip_path s)) f) @ nl) (strs (s_files s)))
      else nl)"

text \<open>The sources of the make rule, by language, and the rule itself.\<close>

definition make_line :: "string \<Rightarrow> string \<Rightarrow> string" where
  "make_line abs_path f = [CHR 0x5C] @ nl @ [CHR 0x09] @ under abs_path f"

definition make_vars :: "string \<Rightarrow> sub_ip \<Rightarrow> string" where
  "make_vars abs_path s =
     (if strs (s_incdirs s) = [] then []
      else fill MK_SUBIPINC [s_name s, py_upper (s_name s),
             ''+incdir'' @ concat (map (\<lambda>i. ''+'' @ under abs_path i) (strs (s_incdirs s)))]) @
     fill MK_SUBIPSRC
       [py_upper (s_name s),
        concat (map (make_line abs_path) (filter (\<lambda>f. \<not> vhdl_file f) (strs (s_files s)))),
        py_upper (s_name s),
        concat (map (make_line abs_path) (filter vhdl_file (strs (s_files s))))] @ nl"

definition make_defines :: "pyval \<Rightarrow> bool \<Rightarrow> sub_ip \<Rightarrow> string" where
  "make_defines tech vsim s =
     (if tech = PStr ''xilinx'' then ''+define+PULP_FPGA_EMUL +define+PULP_FPGA_SIM -suppress 2583''
      else if vsim then ''-suppress 2583 -suppress 13314'' else []) @ defines_text ''+define+'' s"

definition make_svlog_part :: "string \<Rightarrow> pyval \<Rightarrow> bool \<Rightarrow> sub_ip \<Rightarrow> string" where
  "make_svlog_part more_opts tech vsim s =
     (if list_ex (\<lambda>f. \<not> vhdl_file f) (strs (s_files s)) then
        fill (if vsim then MK_BUILDCMD_SVLOG else MKN_BUILDCMD_SVLOG)
          [more_opts @ '' '' @ (if vsim then s_vlog_opts s else []) @ '' '' @ make_defines tech vsim s,
           py_upper (s_name s), py_upper (s_name s)] @ nl @ [CHR 0x09]
      else [])"

definition make_vhdl_part :: "string \<Rightarrow> bool \<Rightarrow> sub_ip \<Rightarrow> string" where
  "make_vhdl_part more_opts vsim s =
     (if list_ex vhdl_file (strs (s_files s)) then
        fill (if vsim then MK_BUILDCMD_VHDL else MKN_BUILDCMD_VHDL)
          [more_opts @ '' '' @ (if vsim then s_vcom_opts s else []), py_upper (s_name s)] @ nl
      else [])"

definition make_rule :: "string \<Rightarrow> pyval \<Rightarrow> bool \<Rightarrow> sub_ip \<Rightarrow> string" where
  "make_rule more_opts tech vsim s = make_svlog_part more_opts tech vsim s @ make_vhdl_part more_opts vsim s"

definition make_spec :: "string \<Rightarrow> string \<Rightarrow> pyval \<Rightarrow> bool \<Rightarrow> bool \<Rightarrow> sub_ip \<Rightarrow> string" where
  "make_spec abs_path more_opts tech loc vsim s =
     (if make_active tech loc s then
        make_vars abs_path s @
        fill (if vsim then MK_SUBIPRULE else MKN_SUBIPRULE)
          [s_name s, s_name s, s_name s, py_upper (s_name s), py_upper (s_name s), s_name s,
           make_rule more_opts tech vsim s, s_name s] @ nl
      else nl)"

subsection \<open>The exporters meet it\<close>

lemma slash_fmt [simp]: "py_fmt ''%s/%s'' [a, b] = Inr (under a b)"
  by (simp add: under_def)

lemma two_fmt [simp]: "py_fmt ''%s %s'' [a, b] = Inr (a @ '' '' @ b)"
  by simp

lemma three_fmt [simp]: "py_fmt ''%s %s %s'' [a, b, c] = Inr (a @ '' '' @ b @ '' '' @ c)"
  by simp

lemma vivado_line_eq: "vivado_line abs_path p f = Inr (''    '' @ under abs_path (under (py_str p) (py_str f)) @ '' '' @ [CHR 0x5C] @ nl)"
  by (simp add: vivado_line_def under_def nl_def)

lemma vsim_includes_eq:
  "well_typed s \<Longrightarrow>
   vsim_includes abs_path s = Inr (concat (map (\<lambda>i. ''+incdir+'' @ under abs_path i) (strs (s_incdirs s))))"
  unfolding vsim_includes_def
  by (subst append_each_pstrs [OF well_typed_fields(4), where g = "\<lambda>i. ''+incdir+'' @ under abs_path i"])
     (simp_all add: VSIM_VLOG_INCDIR_CMD_def under_def)

lemma add_defines_eq:
  "well_typed s \<Longrightarrow> CHR ''%'' \<notin> set opt \<Longrightarrow> add_defines opt init (s_defines s) = Inr (init @ defines_text opt s)"
  unfolding defines_text_def by (rule add_defines_pstrs [OF well_typed_fields(5)])

lemma files_loop:
  assumes "well_typed s" and "\<And>f. piece (PStr f) = Inr (g f)"
  shows "append_each piece pre (s_files s) = Inr (pre @ concat (map g (strs (s_files s))))"
  by (rule append_each_pstrs [OF well_typed_fields(1) [OF assms(1)]]) (rule assms(2))

lemma sub_export_vsim_eq:
  assumes "well_typed s" and "tech_ok tech"
  shows "sub_export_vsim abs_path more_opts tech loc s = Inr (vsim_spec abs_path more_opts tech loc s)"
proof -
  note loop = files_loop [OF assms(1), where g = "vsim_command abs_path more_opts tech s"]
  note simps = wt_simps [OF assms(1)] assms(2) fill_simps vsim_includes_eq [OF assms(1)]
    add_defines_eq [OF assms(1)] LEGACY_TCSH_BLACKLIST_def
  show ?thesis
    by (cases "tech = PStr ''xilinx''")
       (auto simp: simps loop vsim_command_def vsim_active_def sub_export_vsim_def
          sub_export_vsim_xilinx_def vsim_spec_def simp del: py_fmt.simps)
qed

lemma sub_export_synopsys_eq:
  assumes "well_typed s" and "tech_ok tech"
  shows "sub_export_synopsys path tech source s = Inr (synopsys_spec path tech source s)"
proof -
  note loop = files_loop [OF assms(1), where g = "synopsys_command path source s"]
  note simps = wt_simps [OF assms(1)] assms(2) fill_simps add_defines_eq [OF assms(1)]
  show ?thesis
    by (auto simp: simps loop synopsys_command_def sub_export_synopsys_def synopsys_spec_def Let_def
          simp del: py_fmt.simps)
qed

lemma sub_export_cadence_eq:
  assumes "well_typed s" and "tech_ok tech"
  shows "sub_export_cadence path tech source s = Inr (cadence_spec path tech source s)"
proof -
  note loop = files_loop [OF assms(1), where g = "cadence_command path source s"]
  note simps = wt_simps [OF assms(1)] assms(2) fill_simps add_defines_eq [OF assms(1)]
  show ?thesis
    by (auto simp: simps loop cadence_command_def sub_export_cadence_def cadence_spec_def
          simp del: py_fmt.simps)
qed

lemma incdirs_loop:
  assumes "well_typed s" and "\<And>f. piece (PStr f) = Inr (g f)"
  shows "append_each piece pre (s_incdirs s) = Inr (pre @ concat (map g (strs (s_incdirs s))))"
  by (rule append_each_pstrs [OF well_typed_fields(4) [OF assms(1)]]) (rule assms(2))

lemma incdirs_len: "well_typed s \<Longrightarrow> py_len (s_incdirs s) = Inr (length (strs (s_incdirs s)))"
  by (subst well_typed_fields(4)) simp_all

lemma incdirs_Nil: "well_typed s \<Longrightarrow> s_incdirs s = PList [] \<longleftrightarrow> strs (s_incdirs s) = []"
  using well_typed_fields(4) [of s] by (metis list.simps(8) strs.simps(1))

lemma sub_export_vivado_eq:
  assumes "well_typed s"
  shows "sub_export_vivado abs_path s = Inr (vivado_spec abs_path s)"
proof -
  note loop = files_loop [OF assms(1), where g = "vivado_entry abs_path s"]
    incdirs_loop [OF assms(1), where g = "vivado_entry abs_path s"]
  note simps = wt_simps [OF assms] fill_simps
  show ?thesis
    by (auto simp: simps loop vivado_entry_def vivado_line_eq sub_export_vivado_def vivado_spec_def
          synth_active_def incdirs_len [OF assms] incdirs_Nil [OF assms] simp del: py_fmt.simps)
qed

lemma sub_export_synplify_eq:
  assumes "well_typed s"
  shows "sub_export_synplify abs_path s = Inr (synplify_spec abs_path s)"
proof -
  define g where "g f = (if vhdl_file f then ''add_file -vhdl '' else ''add_file -verilog '') @
    under abs_path (under (py_str (s_ip_path s)) f) @ nl" for f
  note loop = files_loop [OF assms(1), where g = g]
  have "\<exists>vs. s_files s = PList vs" using well_typed_fields(1) [OF assms] by blast
  then obtain vs where vs: "s_files s = PList vs" ..
  have spec: "synplify_spec abs_path s =
      (if synth_active ''xilinx'' s then concat (map g (strs (s_files s))) else nl)"
    by (simp add: synplify_spec_def g_def [abs_def])
  have len: "py_len (s_files s) = Inr (length vs)" using vs by simp
  have mk: "(case s_files s of PList _ \<Rightarrow> Inr () | _ \<Rightarrow> Inl AttributeError) = Inr ()"
    using vs by simp
  show ?thesis
    unfolding sub_export_synplify_def spec len mk
    by (auto simp: wt_simps [OF assms] loop g_def under_def nl_def synth_active_def)
qed

lemma make_line_fmt:
  "py_fmt ([CHR 0x5C] @ ''\<newline>'' @ [CHR 0x09] @ ''%s/%s'') [a, f] = Inr (make_line a f)"
  by (simp add: make_line_def nl_def under_def)

lemma make_sources_fold:
  "res_foldM (\<lambda>(vlog, vhdl) f.
     res_bind (is_vhdl f) (\<lambda>b.
     res_map (\<lambda>piece. if b then (vlog, vhdl @ piece) else (vlog @ piece, vhdl))
       (py_fmt ([CHR 0x5C] @ ''\<newline>'' @ [CHR 0x09] @ ''%s/%s'') [a, py_str f]))) (v, w) (map PStr fs) =
   Inr (v @ concat (map (make_line a) (filter (\<lambda>f. \<not> vhdl_file f) fs)),
        w @ concat (map (make_line a) (filter vhdl_file fs)))"
  by (induction fs arbitrary: v w) (simp_all only: list.map res_foldM.simps make_line_fmt is_vhdl_PStr
      py_str.simps, simp_all)

lemma make_sources_eq:
  assumes "well_typed s"
  shows "make_sources a (s_files s) =
    Inr (concat (map (make_line a) (filter (\<lambda>f. \<not> vhdl_file f) (strs (s_files s)))),
         concat (map (make_line a) (filter vhdl_file (strs (s_files s)))))"
proof -
  have "py_iter (s_files s) = Inr (map PStr (strs (s_files s)))"
    by (subst well_typed_fields(1) [OF assms]) simp
  then show ?thesis by (simp only: make_sources_def res_bind_simps make_sources_fold append_Nil)
qed

lemma concat_lines_Nil: "concat (map (make_line a) fs) = [] \<longleftrightarrow> fs = []"
  by (cases fs) (auto simp: make_line_def)

lemma filter_Nil_list_ex: "filter P xs = [] \<longleftrightarrow> \<not> list_ex P xs"
  by (simp add: filter_empty_conv list_ex_iff)

lemma make_locals_eq:
  "vsim = (sim = ''vsim'') \<Longrightarrow> sim = ''vsim'' \<or> sim = ''ncsim'' \<Longrightarrow>
   make_locals sim s =
     Inr (if vsim then MK_SUBIPRULE else MKN_SUBIPRULE,
          if vsim then MK_BUILDCMD_SVLOG else MKN_BUILDCMD_SVLOG,
          if vsim then MK_BUILDCMD_VHDL else MKN_BUILDCMD_VHDL,
          if vsim then s_vlog_opts s else [], if vsim then s_vcom_opts s else [])"
  by (auto simp: make_locals_def)

lemma make_linting_typed:
  assumes "well_typed s" and "\<not> targeted ''lint'' s"
  shows "make_linting s = Inr False"
  using assms by (simp add: make_linting_def py_in_targets)

lemma sub_export_make_eq:
  assumes "well_typed s" and "tech_ok tech" and lint: "make_linting s = Inr False"
    and sim: "sim = ''vsim'' \<or> sim = ''ncsim''"
  shows "sub_export_make abs_path more_opts tech loc sim s =
         Inr (make_spec abs_path more_opts tech loc (sim = ''vsim'') s)"
proof -
  have incs: "append_each (\<lambda>i. py_fmt ''+%s/%s'' [abs_path, py_str i]) [] (s_incdirs s) =
      Inr (concat (map (\<lambda>i. ''+'' @ under abs_path i) (strs (s_incdirs s))))"
    by (subst incdirs_loop [OF assms(1), where g = "\<lambda>i. ''+'' @ under abs_path i"]) (simp_all add: under_def)
  have incs_Nil: "concat (map (\<lambda>i. ''+'' @ under abs_path i) (strs (s_incdirs s))) = [] \<longleftrightarrow>
      strs (s_incdirs s) = []"
    by (cases "strs (s_incdirs s)") auto
  have svlog: "make_svlog_rule more_opts tech sim s =
      Inr (fill (if sim = ''vsim'' then MK_BUILDCMD_SVLOG else MKN_BUILDCMD_SVLOG)
        [more_opts @ '' '' @ (if sim = ''vsim'' then s_vlog_opts s else []) @ '' '' @
           make_defines tech (sim = ''vsim'') s, py_upper (s_name s), py_upper (s_name s)] @ nl @ [CHR 0x09])"
    by (simp add: make_svlog_rule_def make_locals_eq [OF refl sim] add_defines_eq [OF assms(1)]
          make_defines_def fill_simps nl_def del: py_fmt.simps)
  have vhdl: "make_vhdl_rule more_opts sim s =
      Inr (fill (if sim = ''vsim'' then MK_BUILDCMD_VHDL else MKN_BUILDCMD_VHDL)
        [more_opts @ '' '' @ (if sim = ''vsim'' then s_vcom_opts s else []), py_upper (s_name s)] @ nl)"
    by (simp add: make_vhdl_rule_def make_locals_eq [OF refl sim] fill_simps del: py_fmt.simps)
  have active: "make_active tech loc s \<longleftrightarrow>
      \<not> \<not> (targeted ''all'' s \<or> targeted ''rtl'' s \<or> tech_targeted tech s) \<and>
      \<not> (flagged ''only_local'' s \<and> \<not> loc) \<and> \<not> flagged ''skip_simulation'' s"
    by (auto simp: make_active_def)
  have none: "none_in [PStr ''all'', PStr ''rtl'', tech] (s_targets s) =
      Inr (\<not> (targeted ''all'' s \<or> targeted ''rtl'' s \<or> tech_targeted tech s))"
    by (simp add: wt_simps [OF assms(1)] assms(2))
  show ?thesis
  proof (cases "make_active tech loc s")
    case False
    then show ?thesis
      unfolding sub_export_make_def none lint make_spec_def
      using active by (auto simp: py_in_flags [OF assms(1)] simp del: py_fmt.simps)
  next
    case True
    with active have act: "targeted ''all'' s \<or> targeted ''rtl'' s \<or> tech_targeted tech s"
      "\<not> (flagged ''only_local'' s \<and> \<not> loc)" "\<not> flagged ''skip_simulation'' s" by simp_all
    have sv: "(if concat (map (make_line abs_path) (filter (\<lambda>f. \<not> vhdl_file f) (strs (s_files s)))) \<noteq> []
        then make_svlog_rule more_opts tech sim s else Inr []) = Inr (make_svlog_part more_opts tech (sim = ''vsim'') s)"
      unfolding concat_lines_Nil filter_Nil_list_ex svlog by (simp add: make_svlog_part_def)
    have vh: "(if concat (map (make_line abs_path) (filter vhdl_file (strs (s_files s)))) \<noteq> []
        then make_vhdl_rule more_opts sim s else Inr []) = Inr (make_vhdl_part more_opts (sim = ''vsim'') s)"
      unfolding concat_lines_Nil filter_Nil_list_ex vhdl by (simp add: make_vhdl_part_def)
    have inc: "(if concat (map (\<lambda>i. ''+'' @ under abs_path i) (strs (s_incdirs s))) \<noteq> []
        then Inr t else Inr []) = (Inr (if strs (s_incdirs s) = [] then [] else t) :: string res)" for t
      unfolding incs_Nil by simp
    have rule: "py_fmt (if sim = ''vsim'' then MK_SUBIPRULE else MKN_SUBIPRULE) [a, b, c, d, e, f, g, h] =
        Inr (fill (if sim = ''vsim'' then MK_SUBIPRULE else MKN_SUBIPRULE) [a, b, c, d, e, f, g, h])"
      for a b c d e f g h by (simp add: fill_simps)
    show ?thesis
      unfolding make_spec_def sub_export_make_def none lint incs make_sources_eq [OF assms(1)] py_in_flags [OF assms(1)]
        make_locals_eq [OF refl sim] fill_MK_SUBIPINC fill_MK_SUBIPSRC
      by (simp only: res_bind_simps res_map_simps guarded.simps sv vh inc rule prod.case)
         (simp add: True act make_vars_def make_rule_def)
  qed
qed

text \<open>A sub-IP built from a typed mapping is well typed, and the exporters never leave their contract.\<close>

lemma constructed:
  assumes "values_typed kvs" and "sub_ip_init ip_name name (PDict kvs) ip_path = Inr s"
  shows "well_typed s" and "make_linting s = Inr False"
proof -
  have "schema_ok kvs" and "s = described ip_name name kvs ip_path"
    using assms sub_ip_init_eq [OF assms(1), of ip_name name ip_path] by (auto split: if_splits)
  then show "well_typed s" using described_well_typed [OF assms(1)] by simp
  show "make_linting s = Inr False" by (rule make_linting_constructed [OF assms(2)])
qed


text \<open>A small sub-IP to evaluate the exporters on.\<close>

definition example_mapping :: "(string \<times> pyval) list" where
  "example_mapping =
     [(''files'', pstrs [''a.sv'', ''b.VHD'', ''c.v'']), (''incdirs'', pstrs [''inc'']),
      (''defines'', pstrs [''D'']), (''flags'', pstrs [''only_local'']), (''vlog_opts'', pstrs [''-x'', ''-y''])]"

definition example_sub_ip :: sub_ip where
  "example_sub_ip = described ''ip'' ''sub'' example_mapping (PStr ''ip'')"

lemma example_typed: "values_typed example_mapping" and example_schema: "schema_ok example_mapping"
  by (simp_all add: example_mapping_def values_typed_def schema_ok_def MANDATORY_KEYS_def
        ALLOWED_KEYS_def ALLOWED_TARGETS_def ALLOWED_FLAGS_def field_def)

lemma example_init: "sub_ip_init ''ip'' ''sub'' (PDict example_mapping) (PStr ''ip'') = Inr example_sub_ip"
  by (simp add: sub_ip_init_eq [OF example_typed] example_schema example_sub_ip_def)

lemma example_kinds: "vhdl_file ''b.VHD''" "\<not> vhdl_file ''a.sv''" "\<not> vhdl_file ''c.v''"
  by code_simp+

lemmas example_sub_ip_simps = example_sub_ip_def described_def example_mapping_def field_def


text \<open>Property C14. For a sub-IP built from a typed mapping the synthesis exports return what the
  specification says: the Synopsys, Cadence, Vivado and Synplify fragments list every source file
  once and in order, and are a bare newline when the target does not match or the sub-IP skips
  synthesis.\<close>
theorem synthesis_exports:
  assumes "values_typed kvs" and "sub_ip_init ip_name name (PDict kvs) ip_path = Inr s"
    and "tech_ok tech"
  shows "sub_export_synopsys path tech source s = Inr (synopsys_spec path tech source s) \<and>
         sub_export_cadence path tech source s = Inr (cadence_spec path tech source s) \<and>
         sub_export_vivado abs_path s = Inr (vivado_spec abs_path s) \<and>
         sub_export_synplify abs_path s = Inr (synplify_spec abs_path s)"
  using constructed(1) [OF assms(1,2)] assms(3)
  by (simp add: sub_export_synopsys_eq sub_export_cadence_eq sub_export_vivado_eq sub_export_synplify_eq)

theorem synthesis_exports_witness:
  "sub_export_synplify ''$R'' example_sub_ip =
     Inr ''add_file -verilog $R/ip/a.sv\<newline>add_file -vhdl $R/ip/b.VHD\<newline>add_file -verilog $R/ip/c.v\<newline>''"
proof -
  have "synplify_spec ''$R'' example_sub_ip =
      ''add_file -verilog $R/ip/a.sv\<newline>add_file -vhdl $R/ip/b.VHD\<newline>add_file -verilog $R/ip/c.v\<newline>''"
    by (simp add: example_kinds synplify_spec_def synth_active_def targeted_def flagged_def under_def
          nl_def example_sub_ip_simps)
  then show ?thesis
    using synthesis_exports [OF example_typed example_init, of PNone "PStr ''ip''" "''ips''" "''$R''"] by simp
qed

text \<open>The flag \<open>only_local\<close> is read with opposite signs: on a sub-IP of target \<open>all\<close> that
  has it and skips nothing, the make fragment is emitted only in a local build while the \<open>csh\<close>
  fragment is emitted only in a build that is not local.\<close>
theorem only_local_opposite:
  assumes "well_typed s" and "tech_ok tech" and "make_linting s = Inr False"
    and "targeted ''all'' s" and "flagged ''only_local'' s" and "tech \<noteq> PStr ''xilinx''"
    and "\<not> flagged ''skip_simulation'' s" and "\<not> flagged ''skip_tcsh'' s"
  shows "sub_export_make a opts tech loc ''vsim'' s =
           Inr (if loc then make_spec a opts tech True True s else nl) \<and>
         sub_export_vsim a opts tech loc s =
           Inr (if loc then nl
                else fill VSIM_PREAMBLE_SUBIP [s_name s] @
                     concat (map (vsim_command a opts tech s) (strs (s_files s))))"
proof -
  have "sub_export_make a opts tech loc ''vsim'' s = Inr (make_spec a opts tech loc True s)"
    using sub_export_make_eq [OF assms(1,2,3), of "''vsim''"] by simp
  moreover have "make_spec a opts tech loc True s = (if loc then make_spec a opts tech True True s else nl)"
    using assms by (simp add: make_spec_def make_active_def)
  moreover have "vsim_spec a opts tech loc s =
      (if loc then nl else fill VSIM_PREAMBLE_SUBIP [s_name s] @
         concat (map (vsim_command a opts tech s) (strs (s_files s))))"
    using assms by (simp add: vsim_spec_def vsim_active_def)
  ultimately show ?thesis using sub_export_vsim_eq [OF assms(1,2), of a opts loc] by simp
qed

theorem only_local_opposite_witness:
  "sub_export_make ''a'' [] PNone False ''vsim'' example_sub_ip = Inr nl \<and>
   sub_export_vsim ''a'' [] PNone True example_sub_ip = Inr nl"
proof -
  have "targeted ''all'' example_sub_ip" "flagged ''only_local'' example_sub_ip"
    "\<not> flagged ''skip_simulation'' example_sub_ip" "\<not> flagged ''skip_tcsh'' example_sub_ip"
    by (simp_all add: targeted_def flagged_def example_sub_ip_simps)
  then show ?thesis
    using only_local_opposite [OF constructed(1) [OF example_typed example_init], of PNone "''a''" "[]" False]
      only_local_opposite [OF constructed(1) [OF example_typed example_init], of PNone "''a''" "[]" True]
      constructed(2) [OF example_typed example_init]
    by simp
qed

subsection \<open>The interface to whatever strings fragments together\<close>

text \<open>\<open>for s in d.keys(): script += d[s].export(...)\<close>.\<close>

definition export_all :: "('a \<Rightarrow> string res) \<Rightarrow> string \<Rightarrow> ('k \<times> 'a) list \<Rightarrow> string res" where
  "export_all export pre d = res_foldM (\<lambda>acc (k, x). res_map (append acc) (export x)) pre d"

text \<open>
  An exporter is total on the objects it accepts and gives the text of its specification; what
  strings its fragments together relies on nothing else.
\<close>

locale exporter =
  fixes ok :: "'a \<Rightarrow> bool" and export :: "'a \<Rightarrow> string res" and spec :: "'a \<Rightarrow> string"
  assumes export_ok: "ok x \<Longrightarrow> export x = Inr (spec x)"
begin

lemma export_each: "list_all (\<lambda>(k, x). ok x) d \<Longrightarrow> export_all export pre d = Inr (pre @ concat (map (\<lambda>(k, x). spec x) d))"
  by (induction d arbitrary: pre) (auto simp: export_all_def export_ok)

lemma export_none: "export_all export pre [] = Inr pre"
  by (simp add: export_all_def)

lemma export_append:
  assumes "list_all (\<lambda>(k, x). ok x) d"
  shows "export_all export pre (d @ d') = export_all export (pre @ concat (map (\<lambda>(k, x). spec x) d)) d'"
  using export_each [OF assms, of pre] by (simp add: export_all_def res_foldM_append)

end

text \<open>The states a make fragment is generated in: well typed, and outside the lint branch.\<close>

definition makeable :: "sub_ip \<Rightarrow> bool" where
  "makeable s \<longleftrightarrow> well_typed s \<and> \<not> targeted ''lint'' s"

lemma makeable_linting: "makeable s \<Longrightarrow> make_linting s = Inr False"
  by (simp add: makeable_def make_linting_typed)

definition known_simulator :: "string \<Rightarrow> bool" where
  "known_simulator sim \<longleftrightarrow> sim = ''vsim'' \<or> sim = ''ncsim''"

interpretation make: exporter "\<lambda>s. makeable s \<and> tech_ok tech \<and> known_simulator sim"
    "sub_export_make abs_path more_opts tech loc sim"
    "make_spec abs_path more_opts tech loc (sim = ''vsim'')" for abs_path more_opts tech loc sim
  by unfold_locales (simp add: sub_export_make_eq makeable_linting makeable_def known_simulator_def)

interpretation vsim: exporter "\<lambda>s. well_typed s \<and> tech_ok tech"
    "sub_export_vsim abs_path more_opts tech loc" "vsim_spec abs_path more_opts tech loc"
    for abs_path more_opts tech loc
  by unfold_locales (simp add: sub_export_vsim_eq)

interpretation synopsys: exporter "\<lambda>s. well_typed s \<and> tech_ok tech"
    "sub_export_synopsys path tech source" "synopsys_spec path tech source" for path tech source
  by unfold_locales (simp add: sub_export_synopsys_eq)

interpretation cadence: exporter "\<lambda>s. well_typed s \<and> tech_ok tech"
    "sub_export_cadence path tech source" "cadence_spec path tech source" for path tech source
  by unfold_locales (simp add: sub_export_cadence_eq)

interpretation vivado: exporter well_typed "sub_export_vivado abs_path" "vivado_spec abs_path" for abs_path
  by unfold_locales (rule sub_export_vivado_eq)

interpretation synplify: exporter well_typed "sub_export_synplify abs_path" "synplify_spec abs_path" for abs_path
  by unfold_locales (rule sub_export_synplify_eq)

end
