(* ===== verification/Ip_Config.thy ===== *)
theory Ip_Config imports Sub_Ip begin

section \<open>IPs\<close>

text \<open>
  \<open>ipstools/ipstools/IPConfig.py\<close>: an IP as the ordered dictionary of its sub-IPs, built from the
  mapping of its \<open>src_files.yml\<close>, and its scripts, which string the fragments of the sub-IPs
  together through the interface \<open>exporter\<close>.
\<close>

record ip_config =
  c_domain :: pyval
  c_alternatives :: pyval
  c_name :: string
  c_path :: pyval
  c_ips_dir :: pyval
  c_vsim_dir :: pyval
  c_sub_ips :: "(string \<times> sub_ip) list"

subsection \<open>Construction\<close>

text \<open>
  The dictionary of sub-IPs, as the body of the \<open>try\<close> builds it.  The handler answers an
  \<open>AttributeError\<close> from anywhere in it, the constructor of a sub-IP included, with an empty one.
\<close>

definition build_sub_ips :: "string \<Rightarrow> pyval \<Rightarrow> pyval \<Rightarrow> (string \<times> sub_ip) list res" where
  "build_sub_ips ip_name ip_dic ip_path =
     res_bind (py_keys ip_dic) (\<lambda>ks.
       if ''files'' \<in> set ks then
         res_map (\<lambda>s. od_set ip_name s []) (sub_ip_init ip_name ip_name ip_dic ip_path)
       else
         res_foldM (\<lambda>d k.
           res_bind (py_item ip_dic k) (\<lambda>v.
           res_map (\<lambda>s. od_set k s d) (sub_ip_init ip_name k v ip_path))) [] ks)"

definition ip_init ::
  "string \<Rightarrow> pyval \<Rightarrow> pyval \<Rightarrow> pyval \<Rightarrow> pyval \<Rightarrow> pyval \<Rightarrow> pyval \<Rightarrow> ip_config res" where
  "ip_init ip_name ip_dic ip_path ips_dir vsim_dir domain alternatives =
     res_map (\<lambda>subs. \<lparr>c_domain = domain, c_alternatives = alternatives, c_name = ip_name,
                     c_path = ip_path, c_ips_dir = ips_dir, c_vsim_dir = vsim_dir, c_sub_ips = subs\<rparr>)
       (res_catch AttributeError (build_sub_ips ip_name ip_dic ip_path) (Inr []))"

subsection \<open>Scripts\<close>

text \<open>The prerequisites of the library and the phony targets: one of each for a sub-IP that is built.\<close>

definition make_wanted :: "pyval \<Rightarrow> bool \<Rightarrow> sub_ip \<Rightarrow> bool res" where
  "make_wanted target_tech loc s =
     res_bind (any_in [PStr ''all'', PStr ''rtl'', target_tech] (s_targets s)) (\<lambda>t.
       if \<not> t then Inr False
       else res_bind (py_in (PStr ''skip_simulation'') (s_flags s)) (\<lambda>skip.
         if skip then Inr False
         else res_map (\<lambda>ol. \<not> ol \<or> loc) (py_in (PStr ''only_local'') (s_flags s))))"

definition simulator_locals :: "string \<Rightarrow> (string \<times> string) res" where
  "simulator_locals simulator =
     (if simulator = ''vsim'' then Inr (MK_PREAMBLE, ''vmake'')
      else if simulator = ''ncsim'' then Inr (MKN_PREAMBLE, ''nmake'')
      else Inl UnboundLocalError)"

definition make_prerequisites ::
  "pyval \<Rightarrow> bool \<Rightarrow> string \<Rightarrow> (string \<times> sub_ip) list \<Rightarrow> (string \<times> string) res" where
  "make_prerequisites target_tech loc simulator subs =
     res_foldM (\<lambda>(commands, phony) (k, s).
       res_bind (make_wanted target_tech loc s) (\<lambda>wanted.
         if \<not> wanted then Inr (commands, phony)
         else res_bind (simulator_locals simulator) (\<lambda>(_, vmake).
           res_bind (py_fmt ''$(LIB_PATH)/%s.%s '' [k, vmake]) (\<lambda>cmd.
           res_map (\<lambda>target. (commands @ cmd, phony @ target))
             (if simulator = ''vsim'' then py_fmt ''vcompile-subip-%s '' [k]
              else if simulator = ''ncsim'' then py_fmt ''ncompile-subip-%s '' [k]
              else Inr []))))) ([], []) subs"

definition ip_export_make ::
  "string \<Rightarrow> string \<Rightarrow> pyval \<Rightarrow> string \<Rightarrow> bool \<Rightarrow> string \<Rightarrow> ip_config \<Rightarrow> string res" where
  "ip_export_make abs_path more_opts target_tech source loc simulator c =
     res_bind (make_prerequisites target_tech loc simulator (c_sub_ips c)) (\<lambda>(commands, phony).
     res_bind (py_subscript (c_path c) (PInt 0)) (\<lambda>first.
     res_bind (if py_eq first (PStr ''/'')
               then res_map (\<lambda>p. ([], p)) (py_from 1 (c_path c))
               else Inr (if source = ''ips'' then ''$(IPS_PATH)'' else ''$(RTL_PATH)'', c_path c)) (\<lambda>(env, path).
     res_bind (simulator_locals simulator) (\<lambda>(mk_preamble, _).
     res_bind (py_fmt mk_preamble [prepare (c_name c), env, py_str path, phony, commands]) (\<lambda>makefile.
       export_all (sub_export_make abs_path more_opts target_tech loc simulator)
         (makefile @ MK_POSTAMBLE) (c_sub_ips c))))))"

definition ip_export_vsim ::
  "string \<Rightarrow> string \<Rightarrow> pyval \<Rightarrow> bool \<Rightarrow> ip_config \<Rightarrow> string res" where
  "ip_export_vsim abs_path more_opts target_tech loc c =
     res_bind (py_fmt VSIM_PREAMBLE [py_str (c_vsim_dir c), prepare (c_name c), py_str (c_path c)]) (\<lambda>script.
     res_map (\<lambda>t. t @ VSIM_POSTAMBLE)
       (export_all (sub_export_vsim abs_path more_opts target_tech loc) script (c_sub_ips c)))"

definition ip_export_synopsys :: "pyval \<Rightarrow> string \<Rightarrow> ip_config \<Rightarrow> string res" where
  "ip_export_synopsys target_tech source c =
     res_bind (py_fmt SYNOPSYS_ANALYZE_PREAMBLE [c_name c]) (\<lambda>script.
       export_all (sub_export_synopsys (c_path c) target_tech source) script (c_sub_ips c))"

definition ip_export_cadence :: "pyval \<Rightarrow> string \<Rightarrow> ip_config \<Rightarrow> string res" where
  "ip_export_cadence target_tech source c =
     res_bind (py_fmt CADENCE_ANALYZE_PREAMBLE [c_name c]) (\<lambda>script.
       export_all (sub_export_cadence (c_path c) target_tech source) script (c_sub_ips c))"

definition ip_export_vivado :: "string \<Rightarrow> ip_config \<Rightarrow> string res" where
  "ip_export_vivado abs_path c = export_all (sub_export_vivado abs_path) [] (c_sub_ips c)"

definition ip_export_synplify :: "string \<Rightarrow> ip_config \<Rightarrow> string res" where
  "ip_export_synplify abs_path c = export_all (sub_export_synplify abs_path) [] (c_sub_ips c)"

text \<open>The names and include directories of the sub-IPs Vivado gets.\<close>

definition vivado_wanted :: "sub_ip \<Rightarrow> bool res" where
  "vivado_wanted s =
     res_bind (any_in [PStr ''xilinx'', PStr ''all''] (s_targets s)) (\<lambda>t.
       if t then res_map Not (py_in (PStr ''skip_synthesis'') (s_flags s)) else Inr False)"

definition ip_vivado_add_files :: "ip_config \<Rightarrow> string list res" where
  "ip_vivado_add_files c =
     res_foldM (\<lambda>l (k, s). res_map (\<lambda>w. if w then l @ [prepare k] else l) (vivado_wanted s)) [] (c_sub_ips c)"

definition ip_vivado_inc_dirs :: "ip_config \<Rightarrow> pyval list res" where
  "ip_vivado_inc_dirs c =
     res_foldM (\<lambda>l (k, s).
       res_bind (vivado_wanted s) (\<lambda>w.
         if w then res_map (append l) (py_iter (s_incdirs s)) else Inr l)) [] (c_sub_ips c)"

subsection \<open>The table of sub-IPs\<close>

text \<open>
  The invariant of an IP: its table has distinct keys, and each sub-IP carries its key as its name
  and the IP's name and path.  \<open>ip_typed\<close> adds that the scripts can be generated.
\<close>

definition ip_wf :: "ip_config \<Rightarrow> bool" where
  "ip_wf c \<longleftrightarrow> od_ok (c_sub_ips c) \<and>
     list_all (\<lambda>(k, s). s_name s = k \<and> s_ip_name s = c_name c \<and> s_ip_path s = c_path c) (c_sub_ips c)"

definition ip_typed :: "ip_config \<Rightarrow> bool" where
  "ip_typed c \<longleftrightarrow> ip_wf c \<and> list_all (\<lambda>(k, s). makeable s) (c_sub_ips c)"

definition subs_wf :: "string \<Rightarrow> pyval \<Rightarrow> (string \<times> sub_ip) list \<Rightarrow> bool" where
  "subs_wf name path d \<longleftrightarrow> od_ok d \<and>
     (\<forall>k s. map_of d k = Some s \<longrightarrow> s_name s = k \<and> s_ip_name s = name \<and> s_ip_path s = path)"

lemma subs_wf_set:
  "subs_wf name path d \<Longrightarrow> s_name s = k \<and> s_ip_name s = name \<and> s_ip_path s = path \<Longrightarrow>
   subs_wf name path (od_set k s d)"
  by (auto simp: subs_wf_def split: if_splits)

lemma subs_wf_Nil: "subs_wf name path []"
  by (simp add: subs_wf_def)

lemma subs_wf_store:
  assumes "sub_ip_init name k v path = Inr s" and "subs_wf name path d"
  shows "subs_wf name path (od_set k s d)"
  by (rule subs_wf_set [OF assms(2)]) (simp add: sub_ip_init_Inr(1-3) [OF assms(1)])

lemma build_sub_ips_wf:
  assumes "build_sub_ips name dic path = Inr d"
  shows "subs_wf name path d"
proof -
  from assms obtain ks where ks: "py_keys dic = Inr ks"
    by (auto simp: build_sub_ips_def res_bind_Inr_iff)
  show ?thesis
  proof (cases "''files'' \<in> set ks")
    case True
    then show ?thesis
      using assms ks by (auto simp only: build_sub_ips_def res_map_Inr_iff res_bind_simps if_True
          intro: subs_wf_store subs_wf_Nil)
  next
    case False
    with assms ks have "res_foldM (\<lambda>d k. res_bind (py_item dic k) (\<lambda>v.
        res_map (\<lambda>s. od_set k s d) (sub_ip_init name k v path))) [] ks = Inr d"
      by (simp add: build_sub_ips_def)
    then show ?thesis
    proof (rule res_foldM_invariant [where P = "subs_wf name path"])
      show "subs_wf name path []" by (rule subs_wf_Nil)
      fix t k t'
      assume "subs_wf name path t"
        and "res_bind (py_item dic k) (\<lambda>v. res_map (\<lambda>s. od_set k s t) (sub_ip_init name k v path)) = Inr t'"
      then show "subs_wf name path t'"
        by (auto simp only: res_iffs intro: subs_wf_store)
    qed
  qed
qed

lemma subs_wf_list:
  "subs_wf name path d \<Longrightarrow> list_all (\<lambda>(k, s). s_name s = k \<and> s_ip_name s = name \<and> s_ip_path s = path) d"
  by (auto simp: subs_wf_def list_all_iff od_keys_def)

lemma ip_init_wf_aux:
  assumes "ip_init name dic path ips_dir vsim_dir domain alts = Inr c"
  shows "ip_wf c \<and> c_name c = name \<and> c_path c = path \<and> c_domain c = domain \<and> c_alternatives c = alts"
proof -
  from assms obtain d where "build_sub_ips name dic path = Inr d \<or> d = []"
    and c: "c = \<lparr>c_domain = domain, c_alternatives = alts, c_name = name, c_path = path,
                 c_ips_dir = ips_dir, c_vsim_dir = vsim_dir, c_sub_ips = d\<rparr>"
    by (auto simp: ip_init_def res_map_Inr_iff res_catch_Inr_iff)
  then have "subs_wf name path d" using build_sub_ips_wf subs_wf_Nil by blast
  then show ?thesis
    using subs_wf_list c by (auto simp: ip_wf_def subs_wf_def)
qed

text \<open>Whatever the mapping holds, an IP the constructor returns has a table with distinct
  keys in which every sub-IP is stored under its own name and carries the name and the path of the
  IP.\<close>
theorem ip_init_wf:
  assumes "ip_init name dic path ips_dir vsim_dir domain alts = Inr c"
  shows "ip_wf c \<and> c_name c = name \<and> c_path c = path \<and> c_domain c = domain \<and> c_alternatives c = alts"
  by (rule ip_init_wf_aux [OF assms])

lemma res_foldM_map: "res_foldM f s (map g xs) = res_foldM (\<lambda>t x. f t (g x)) s xs"
  by (induction xs arbitrary: s) (auto intro!: res_bind_cong)

lemma fold_items:
  assumes "od_ok kvs"
  shows "res_foldM (\<lambda>d k. res_bind (py_item (PDict kvs) k) (g d k)) s (od_keys kvs) =
         res_foldM (\<lambda>d (k, v). g d k v) s kvs"
  unfolding od_keys_def res_foldM_map
proof (rule res_foldM_cong)
  fix t p assume "p \<in> set kvs"
  moreover obtain k v where "p = (k, v)" by (cases p)
  moreover have "map_of kvs k = Some v"
    using assms calculation by (simp add: od_keys_def)
  ultimately show "res_bind (py_item (PDict kvs) (fst p)) (g t (fst p)) = (case p of (k, v) \<Rightarrow> g t k v)"
    by (simp add: od_get_def)
qed simp_all

fun typed_mapping :: "pyval \<Rightarrow> bool" where
  "typed_mapping (PDict d) = values_typed d"
| "typed_mapping v = False"

fun mapping_of :: "pyval \<Rightarrow> (string \<times> pyval) list" where
  "mapping_of (PDict d) = d"
| "mapping_of v = []"

definition described_subs :: "string \<Rightarrow> pyval \<Rightarrow> (string \<times> pyval) list \<Rightarrow> (string \<times> sub_ip) list" where
  "described_subs name path kvs = map (\<lambda>(k, v). (k, described name k (mapping_of v) path)) kvs"

lemma init_typed_mapping:
  "typed_mapping v \<Longrightarrow> sub_ip_init name k v path =
     (if schema_ok (mapping_of v) then Inr (described name k (mapping_of v) path) else Inl (SystemExit 1))"
  by (cases v) (simp_all add: sub_ip_init_eq)

lemma sub_ips_fold:
  assumes "od_ok (d @ map (\<lambda>(k, v). (k, undefined)) kvs)" and "list_all (\<lambda>(k, v). typed_mapping v) kvs"
  shows "res_foldM (\<lambda>d (k, v). res_map (\<lambda>s. od_set k s d) (sub_ip_init name k v path)) d kvs =
         (if list_all (\<lambda>(k, v). schema_ok (mapping_of v)) kvs then Inr (d @ described_subs name path kvs)
          else Inl (SystemExit 1))"
  using assms
proof (induction kvs arbitrary: d)
  case Nil
  then show ?case by (simp add: described_subs_def)
next
  case (Cons p kvs)
  obtain k v where p: "p = (k, v)" by (cases p)
  show ?case
  proof (cases "schema_ok (mapping_of v)")
    case False
    with Cons.prems p show ?thesis by (simp add: init_typed_mapping)
  next
    case True
    let ?d = "d @ [(k, described name k (mapping_of v) path)]"
    have new: "od_set k (described name k (mapping_of v) path) d = ?d"
      using Cons.prems(1) p by (intro od_set_new) auto
    have "od_ok (?d @ map (\<lambda>(k, v). (k, undefined)) kvs)" using Cons.prems(1) p by simp
    from Cons.IH [OF this] Cons.prems(2) p True new show ?thesis
      by (simp add: init_typed_mapping described_subs_def)
  qed
qed

lemma build_sub_ips_eq:
  assumes "od_ok kvs" and "''files'' \<notin> set (od_keys kvs)"
  shows "build_sub_ips name (PDict kvs) path =
         res_foldM (\<lambda>d (k, v). res_map (\<lambda>s. od_set k s d) (sub_ip_init name k v path)) [] kvs"
  using assms(2) fold_items [OF assms(1), of "\<lambda>d k v. res_map (\<lambda>s. od_set k s d) (sub_ip_init name k v path)"]
  by (simp only: build_sub_ips_def py_keys.simps res_bind_simps if_False)

lemma keys_undefined: "od_keys (map (\<lambda>(k, v). (k, undefined)) kvs) = od_keys kvs"
  by (simp add: od_keys_def comp_def case_prod_beta)

lemma build_sub_ips_typed:
  assumes "od_ok kvs" and "''files'' \<notin> set (od_keys kvs)" and "list_all (\<lambda>(k, v). typed_mapping v) kvs"
  shows "build_sub_ips name (PDict kvs) path =
         (if list_all (\<lambda>(k, v). schema_ok (mapping_of v)) kvs then Inr (described_subs name path kvs)
          else Inl (SystemExit 1))"
  using sub_ips_fold [of "[]" kvs name path] assms
  by (simp add: build_sub_ips_eq keys_undefined)

lemma build_flat:
  assumes "values_typed kvs" and "''files'' \<in> set (od_keys kvs)"
  shows "build_sub_ips name (PDict kvs) path =
         (if schema_ok kvs then Inr [(name, described name name kvs path)] else Inl (SystemExit 1))"
  using assms by (simp add: build_sub_ips_def sub_ip_init_eq)

text \<open>A mapping whose values are typed mappings gives one sub-IP per key, in the order of
  the file, each as its mapping describes it; a mapping that has \<open>files\<close> itself gives the single
  sub-IP named after the IP.  In both cases a violation of the schema ends the program.\<close>
theorem ip_init_table:
  assumes "od_ok kvs"
    and "if ''files'' \<in> set (od_keys kvs) then values_typed kvs else list_all (\<lambda>(k, v). typed_mapping v) kvs"
  shows "res_map c_sub_ips (ip_init name (PDict kvs) path ips_dir vsim_dir domain alts) =
         (if ''files'' \<in> set (od_keys kvs) then
            if schema_ok kvs then Inr [(name, described name name kvs path)] else Inl (SystemExit 1)
          else if list_all (\<lambda>(k, v). schema_ok (mapping_of v)) kvs
            then Inr (map (\<lambda>(k, v). (k, described name k (mapping_of v) path)) kvs)
            else Inl (SystemExit 1))"
  using assms by (simp add: ip_init_def res_map_comp comp_def build_flat build_sub_ips_typed described_subs_def)

text \<open>Property C40. One sub-IP that is no mapping, after any number of correct ones, empties the whole
  IP without an error: the handler meant for an IP without sub-IPs answers it too.\<close>
theorem malformed_sub_ip_empties:
  assumes "od_ok (kvs @ (k, v) # kvs')" and "''files'' \<notin> set (od_keys (kvs @ (k, v) # kvs'))"
    and "list_all (\<lambda>(k, v). typed_mapping v \<and> schema_ok (mapping_of v)) kvs" and "py_keys v = Inl AttributeError"
  shows "res_map c_sub_ips (ip_init name (PDict (kvs @ (k, v) # kvs')) path ips_dir vsim_dir domain alts) = Inr []"
proof -
  have "od_ok kvs" "list_all (\<lambda>(k, v). typed_mapping v) kvs" "list_all (\<lambda>(k, v). schema_ok (mapping_of v)) kvs"
    using assms by (auto simp: list_all_iff)
  then have "res_foldM (\<lambda>d (k, v). res_map (\<lambda>s. od_set k s d) (sub_ip_init name k v path)) [] kvs =
      Inr (described_subs name path kvs)"
    using sub_ips_fold [of "[]" kvs name path] by (simp add: keys_undefined)
  moreover have "sub_ip_init name k v path = Inl AttributeError"
    using assms(4) by (simp add: sub_ip_init_def check_dic_def)
  ultimately have "build_sub_ips name (PDict (kvs @ (k, v) # kvs')) path = Inl AttributeError"
    by (simp only: build_sub_ips_eq [OF assms(1,2)] res_foldM_append res_bind_simps res_foldM.simps
        prod.case res_map_simps)
  then show ?thesis by (simp add: ip_init_def)
qed

text \<open>An IP of two sub-IPs.\<close>

definition example_src_files :: "(string \<times> pyval) list" where
  "example_src_files =
     [(''rtl_part'', PDict [(''files'', pstrs [''a.sv'']), (''targets'', pstrs [''rtl''])]),
      (''fpga.part'', PDict [(''files'', pstrs [''b.vhd'']), (''targets'', pstrs [''xilinx''])])]"

definition example_ip :: ip_config where
  "example_ip =
     \<lparr>c_domain = PNone, c_alternatives = PNone, c_name = ''ip'', c_path = PStr ''ip'',
      c_ips_dir = PStr ''ips'', c_vsim_dir = PStr ''sim'',
      c_sub_ips = [(''rtl_part'', described ''ip'' ''rtl_part''
                      [(''files'', pstrs [''a.sv'']), (''targets'', pstrs [''rtl''])] (PStr ''ip'')),
                   (''fpga.part'', described ''ip'' ''fpga.part''
                      [(''files'', pstrs [''b.vhd'']), (''targets'', pstrs [''xilinx''])] (PStr ''ip''))]\<rparr>"

lemmas schema_simps = schema_ok_def MANDATORY_KEYS_def ALLOWED_KEYS_def ALLOWED_TARGETS_def
  ALLOWED_FLAGS_def field_def

lemma example_typed_list:
  "od_ok example_src_files" "''files'' \<notin> set (od_keys example_src_files)"
  "list_all (\<lambda>(k, v). typed_mapping v \<and> schema_ok (mapping_of v)) example_src_files"
  by (simp_all add: example_src_files_def values_typed_def schema_simps)

lemma example_ip_init:
  "ip_init ''ip'' (PDict example_src_files) (PStr ''ip'') (PStr ''ips'') (PStr ''sim'') PNone PNone = Inr example_ip"
proof -
  have "list_all (\<lambda>(k, v). typed_mapping v) example_src_files"
    "list_all (\<lambda>(k, v). schema_ok (mapping_of v)) example_src_files"
    using example_typed_list(3) by (auto simp: list_all_iff)
  then have "build_sub_ips ''ip'' (PDict example_src_files) (PStr ''ip'') =
      Inr (described_subs ''ip'' (PStr ''ip'') example_src_files)"
    using build_sub_ips_typed [OF example_typed_list(1,2)] by simp
  then show ?thesis
    by (simp add: ip_init_def example_ip_def described_subs_def) (simp add: example_src_files_def)
qed

theorem ip_init_wf_witness: "ip_wf example_ip \<and> c_name example_ip = ''ip''"
  using ip_init_wf [OF example_ip_init] by simp

theorem ip_init_table_witness:
  "res_map c_sub_ips (ip_init ''ip'' (PDict example_src_files) (PStr ''ip'') PNone PNone PNone PNone) =
     Inr (c_sub_ips example_ip)"
proof -
  have "list_all (\<lambda>(k, v). typed_mapping v) example_src_files"
    "list_all (\<lambda>(k, v). schema_ok (mapping_of v)) example_src_files"
    using example_typed_list(3) by (auto simp: list_all_iff)
  then show ?thesis
    using ip_init_table [of example_src_files "''ip''" "PStr ''ip''" PNone PNone PNone PNone] example_typed_list(1,2)
    by simp (simp add: example_src_files_def example_ip_def)
qed

theorem malformed_sub_ip_empties_witness:
  "res_map c_sub_ips (ip_init ''ip'' (PDict (example_src_files @ [(''broken'', PList [])])) PNone PNone PNone PNone PNone) = Inr []"
  by (rule malformed_sub_ip_empties [OF _ _ example_typed_list(3)])
     (simp_all add: example_src_files_def)

subsection \<open>Scripts of typed IPs\<close>

lemma ip_typed_subs:
  assumes "ip_typed c"
  shows "list_all (\<lambda>(k, s). makeable s \<and> well_typed s) (c_sub_ips c)"
  using assms by (auto simp: ip_typed_def makeable_def list_all_iff)

lemma any_in_targets:
  "well_typed s \<Longrightarrow> list_all tech_ok xs \<Longrightarrow> any_in xs (s_targets s) = Inr (list_ex (\<lambda>t. tech_targeted t s) xs)"
  by (simp add: any_in_def none_in_targets)

lemma make_wanted_eq:
  "well_typed s \<Longrightarrow> tech_ok tech \<Longrightarrow> make_wanted tech loc s = Inr (make_active tech loc s)"
  by (auto simp: make_wanted_def any_in_targets py_in_flags make_active_def)

lemma vivado_wanted_eq: "well_typed s \<Longrightarrow> vivado_wanted s = Inr (synth_active ''xilinx'' s)"
  by (auto simp: vivado_wanted_def any_in_targets py_in_flags synth_active_def)

definition prerequisite :: "bool \<Rightarrow> string \<Rightarrow> string" where
  "prerequisite vsim k = ''$(LIB_PATH)/'' @ k @ (if vsim then ''.vmake '' else ''.nmake '')"

definition phony_target :: "bool \<Rightarrow> string \<Rightarrow> string" where
  "phony_target vsim k = (if vsim then ''vcompile-subip-'' else ''ncompile-subip-'') @ k @ '' ''"

lemma make_prerequisites_step:
  assumes "well_typed s" and "tech_ok tech" and "known_simulator sim"
  shows "res_bind (make_wanted tech loc s) (\<lambda>wanted.
         if \<not> wanted then Inr (cs, ph)
         else res_bind (simulator_locals sim) (\<lambda>(_, vmake).
           res_bind (py_fmt ''$(LIB_PATH)/%s.%s '' [k, vmake]) (\<lambda>cmd.
           res_map (\<lambda>target. (cs @ cmd, ph @ target))
             (if sim = ''vsim'' then py_fmt ''vcompile-subip-%s '' [k]
              else if sim = ''ncsim'' then py_fmt ''ncompile-subip-%s '' [k]
              else Inr [])))) =
    Inr (if make_active tech loc s
         then (cs @ prerequisite (sim = ''vsim'') k, ph @ phony_target (sim = ''vsim'') k) else (cs, ph))"
  using assms
  by (auto simp: make_wanted_eq simulator_locals_def known_simulator_def prerequisite_def phony_target_def)

lemma make_prerequisites_fold:
  assumes "list_all (\<lambda>(k, s). makeable s \<and> well_typed s) d" and "tech_ok tech" and "known_simulator sim"
  shows "make_prerequisites tech loc sim d =
    (let ks = map fst (filter (\<lambda>(k, s). make_active tech loc s) d)
     in Inr (concat (map (prerequisite (sim = ''vsim'')) ks), concat (map (phony_target (sim = ''vsim'')) ks)))"
proof -
  have "res_foldM (\<lambda>(commands, phony) (k, s).
       res_bind (make_wanted tech loc s) (\<lambda>wanted.
         if \<not> wanted then Inr (commands, phony)
         else res_bind (simulator_locals sim) (\<lambda>(_, vmake).
           res_bind (py_fmt ''$(LIB_PATH)/%s.%s '' [k, vmake]) (\<lambda>cmd.
           res_map (\<lambda>target. (commands @ cmd, phony @ target))
             (if sim = ''vsim'' then py_fmt ''vcompile-subip-%s '' [k]
              else if sim = ''ncsim'' then py_fmt ''ncompile-subip-%s '' [k]
              else Inr []))))) (cs, ph) d =
    (let ks = map fst (filter (\<lambda>(k, s). make_active tech loc s) d)
     in Inr (cs @ concat (map (prerequisite (sim = ''vsim'')) ks), ph @ concat (map (phony_target (sim = ''vsim'')) ks)))"
    for cs ph
    using assms(1)
  proof (induction d arbitrary: cs ph)
    case (Cons p d)
    obtain k s where p: "p = (k, s)" by (cases p)
    with Cons.prems have wt: "well_typed s" by simp
    note step = make_prerequisites_step [OF wt assms(2,3), of loc]
    show ?case
      unfolding p res_foldM.simps prod.case step
      using Cons p by (auto simp: Let_def simp del: py_fmt.simps)
  qed simp
  from this [of "[]" "[]"] show ?thesis by (simp only: make_prerequisites_def append_Nil)
qed

lemma make_spec_not_blank:
  assumes "make_active tech loc s"
  shows "make_spec abs_path more_opts tech loc vsim s \<noteq> nl"
proof -
  have "fill MK_SUBIPRULE [a, b, c, d, e, f, g, h] \<noteq> []" "fill MKN_SUBIPRULE [a, b, c, d, e, f, g, h] \<noteq> []"
    for a b c d e f g h
    by (simp_all add: fill_def fmt_MK_SUBIPRULE fmt_MKN_SUBIPRULE)
  then have "fill (if vsim then MK_SUBIPRULE else MKN_SUBIPRULE) [a, b, c, d, e, f, g, h] \<noteq> []"
    for a b c d e f g h by simp
  then show ?thesis using assms by (simp add: make_spec_def nl_def append_eq_Cons_conv)
qed

lemma sub_export_make_blank:
  assumes "makeable s" and "tech_ok tech" and "known_simulator sim"
  shows "sub_export_make abs_path more_opts tech loc sim s = Inr nl \<longleftrightarrow> \<not> make_active tech loc s"
proof -
  have "sub_export_make abs_path more_opts tech loc sim s =
      Inr (make_spec abs_path more_opts tech loc (sim = ''vsim'') s)"
    using assms by (intro make.export_ok) simp
  then show ?thesis
    using make_spec_not_blank [of tech loc s] by (auto simp: make_spec_def)
qed

text \<open>Property C15. The library rule of an IP's makefile depends on exactly the sub-IPs that get a rule
  of their own: a prerequisite and a phony target for each sub-IP whose fragment is not blank, in
  the order of the table, so no prerequisite lacks a rule and no rule is left out.\<close>
theorem prerequisites_have_rules:
  assumes "ip_typed c" and "tech_ok tech" and "known_simulator sim"
  shows "make_prerequisites tech loc sim (c_sub_ips c) =
    (let ks = map fst (filter (\<lambda>(k, s). sub_export_make abs_path more_opts tech loc sim s \<noteq> Inr nl) (c_sub_ips c))
     in Inr (concat (map (prerequisite (sim = ''vsim'')) ks), concat (map (phony_target (sim = ''vsim'')) ks)))"
proof -
  have "filter (\<lambda>(k, s). sub_export_make abs_path more_opts tech loc sim s \<noteq> Inr nl) (c_sub_ips c) =
        filter (\<lambda>(k, s). make_active tech loc s) (c_sub_ips c)"
    using ip_typed_subs [OF assms(1)] assms(2,3)
    by (intro filter_cong) (auto simp: list_all_iff sub_export_make_blank)
  then show ?thesis
    using make_prerequisites_fold [OF ip_typed_subs [OF assms(1)] assms(2,3)] by (simp only:)
qed

lemma example_ip_typed: "ip_typed example_ip"
  by (simp add: ip_typed_def ip_wf_def example_ip_def makeable_def well_typed_def described_def field_def
        targeted_def)

theorem prerequisites_have_rules_witness:
  "make_prerequisites PNone False ''vsim'' (c_sub_ips example_ip) =
     Inr (''$(LIB_PATH)/rtl_part.vmake '', ''vcompile-subip-rtl_part '')"
proof -
  have "filter (\<lambda>(k, s). sub_export_make [] [] PNone False ''vsim'' s \<noteq> Inr nl) (c_sub_ips example_ip) =
      [hd (c_sub_ips example_ip)]"
    using ip_typed_subs [OF example_ip_typed]
    by (simp add: example_ip_def sub_export_make_blank known_simulator_def make_active_def targeted_def
          flagged_def described_def field_def)
  then show ?thesis
    using prerequisites_have_rules [OF example_ip_typed, of PNone "''vsim''" False "[]" "[]"]
    by (simp add: known_simulator_def prerequisite_def phony_target_def)
       (simp add: example_ip_def)
qed

subsection \<open>The scripts of an IP, and the interface it provides\<close>

definition sub_texts :: "(sub_ip \<Rightarrow> string) \<Rightarrow> ip_config \<Rightarrow> string" where
  "sub_texts spec c = concat (map (\<lambda>(k, s). spec s) (c_sub_ips c))"

lemma subs_ok:
  assumes "ip_typed c"
  shows "tech_ok tech \<Longrightarrow> known_simulator sim \<Longrightarrow>
      list_all (\<lambda>(k, s). makeable s \<and> tech_ok tech \<and> known_simulator sim) (c_sub_ips c)"
    and "tech_ok tech \<Longrightarrow> list_all (\<lambda>(k, s). well_typed s \<and> tech_ok tech) (c_sub_ips c)"
    and "list_all (\<lambda>(k, s). well_typed s) (c_sub_ips c)"
  using ip_typed_subs [OF assms] by (auto simp: list_all_iff)

definition ip_vsim_spec :: "string \<Rightarrow> string \<Rightarrow> pyval \<Rightarrow> bool \<Rightarrow> ip_config \<Rightarrow> string" where
  "ip_vsim_spec abs_path more_opts tech loc c =
     fill VSIM_PREAMBLE [py_str (c_vsim_dir c), prepare (c_name c), py_str (c_path c)] @
     sub_texts (vsim_spec abs_path more_opts tech loc) c @ VSIM_POSTAMBLE"

definition ip_synopsys_spec :: "pyval \<Rightarrow> string \<Rightarrow> ip_config \<Rightarrow> string" where
  "ip_synopsys_spec tech source c =
     fill SYNOPSYS_ANALYZE_PREAMBLE [c_name c] @ sub_texts (synopsys_spec (c_path c) tech source) c"

definition ip_cadence_spec :: "pyval \<Rightarrow> string \<Rightarrow> ip_config \<Rightarrow> string" where
  "ip_cadence_spec tech source c =
     fill CADENCE_ANALYZE_PREAMBLE [c_name c] @ sub_texts (cadence_spec (c_path c) tech source) c"

text \<open>A path is a nonempty string; an absolute one drops its slash and the variable before it.\<close>

definition string_path :: "ip_config \<Rightarrow> bool" where
  "string_path c \<longleftrightarrow> (\<exists>ch p. c_path c = PStr (ch # p))"

definition ip_make_spec ::
  "string \<Rightarrow> string \<Rightarrow> pyval \<Rightarrow> string \<Rightarrow> bool \<Rightarrow> bool \<Rightarrow> ip_config \<Rightarrow> string" where
  "ip_make_spec abs_path more_opts tech source loc vsim c =
     (let p = the_pstr (c_path c); absolute = (hd p = CHR ''/'');
          ks = map fst (filter (\<lambda>(k, s). make_active tech loc s) (c_sub_ips c))
      in fill (if vsim then MK_PREAMBLE else MKN_PREAMBLE)
           [prepare (c_name c),
            if absolute then [] else if source = ''ips'' then ''$(IPS_PATH)'' else ''$(RTL_PATH)'',
            if absolute then tl p else p,
            concat (map (phony_target vsim) ks), concat (map (prerequisite vsim) ks)] @
         MK_POSTAMBLE @ sub_texts (make_spec abs_path more_opts tech loc vsim) c)"

interpretation ip_vsim: exporter "\<lambda>c. ip_typed c \<and> tech_ok tech"
    "ip_export_vsim abs_path more_opts tech loc" "ip_vsim_spec abs_path more_opts tech loc"
    for abs_path more_opts tech loc
  by unfold_locales (simp add: ip_export_vsim_def fill_simps vsim.export_each subs_ok
      ip_vsim_spec_def sub_texts_def)

interpretation ip_synopsys: exporter "\<lambda>c. ip_typed c \<and> tech_ok tech"
    "ip_export_synopsys tech source" "ip_synopsys_spec tech source" for tech source
  by unfold_locales (simp add: ip_export_synopsys_def fill_simps synopsys.export_each subs_ok
      ip_synopsys_spec_def sub_texts_def)

interpretation ip_cadence: exporter "\<lambda>c. ip_typed c \<and> tech_ok tech"
    "ip_export_cadence tech source" "ip_cadence_spec tech source" for tech source
  by unfold_locales (simp add: ip_export_cadence_def fill_simps cadence.export_each subs_ok
      ip_cadence_spec_def sub_texts_def)

interpretation ip_vivado: exporter ip_typed "ip_export_vivado abs_path" "sub_texts (vivado_spec abs_path)"
    for abs_path
  by unfold_locales (simp add: ip_export_vivado_def vivado.export_each subs_ok sub_texts_def)

interpretation ip_synplify: exporter ip_typed "ip_export_synplify abs_path" "sub_texts (synplify_spec abs_path)"
    for abs_path
  by unfold_locales (simp add: ip_export_synplify_def synplify.export_each subs_ok sub_texts_def)

lemma simulator_locals_eq:
  "known_simulator sim \<Longrightarrow> simulator_locals sim =
     Inr (if sim = ''vsim'' then (MK_PREAMBLE, ''vmake'') else (MKN_PREAMBLE, ''nmake''))"
  by (auto simp: simulator_locals_def known_simulator_def)

interpretation ip_make: exporter "\<lambda>c. ip_typed c \<and> string_path c \<and> tech_ok tech \<and> known_simulator sim"
    "ip_export_make abs_path more_opts tech source loc sim"
    "ip_make_spec abs_path more_opts tech source loc (sim = ''vsim'')" for abs_path more_opts tech source loc sim
proof
  fix c
  assume c: "ip_typed c \<and> string_path c \<and> tech_ok tech \<and> known_simulator sim"
  then obtain ch p where path: "c_path c = PStr (ch # p)" by (auto simp: string_path_def)
  have pre: "make_prerequisites tech loc sim (c_sub_ips c) =
      (let ks = map fst (filter (\<lambda>(k, s). make_active tech loc s) (c_sub_ips c))
       in Inr (concat (map (prerequisite (sim = ''vsim'')) ks), concat (map (phony_target (sim = ''vsim'')) ks)))"
    using c by (intro make_prerequisites_fold ip_typed_subs) simp_all
  have each: "export_all (sub_export_make abs_path more_opts tech loc sim) t (c_sub_ips c) =
      Inr (t @ sub_texts (make_spec abs_path more_opts tech loc (sim = ''vsim'')) c)" for t
    using c by (simp add: make.export_each [OF subs_ok(1)] sub_texts_def)
  show "ip_export_make abs_path more_opts tech source loc sim c =
        Inr (ip_make_spec abs_path more_opts tech source loc (sim = ''vsim'') c)"
    unfolding ip_export_make_def pre Let_def res_bind_simps prod.case each
    using c by (simp add: path py_index_def simulator_locals_eq fill_simps ip_make_spec_def Let_def)
qed

text \<open>On a typed IP every simulation script is generated and is the preamble for its
  backend, filled with the names, followed by the fragments of its sub-IPs in the order of the
  table; the makefile names an absolute path without its slash and without a path variable.\<close>
theorem ip_simulation_scripts:
  assumes "ip_typed c" and "string_path c" and "tech_ok tech" and "known_simulator sim"
  shows "ip_export_make abs_path more_opts tech source loc sim c =
           Inr (ip_make_spec abs_path more_opts tech source loc (sim = ''vsim'') c) \<and>
         ip_export_vsim abs_path more_opts tech loc c = Inr (ip_vsim_spec abs_path more_opts tech loc c)"
  using assms by (simp add: ip_make.export_ok ip_vsim.export_ok)

theorem ip_simulation_scripts_witness:
  "ip_export_make ''$(IP_PATH)'' [] PNone ''ips'' False ''vsim'' example_ip =
     Inr (ip_make_spec ''$(IP_PATH)'' [] PNone ''ips'' False True example_ip)"
proof -
  have "string_path example_ip" by (simp add: string_path_def example_ip_def)
  then show ?thesis
    using ip_simulation_scripts [OF example_ip_typed, of PNone "''vsim''"] by (simp add: known_simulator_def)
qed

subsection \<open>Vivado: the variables that are set are those that are read\<close>

lemma prepare_upper_char:
  "(if is_word_char (char_upper c) then char_upper c else CHR ''_'') =
   char_upper (if is_word_char c then c else CHR ''_'')"
proof -
  have u: "char_upper CHR ''_'' = CHR ''_''" by code_simp
  show ?thesis
  proof (cases "is_letter c")
    case True
    then have "is_letter (char_upper c)" by (auto simp: is_letter_def char_upper_def Let_def)
    with True show ?thesis by (simp add: is_word_char_def)
  next
    case False
    then have "char_upper c = c" by (auto simp: is_letter_def char_upper_def Let_def)
    then show ?thesis using u by simp
  qed
qed

lemma prepare_upper: "prepare (py_upper s) = py_upper (prepare s)"
  by (simp add: prepare_def py_upper_def prepare_upper_char)

lemma ip_vivado_add_files_eq:
  assumes "list_all (\<lambda>(k, s). well_typed s) (c_sub_ips c)"
  shows "ip_vivado_add_files c =
    Inr (map (\<lambda>(k, s). prepare k) (filter (\<lambda>(k, s). synth_active ''xilinx'' s) (c_sub_ips c)))"
proof -
  have "res_foldM (\<lambda>l (k, s). res_map (\<lambda>w. if w then l @ [prepare k] else l) (vivado_wanted s)) l d =
      Inr (l @ map (\<lambda>(k, s). prepare k) (filter (\<lambda>(k, s). synth_active ''xilinx'' s) d))"
    if "list_all (\<lambda>(k, s). well_typed s) d" for l d
    using that by (induction d arbitrary: l) (auto simp: vivado_wanted_eq)
  from this [OF assms, of "[]"] show ?thesis by (simp add: ip_vivado_add_files_def)
qed

lemma ip_vivado_inc_dirs_eq:
  assumes "list_all (\<lambda>(k, s). well_typed s) (c_sub_ips c)"
  shows "ip_vivado_inc_dirs c =
    Inr (map PStr (concat (map (\<lambda>(k, s). strs (s_incdirs s)) (filter (\<lambda>(k, s). synth_active ''xilinx'' s) (c_sub_ips c)))))"
proof -
  have inc: "py_iter (s_incdirs s) = Inr (map PStr (strs (s_incdirs s)))" if "well_typed s" for s
    by (subst well_typed_fields(4) [OF that]) simp
  have "res_foldM (\<lambda>l (k, s). res_bind (vivado_wanted s) (\<lambda>w.
         if w then res_map (append l) (py_iter (s_incdirs s)) else Inr l)) l d =
      Inr (l @ map PStr (concat (map (\<lambda>(k, s). strs (s_incdirs s)) (filter (\<lambda>(k, s). synth_active ''xilinx'' s) d))))"
    if "list_all (\<lambda>(k, s). well_typed s) d" for l d
    using that by (induction d arbitrary: l) (auto simp: vivado_wanted_eq inc)
  from this [OF assms, of "[]"] show ?thesis by (simp add: ip_vivado_inc_dirs_def)
qed

lemma filter_map_snd: "filter P (map snd xs) = map snd (filter (\<lambda>(k, s). P s) xs)"
  by (induction xs) auto

lemma map_snd_pair: "map snd (map (\<lambda>(k, s). (f k, s)) xs) = map snd xs"
  by (induction xs) auto

text \<open>Property C16. The scripts for Vivado agree on their variables: the names listed for
  \<open>add_files\<close>, put in upper case as the database does, are those of the sub-IPs whose fragment is
  not blank, and each such fragment starts by setting the variable of exactly that name.\<close>
theorem vivado_variables_agree:
  assumes "ip_typed c"
  shows "\<exists>subs. res_map (map py_upper) (ip_vivado_add_files c) = Inr (map fst subs) \<and>
           map snd subs = filter (\<lambda>s. sub_export_vivado abs_path s \<noteq> Inr nl) (map snd (c_sub_ips c)) \<and>
           list_all (\<lambda>(v, s). \<exists>rest. sub_export_vivado abs_path s =
             Inr (fill VIVADO_PREAMBLE_SUBIP [s_name s, v] @ rest)) subs"
proof -
  let ?act = "filter (\<lambda>(k, s). synth_active ''xilinx'' s) (c_sub_ips c)"
  let ?subs = "map (\<lambda>(k, s). (prepare (py_upper k), s)) ?act"
  have wt: "list_all (\<lambda>(k, s). well_typed s) (c_sub_ips c)"
    by (rule subs_ok(3) [OF assms])
  have "fill VIVADO_PREAMBLE_SUBIP [a, b] = nl @ CHR ''#'' # CHR '' '' # a @ nl @ ''set SRC_'' @ b @ '' \" '' @ [CHR 0x5C] @ nl" for a b
    by (simp add: fill_def fmt_VIVADO_PREAMBLE_SUBIP nl_def)
  then have blank: "sub_export_vivado abs_path s = Inr nl \<longleftrightarrow> \<not> synth_active ''xilinx'' s" if "well_typed s" for s
    using that by (simp add: sub_export_vivado_eq vivado_spec_def nl_def)
  have "res_map (map py_upper) (ip_vivado_add_files c) = Inr (map fst ?subs)"
    by (simp add: ip_vivado_add_files_eq [OF wt] case_prod_beta comp_def prepare_upper)
  moreover have "map snd ?subs = filter (\<lambda>s. sub_export_vivado abs_path s \<noteq> Inr nl) (map snd (c_sub_ips c))"
  proof -
    have "filter (\<lambda>s. sub_export_vivado abs_path s \<noteq> Inr nl) (map snd (c_sub_ips c)) =
        filter (synth_active ''xilinx'') (map snd (c_sub_ips c))"
    proof (intro filter_cong refl)
      fix s assume "s \<in> set (map snd (c_sub_ips c))"
      then have "well_typed s" using wt by (auto simp: list_all_iff)
      then show "(sub_export_vivado abs_path s \<noteq> Inr nl) = synth_active ''xilinx'' s" by (simp add: blank)
    qed
    then show ?thesis by (simp only: filter_map_snd map_snd_pair)
  qed
  moreover have "list_all (\<lambda>(v, s). \<exists>rest. sub_export_vivado abs_path s =
      Inr (fill VIVADO_PREAMBLE_SUBIP [s_name s, v] @ rest)) ?subs"
  proof -
    have "\<exists>rest. sub_export_vivado abs_path s = Inr (fill VIVADO_PREAMBLE_SUBIP [s_name s, prepare (py_upper k)] @ rest)"
      if "(k, s) \<in> set ?act" for k s
    proof -
      have "s_name s = k" "well_typed s" "synth_active ''xilinx'' s"
        using that assms wt by (auto simp: list_all_iff ip_typed_def ip_wf_def)
      then show ?thesis by (simp add: sub_export_vivado_eq vivado_spec_def)
    qed
    then show ?thesis by (auto simp: list_all_iff)
  qed
  ultimately show ?thesis by blast
qed

theorem vivado_variables_agree_witness:
  "(\<exists>subs. Inr [''FPGA_PART''] = Inr (map fst subs) \<and>
     map snd subs = filter (\<lambda>s. sub_export_vivado ''$IPS'' s \<noteq> Inr nl) (map snd (c_sub_ips example_ip)) \<and>
     list_all (\<lambda>(v, s). \<exists>rest. sub_export_vivado ''$IPS'' s =
       Inr (fill VIVADO_PREAMBLE_SUBIP [s_name s, v] @ rest)) subs) \<and>
   res_map (map py_upper) (ip_vivado_add_files example_ip) = (Inr [''FPGA_PART''] :: string list res)"
proof -
  have "ip_vivado_add_files example_ip = Inr [''fpga_part'']"
    unfolding ip_vivado_add_files_eq [OF subs_ok(3) [OF example_ip_typed]]
    by (simp add: example_ip_def synth_active_def targeted_def flagged_def described_def field_def)
       code_simp
  moreover have "map py_upper [''fpga_part''] = [''FPGA_PART'']" by code_simp
  ultimately have names: "res_map (map py_upper) (ip_vivado_add_files example_ip) = (Inr [''FPGA_PART''] :: string list res)"
    by simp
  show ?thesis
    using vivado_variables_agree [OF example_ip_typed, of "''$IPS''"] unfolding names by simp
qed

end
