(* ===== verification/Ip_Database.thy ===== *)
theory Ip_Database imports Ip_Tree Ip_Config begin

section \<open>The IP database: construction, cache and conflict resolution\<close>

text \<open>
  \<open>ipstools/ipstools/IPDatabase.py\<close> up to \<open>import_yaml\<close>: the constructor with its optional phases
  (dependency tree, conflict resolution, cache, import of the \<open>src_files.yml\<close> files), the JSON
  cache, and the dialogue that resolves conflicts.  \<open>env\<close> collects what is outside the sources: the
  file system, the process environment, the YAML and JSON libraries, the order of sets, the
  pipelines and the recursion limit of the interpreter.  The lists of IPs are the Python values
  they are; the keyboard is a list of answers.  Messages are left out.
\<close>

subsection \<open>Environment and state\<close>

record env =
  env_read :: "string \<Rightarrow> string res"
  env_exists :: "string \<Rightarrow> bool"
  env_site :: "string option"
  env_yaml :: "string \<Rightarrow> pyval res"
  env_set_list :: "pyval list \<Rightarrow> pyval list"
  env_pipe :: "string list \<Rightarrow> string list \<Rightarrow> string option"
  env_loads :: "string \<Rightarrow> pyval res"
  env_dumps :: "pyval \<Rightarrow> string"
  env_gunzip :: "string \<Rightarrow> string res"
  env_limit :: nat

record ip_db =
  d_ips_dir :: pyval
  d_rtl_dir :: pyval
  d_vsim_dir :: pyval
  d_fpgasim_dir :: pyval
  d_ip_dic :: "(string \<times> ip_config) list"
  d_rtl_dic :: "(string \<times> ip_config) list"
  d_default_server :: pyval
  d_default_group :: pyval
  d_default_commit :: pyval
  d_ip_list :: pyval
  d_rtl_list :: pyval
  d_ip_tree :: "ip_tree list option"

record db_options =
  opt_list_path :: string
  opt_ips_dir :: string
  opt_rtl_dir :: string
  opt_vsim_dir :: string
  opt_fpgasim_dir :: string
  opt_skip_scripts :: bool
  opt_build_deps_tree :: bool
  opt_resolve_deps_conflicts :: bool
  opt_default_server :: string
  opt_default_group :: string
  opt_default_commit :: string
  opt_load_cache :: bool

definition ALLOWED_SOURCES :: "string list" where
  "ALLOWED_SOURCES = [''ips'', ''rtl'']"

text \<open>An entry as the dictionary the source keeps it in.\<close>

definition entry_val :: "ip_entry \<Rightarrow> pyval" where
  "entry_val e =
     PDict [(''name'', PStr (e_name e)), (''commit'', e_commit e), (''server'', e_server e),
            (''group'', e_group e), (''path'', e_path e), (''domain'', e_domain e),
            (''alternatives'', e_alternatives e)]"

subsection \<open>The dependency tree\<close>

definition db_fetch :: "env \<Rightarrow> origin \<Rightarrow> ip_entry list res" where
  "db_fetch env g =
     load_ips_list_from_server (env_pipe env) (env_yaml env) (env_set_list env)
       (o_server g) (o_group g) (o_name g) (o_commit g) False"

definition generate_deps_tree :: "env \<Rightarrow> pyval \<Rightarrow> pyval \<Rightarrow> pyval \<Rightarrow> ip_entry list \<Rightarrow> ip_tree list res" where
  "generate_deps_tree env default_server default_group default_commit ip_list =
     res_map snd (make_nodes (db_fetch env) (origin_of default_server default_group default_commit)
       (env_limit env) None 0 ip_list)"

subsection \<open>Resolving conflicts\<close>

datatype answer = Line string | CtrlC

text \<open>
  \<open>str.isdigit\<close> also accepts the superscripts one, two and three of the 8-bit characters, which
  \<open>int\<close> then refuses.
\<close>

definition is_digit_8bit :: "char \<Rightarrow> bool" where
  "is_digit_8bit c \<longleftrightarrow> is_digit c \<or> code_of c \<in> {178, 179, 185}"

definition str_isdigit :: "string \<Rightarrow> bool" where
  "str_isdigit s \<longleftrightarrow> s \<noteq> [] \<and> list_all is_digit_8bit s"

definition py_int :: "string \<Rightarrow> nat res" where
  "py_int s = (if list_all is_digit s then Inr (digits_value s) else Inl ValueError)"

text \<open>The \<open>while not flag\<close> loop for one conflict among \<open>n\<close> nodes: the index chosen, or the escape.\<close>

fun ask :: "nat \<Rightarrow> answer list \<Rightarrow> (nat option \<times> answer list) res" where
  "ask n [] = Inl EOFError"
| "ask n (CtrlC # inp) = Inr (None, inp)"
| "ask n (Line s # inp) =
     (if \<not> str_isdigit s then ask n inp
      else res_bind (py_int s) (\<lambda>i.
        if i < 1 \<or> n < i then ask n inp else Inr (Some (i - 1), inp)))"

fun select_all ::
  "(string \<times> ip_tree list) list \<Rightarrow> answer list \<Rightarrow> (string \<times> ip_tree) list \<Rightarrow>
   ((string \<times> ip_tree) list option \<times> answer list) res" where
  "select_all [] inp selected = Inr (Some selected, inp)"
| "select_all ((c, gs) # conflicts) inp selected =
     (if length gs = 1 then select_all conflicts inp (od_set c (gs ! 0) selected)
      else res_bind (ask (length gs) inp) (\<lambda>(i, inp').
        case i of
          None \<Rightarrow> Inr (None, inp')
        | Some i \<Rightarrow> select_all conflicts inp' (od_set c (gs ! i) selected)))"

text \<open>The new list of IPs; \<open>None\<close> is what a bare \<open>return\<close> gives.\<close>

definition resolve_deps_conflicts ::
  "ip_tree list option \<Rightarrow> answer list \<Rightarrow> (ip_entry list option \<times> answer list) res" where
  "resolve_deps_conflicts tree inp =
     (case tree of
        None \<Rightarrow> Inl AttributeError
      | Some root \<Rightarrow>
          res_map (\<lambda>(sel, inp'). (map_option (map (node \<circ> snd)) sel, inp'))
            (select_all (get_conflicts root) inp []))"

subsection \<open>The cache\<close>

definition cache_doc :: "ip_db \<Rightarrow> pyval" where
  "cache_doc db =
     PDict [(''ips_dir'', d_ips_dir db), (''rtl_dir'', d_rtl_dir db), (''vsim_dir'', d_vsim_dir db),
            (''fpgasim_dir'', d_fpgasim_dir db), (''ip_list'', d_ip_list db), (''rtl_list'', d_rtl_list db)]"

text \<open>
  The file written, and its text.  The parameter \<open>gzip\<close> hides the module: \<open>gzip.open\<close> on a
  Boolean is an \<open>AttributeError\<close>.
\<close>

definition save_database :: "env \<Rightarrow> string \<Rightarrow> bool \<Rightarrow> ip_db \<Rightarrow> (string \<times> string) res" where
  "save_database env filename gzip db =
     (if gzip then Inl AttributeError else Inr (filename, env_dumps env (cache_doc db)))"

text \<open>\<open>filename[-3:-1] == ".gz"\<close> chooses the reader.\<close>

definition load_database :: "env \<Rightarrow> string \<Rightarrow> ip_db \<Rightarrow> ip_db res" where
  "load_database env filename db =
     res_bind (if slice_neg 3 1 filename = ''.gz'' then env_gunzip env filename
               else env_read env filename) (\<lambda>json_dump.
     res_bind (env_loads env json_dump) (\<lambda>self_dict.
     res_bind (py_item self_dict ''ips_dir'') (\<lambda>ips_dir.
     res_bind (py_item self_dict ''rtl_dir'') (\<lambda>rtl_dir.
     res_bind (py_item self_dict ''vsim_dir'') (\<lambda>vsim_dir.
     res_bind (py_item self_dict ''fpgasim_dir'') (\<lambda>fpgasim_dir.
     res_bind (py_item self_dict ''ip_list'') (\<lambda>ip_list.
     res_bind (py_item self_dict ''rtl_list'') (\<lambda>rtl_list.
       Inr (db\<lparr>d_ips_dir := ips_dir, d_rtl_dir := rtl_dir, d_vsim_dir := vsim_dir,
               d_fpgasim_dir := fpgasim_dir, d_ip_list := ip_list, d_rtl_list := rtl_list\<rparr>)))))))))"

subsection \<open>Importing an IP\<close>

text \<open>\<open>os.path.dirname\<close>: all before the last slash, without trailing slashes unless only slashes.\<close>

definition dirname :: "string \<Rightarrow> string" where
  "dirname p =
     (let head = rev (dropWhile (\<lambda>c. c \<noteq> CHR ''/'') (rev p))
      in if list_all (\<lambda>c. c = CHR ''/'') head then head
         else rev (dropWhile (\<lambda>c. c = CHR ''/'') (rev head)))"

text \<open>The dictionary updated; one without \<open>src_files.yml\<close> is skipped.\<close>

definition import_yaml ::
  "env \<Rightarrow> pyval \<Rightarrow> pyval \<Rightarrow> (string \<times> ip_config) list \<Rightarrow> string \<Rightarrow> string \<Rightarrow> pyval \<Rightarrow> pyval \<Rightarrow> pyval \<Rightarrow>
   (string \<times> ip_config) list res" where
  "import_yaml env vsim_dir ips_dir dic ip_name filename ip_path domain alternatives =
     (if \<not> env_exists env (dirname filename) then Inl (SystemExit 1)
      else res_bind
        (res_catch OSError
           (res_bind (env_read env filename) (\<lambda>text. res_map Some (env_yaml env text)))
           (Inr None)) (\<lambda>doc.
        case doc of
          None \<Rightarrow> Inr dic
        | Some yml \<Rightarrow>
            res_catch KeyError
              (res_map (\<lambda>c. od_set ip_name c dic)
                (ip_init ip_name yml ip_path ips_dir vsim_dir domain alternatives))
              (Inr dic)))"

text \<open>
  One pass of the loops of the constructor over \<open>ip_list\<close> and \<open>rtl_list\<close>: the entry, with its path
  replaced when it depends on the site, and the dictionary.  Names are strings.
\<close>

definition import_entry ::
  "env \<Rightarrow> string \<Rightarrow> string \<Rightarrow> pyval \<Rightarrow> pyval \<Rightarrow> (string \<times> ip_config) list \<Rightarrow> pyval \<Rightarrow>
   (pyval \<times> (string \<times> ip_config) list) res" where
  "import_entry env list_path dir vsim_dir ips_dir dic ip =
     res_bind (res_bind (py_item ip ''name'') py_as_str) (\<lambda>name.
     res_bind (py_item ip ''path'') (\<lambda>path.
     res_bind
       (if path = PStr ''$SITE_DEPENDENT_PATH'' then
          (case env_site env of
             None \<Rightarrow> Inl (SystemExit 1)
           | Some p \<Rightarrow>
               (case ip of
                  PDict kvs \<Rightarrow> Inr (p @ ''/src_files.yml'', PDict (od_set ''path'' (PStr p) kvs), PStr p)
                | _ \<Rightarrow> Inl TypeError))
        else Inr (list_path @ ''/'' @ dir @ ''/'' @ py_str path @ ''/src_files.yml'', ip, path)) (\<lambda>(filename, ip, path).
     res_bind (py_item ip ''domain'') (\<lambda>domain.
     res_bind (py_item ip ''alternatives'') (\<lambda>alternatives.
     res_map (Pair ip) (import_yaml env vsim_dir ips_dir dic name filename path domain alternatives))))))"

definition import_all ::
  "env \<Rightarrow> string \<Rightarrow> string \<Rightarrow> pyval \<Rightarrow> pyval \<Rightarrow> pyval \<Rightarrow> (pyval list \<times> (string \<times> ip_config) list) res" where
  "import_all env list_path dir vsim_dir ips_dir ips =
     res_bind (py_iter ips) (\<lambda>xs.
       res_foldM (\<lambda>(seen, dic) ip.
         res_map (\<lambda>(ip', dic'). (seen @ [ip'], dic'))
           (import_entry env list_path dir vsim_dir ips_dir dic ip)) ([], []) xs)"

text \<open>The warning about sub-IPs of the same name: nothing, or the names counted more than once.\<close>

definition sub_ip_names :: "(string \<times> ip_config) list \<Rightarrow> string list" where
  "sub_ip_names dic = concat (map (\<lambda>(k, c). od_keys (c_sub_ips c)) dic)"

definition duplicate_warning :: "(string list \<Rightarrow> string list) \<Rightarrow> string list \<Rightarrow> string list option" where
  "duplicate_warning set_list names =
     (if length (set_list names) \<noteq> length names then
        let blacklist = foldl (\<lambda>d el.
          foldl (\<lambda>d item. if el = item
                          then od_set el ((case map_of d el of None \<Rightarrow> 0 | Some n \<Rightarrow> n) + (1 :: nat)) d else d)
            (od_set el 0 d) names) [] (set_list names)
        in Some (map fst (filter (\<lambda>(el, cnt). 1 < cnt) blacklist))
      else None)"

subsection \<open>The constructor\<close>

text \<open>The lists and the tree, before any script is looked at.\<close>

definition init_lists :: "env \<Rightarrow> db_options \<Rightarrow> answer list \<Rightarrow> ip_db res" where
  "init_lists env o' inp =
     res_bind (res_catch OSError
       (load_ips_list (env_yaml env) (env_set_list env) (env_read env)
          (opt_list_path o' @ ''/ips_list.yml'') False) (Inr [])) (\<lambda>ips.
     res_bind (res_catch OSError
       (res_map Some (load_ips_list (env_yaml env) (env_set_list env) (env_read env)
          (opt_list_path o' @ ''/rtl_list.yml'') True)) (Inr None)) (\<lambda>rtls.
     res_bind (if opt_build_deps_tree o'
       then res_map Some (generate_deps_tree env (PStr (opt_default_server o'))
              (PStr (opt_default_group o')) (PStr (opt_default_commit o')) ips)
       else Inr None) (\<lambda>tree.
     res_bind (if opt_resolve_deps_conflicts o'
       then res_map fst (resolve_deps_conflicts tree inp) else Inr (Some ips)) (\<lambda>ip_list.
       Inr \<lparr>d_ips_dir = PStr (opt_ips_dir o'), d_rtl_dir = PStr (opt_rtl_dir o'),
            d_vsim_dir = PStr (opt_vsim_dir o'), d_fpgasim_dir = PStr (opt_fpgasim_dir o'),
            d_ip_dic = [], d_rtl_dic = [],
            d_default_server = PStr (opt_default_server o'),
            d_default_group = PStr (opt_default_group o'),
            d_default_commit = PStr (opt_default_commit o'),
            d_ip_list = (case ip_list of None \<Rightarrow> PNone | Some es \<Rightarrow> PList (map entry_val es)),
            d_rtl_list = (case rtls of None \<Rightarrow> PNone | Some es \<Rightarrow> PList (map entry_val es)),
            d_ip_tree = tree\<rparr>))))"

text \<open>The loop updates the entries of a list in place.\<close>

fun relist :: "pyval \<Rightarrow> pyval list \<Rightarrow> pyval" where
  "relist (PList vs) ips = PList ips"
| "relist v ips = v"

definition import_ips :: "env \<Rightarrow> db_options \<Rightarrow> ip_db \<Rightarrow> ip_db res" where
  "import_ips env o' db =
     res_map (\<lambda>(ips, dic). db\<lparr>d_ip_list := relist (d_ip_list db) ips, d_ip_dic := dic\<rparr>)
       (import_all env (opt_list_path o') (opt_ips_dir o') (d_vsim_dir db) (d_ips_dir db) (d_ip_list db))"

definition import_rtl :: "env \<Rightarrow> db_options \<Rightarrow> ip_db \<Rightarrow> ip_db res" where
  "import_rtl env o' db =
     (if d_rtl_list db = PNone then Inr db
      else res_map (\<lambda>(ips, dic). db\<lparr>d_rtl_list := relist (d_rtl_list db) ips, d_rtl_dic := dic\<rparr>)
        (import_all env (opt_list_path o') (opt_rtl_dir o') (d_vsim_dir db) (PStr (opt_rtl_dir o'))
           (d_rtl_list db)))"

definition db_init :: "env \<Rightarrow> db_options \<Rightarrow> answer list \<Rightarrow> ip_db res" where
  "db_init env o' inp =
     res_bind (init_lists env o' inp) (\<lambda>db.
     res_bind (if opt_load_cache o' then load_database env ''.cached_ipdb.json'' db else Inr db) (\<lambda>db.
       if opt_skip_scripts o' then Inr db
       else res_bind (import_ips env o' db) (import_rtl env o')))"

subsection \<open>The dialogue\<close>

definition accepted :: "nat \<Rightarrow> string \<Rightarrow> bool" where
  "accepted n s \<longleftrightarrow> py_isdigit s \<and> 1 \<le> digits_value s \<and> digits_value s \<le> n"

definition rejected :: "nat \<Rightarrow> answer \<Rightarrow> bool" where
  "rejected n a = (case a of CtrlC \<Rightarrow> False
     | Line s \<Rightarrow> \<not> str_isdigit s \<or> (py_isdigit s \<and> \<not> accepted n s))"

lemma str_isdigit_py: "py_isdigit s \<Longrightarrow> str_isdigit s"
  by (auto simp: py_isdigit_def str_isdigit_def is_digit_8bit_def list_all_iff)

lemma py_int_digits: "py_isdigit s \<Longrightarrow> py_int s = Inr (digits_value s)"
  by (simp add: py_int_def py_isdigit_def)

lemma py_int_Inr: "str_isdigit s \<Longrightarrow> py_int s = Inr i \<Longrightarrow> py_isdigit s \<and> i = digits_value s"
  by (auto simp: py_int_def py_isdigit_def str_isdigit_def split: if_splits)

lemma ask_rejected: "rejected n a \<Longrightarrow> ask n (a # inp) = ask n inp"
  by (cases a) (auto simp: rejected_def accepted_def py_int_digits str_isdigit_py)

lemma ask_rejected_all: "list_all (rejected n) pre \<Longrightarrow> ask n (pre @ inp) = ask n inp"
  by (induction pre) (auto simp: ask_rejected)

lemma ask_accepted: "accepted n s \<Longrightarrow> ask n (Line s # inp) = Inr (Some (digits_value s - 1), inp)"
  by (auto simp: accepted_def str_isdigit_py py_int_digits)

lemma ask_Inr:
  "ask n inp = Inr (r, rest) \<Longrightarrow>
   \<exists>pre a. inp = pre @ a # rest \<and> list_all (rejected n) pre \<and>
     (case r of None \<Rightarrow> a = CtrlC
      | Some i \<Rightarrow> \<exists>s. a = Line s \<and> accepted n s \<and> i = digits_value s - 1)"
proof (induction inp)
  case (Cons x inp)
  show ?case
  proof (cases "rejected n x")
    case True
    then have "ask n inp = Inr (r, rest)" using Cons.prems by (simp add: ask_rejected)
    from Cons.IH [OF this] obtain pre a where "inp = pre @ a # rest" "list_all (rejected n) pre"
      "case r of None \<Rightarrow> a = CtrlC
       | Some i \<Rightarrow> \<exists>s. a = Line s \<and> accepted n s \<and> i = digits_value s - 1" by blast
    with True show ?thesis by (intro exI [of _ "x # pre"] exI [of _ a]) simp
  next
    case False
    show ?thesis
    proof (cases x)
      case CtrlC
      with Cons.prems show ?thesis by (intro exI [of _ "[]"] exI [of _ x]) auto
    next
      case (Line s)
      with False have str: "str_isdigit s" by (simp add: rejected_def)
      from Cons.prems Line str obtain i where i: "py_int s = Inr i" by (auto simp: res_bind_Inr_iff)
      from py_int_Inr [OF str i] False Line have "accepted n s" by (auto simp: rejected_def)
      with ask_accepted [OF this, of inp] Cons.prems Line show ?thesis
        by (intro exI [of _ "[]"] exI [of _ x]) auto
    qed
  qed
qed simp

text \<open>Property C5. The dialogue for a conflict among \<open>n\<close> nodes returns an index exactly when the first
  answer it does not reject is a number between 1 and \<open>n\<close>, and then the index is that number less
  one, so it is below \<open>n\<close>; it escapes exactly when that first answer is CTRL+C.  Words and numbers
  out of range are asked again, and what follows the answer is left unread.\<close>
theorem dialogue_outcome:
  "(ask n inp = Inr (Some i, rest) \<longleftrightarrow>
      (\<exists>pre s. inp = pre @ Line s # rest \<and> list_all (rejected n) pre \<and> accepted n s \<and>
               i = digits_value s - 1 \<and> i < n)) \<and>
   (ask n inp = Inr (None, rest) \<longleftrightarrow>
      (\<exists>pre. inp = pre @ CtrlC # rest \<and> list_all (rejected n) pre))"
proof (intro conjI iffI)
  assume "ask n inp = Inr (Some i, rest)"
  from ask_Inr [OF this] show "\<exists>pre s. inp = pre @ Line s # rest \<and> list_all (rejected n) pre \<and>
      accepted n s \<and> i = digits_value s - 1 \<and> i < n"
    by (fastforce simp: accepted_def)
next
  assume "ask n inp = Inr (None, rest)"
  from ask_Inr [OF this] show "\<exists>pre. inp = pre @ CtrlC # rest \<and> list_all (rejected n) pre" by auto
qed (auto simp: ask_rejected_all ask_accepted simp del: ask.simps(3))

subsection \<open>The resolved list\<close>

lemma select_all_keys:
  assumes "select_all cs inp sel = Inr (Some sel', inp')" and "od_ok (sel @ map (\<lambda>(c, gs). (c, undefined)) cs)"
    and "list_all (\<lambda>(c, gs). gs \<noteq> []) cs"
  shows "\<exists>new. sel' = sel @ new \<and> list_all2 (\<lambda>(c, gs) (c', g). c' = c \<and> g \<in> set gs) cs new"
  using assms
proof (induction cs arbitrary: inp sel)
  case Nil
  then show ?case by simp
next
  case (Cons p cs)
  obtain c gs where p: "p = (c, gs)" by (cases p)
  have new: "od_set c g sel = sel @ [(c, g)]" for g
    using Cons.prems(2) p by (intro od_set_new) auto
  obtain g inp'' where g: "g \<in> set gs"
    and sel: "select_all cs inp'' (sel @ [(c, g)]) = Inr (Some sel', inp')"
  proof (cases "length gs = 1")
    case True
    then have "gs ! 0 \<in> set gs" by simp
    with True Cons.prems(1) p that [of "gs ! 0" inp] show ?thesis by (simp add: new)
  next
    case False
    with Cons.prems(1) p obtain i inp'' where a: "ask (length gs) inp = Inr (Some i, inp'')"
      and s: "select_all cs inp'' (od_set c (gs ! i) sel) = Inr (Some sel', inp')"
      by (auto simp: res_bind_Inr_iff split: option.splits)
    from ask_Inr [OF a] have "i < length gs" by (fastforce simp: accepted_def)
    then have "gs ! i \<in> set gs" by simp
    with s that [of "gs ! i" inp''] show ?thesis by (simp add: new)
  qed
  have "od_ok ((sel @ [(c, g)]) @ map (\<lambda>(c, gs). (c, undefined)) cs)"
    using Cons.prems(2) p by simp
  from Cons.IH [OF sel this] Cons.prems(3) p obtain rest where "sel' = (sel @ [(c, g)]) @ rest"
    "list_all2 (\<lambda>(c, gs) (c', g). c' = c \<and> g \<in> set gs) cs rest" by auto
  with g p show ?case by (intro exI [of _ "(c, g) # rest"]) simp
qed

theorem dialogue_outcome_eval:
  "ask 2 [Line ''master'', Line ''3'', Line ''2'', CtrlC] = Inr (Some 1, [CtrlC]) \<and>
   ask 2 [Line ''0'', CtrlC] = Inr (None, []) \<and> ask 2 [Line [char_of (178 :: nat)]] = Inl ValueError"
  by code_simp

lemma conflicts_typed:
  assumes "make_nodes fetch org fuel fth k es = Inr (k', root)"
  shows "od_keys (get_conflicts root) = first_by (\<lambda>n. n) (map node_name (flattenize_children root))"
    and "list_all (\<lambda>(c, gs). gs \<noteq> [] \<and> set gs \<subseteq> set (flattenize_children root) \<and>
           (\<forall>g\<in>set gs. node_name g = c)) (get_conflicts root)"
proof -
  let ?flat = "flattenize_children root"
  have spec: "get_conflicts root =
      map (\<lambda>n. (n, first_by (\<lambda>g. py_norm (node_commit g)) (named n ?flat))) (first_by (\<lambda>n. n) (map node_name ?flat))"
    using make_node_ids(2) [OF assms] by (intro get_conflicts_spec) simp
  show "od_keys (get_conflicts root) = first_by (\<lambda>n. n) (map node_name ?flat)"
    unfolding spec by (simp add: od_keys_def comp_def)
  have names: "set (first_by (\<lambda>n. n) (map node_name ?flat)) = node_name ` set ?flat"
    using image_first_by [of "\<lambda>n. n" "map node_name ?flat"] by simp
  have "first_by (\<lambda>g. py_norm (node_commit g)) (named n ?flat) \<noteq> []" if "n \<in> node_name ` set ?flat" for n
    using that by (auto simp: filter_empty_conv)
  moreover have "set (first_by (\<lambda>g. py_norm (node_commit g)) (named n ?flat)) \<subseteq> set (named n ?flat)" for n
    by (rule set_first_by)
  ultimately show "list_all (\<lambda>(c, gs). gs \<noteq> [] \<and> set gs \<subseteq> set ?flat \<and> (\<forall>g\<in>set gs. node_name g = c)) (get_conflicts root)"
    unfolding spec using names by (fastforce simp: list_all_iff)
qed

lemma select_from_conflicts:
  assumes "list_all2 (\<lambda>(c, gs) (c', g). c' = c \<and> g \<in> set gs) cs new"
    and "list_all (\<lambda>(c, gs). gs \<noteq> [] \<and> set gs \<subseteq> F \<and> (\<forall>g\<in>set gs. node_name g = c)) cs"
  shows "map (e_name \<circ> (node \<circ> snd)) new = od_keys cs \<and> node ` snd ` set new \<subseteq> node ` F"
  using assms
proof (induction cs new rule: list_all2_induct)
  case (Cons p cs q new)
  then show ?case by (cases p; cases q) auto
qed simp

lemma resolution_spec:
  assumes "make_nodes fetch org fuel fth k ips = Inr (k', root)"
    and "resolve_deps_conflicts (Some root) inp = Inr (Some es, inp')"
  shows "map e_name es = first_by (\<lambda>n. n) (map node_name (flattenize_children root)) \<and>
         distinct (map e_name es) \<and> set es \<subseteq> node ` set (flattenize_children root)"
proof -
  let ?cs = "get_conflicts root"
  from assms(2) obtain r where r: "select_all ?cs inp [] = Inr (r, inp')"
    and "Some es = map_option (map (node \<circ> snd)) r"
    by (auto simp: resolve_deps_conflicts_def res_map_Inr_iff)
  then obtain sel where sel: "select_all ?cs inp [] = Inr (Some sel, inp')"
    and es: "es = map (node \<circ> snd) sel" by (cases r) auto
  have keys: "od_keys ?cs = first_by (\<lambda>n. n) (map node_name (flattenize_children root))"
    by (rule conflicts_typed(1) [OF assms(1)])
  have ok: "distinct (od_keys ?cs)"
    unfolding keys using distinct_first_by [of "\<lambda>n. n" "map node_name (flattenize_children root)"] by simp
  have typed: "list_all (\<lambda>(c, gs). gs \<noteq> [] \<and> set gs \<subseteq> set (flattenize_children root) \<and>
      (\<forall>g\<in>set gs. node_name g = c)) ?cs"
    by (rule conflicts_typed(2) [OF assms(1)])
  have "od_ok ([] @ map (\<lambda>(c, gs). (c, undefined)) ?cs)" using ok by (simp add: keys_undefined)
  moreover have "list_all (\<lambda>(c, gs). gs \<noteq> []) ?cs" using typed by (auto simp: list_all_iff)
  ultimately have "list_all2 (\<lambda>(c, gs) (c', g). c' = c \<and> g \<in> set gs) ?cs sel"
    using select_all_keys [OF sel] by auto
  from select_from_conflicts [OF this typed] show ?thesis
    using ok keys es by auto
qed

text \<open>Property C2. The list that replaces the IPs after the dialogue is free of conflicts and complete:
  it has one entry per IP name in the tree, in the order of first occurrence, no name twice, and
  every entry is that of a node of the tree.\<close>
theorem resolution_one_per_name:
  assumes "make_nodes fetch org fuel fth k ips = Inr (k', root)"
    and "resolve_deps_conflicts (Some root) inp = Inr (Some es, inp')"
  shows "map e_name es = first_by (\<lambda>n. n) (map node_name (flattenize_children root)) \<and>
         distinct (map e_name es) \<and> set es \<subseteq> node ` set (flattenize_children root)"
  using assms by (rule resolution_spec)

lemma select_all_single:
  "list_all (\<lambda>(c, gs). length gs = 1) cs \<Longrightarrow>
   select_all cs inp sel = Inr (Some (foldl (\<lambda>d (c, gs). od_set c (hd gs) d) sel cs), inp)"
proof (induction cs arbitrary: sel)
  case (Cons p cs)
  obtain c gs where p: "p = (c, gs)" by (cases p)
  with Cons.prems have "gs ! 0 = hd gs" by (cases gs) auto
  then show ?case using Cons p by simp
qed simp

text \<open>When no IP is wanted at two commits nobody is asked: whatever is typed, the
  resolution returns and leaves the input alone.\<close>
theorem no_conflict_no_question:
  assumes "list_all (\<lambda>(c, gs). length gs = 1) (get_conflicts root)"
  shows "\<exists>es. \<forall>inp. resolve_deps_conflicts (Some root) inp = Inr (Some es, inp)"
  using select_all_single [OF assms, of _ "[]"] by (auto simp: resolve_deps_conflicts_def)

text \<open>Two IPs that want different commits of a third.\<close>

definition example_node :: "nat \<Rightarrow> string \<Rightarrow> string \<Rightarrow> ip_tree list \<Rightarrow> ip_tree" where
  "example_node i n c cs =
     IPTreeNode i (leaf_entry n\<lparr>e_commit := PStr c\<rparr>) None (example_org (leaf_entry n\<lparr>e_commit := PStr c\<rparr>)) cs"

theorem no_conflict_no_question_witness:
  "\<exists>es. \<forall>inp. resolve_deps_conflicts (Some [example_node 0 ''a'' ''v1'' [example_node 1 ''b'' ''v1'' []]]) inp = Inr (Some es, inp)"
  by (rule no_conflict_no_question) code_simp

definition pinned_fetch :: "origin \<Rightarrow> ip_entry list res" where
  "pinned_fetch g =
     (if o_name g = ''a'' then Inr [leaf_entry ''c''\<lparr>e_commit := PStr ''v1''\<rparr>]
      else if o_name g = ''b'' then Inr [leaf_entry ''c''\<lparr>e_commit := PStr ''v2''\<rparr>] else Inr [])"

theorem resolution_one_per_name_witness:
  "\<exists>root es. make_nodes pinned_fetch example_org 9 None 0 [leaf_entry ''a'', leaf_entry ''b''] = Inr (4, root) \<and>
     resolve_deps_conflicts (Some root) [Line ''x'', Line ''2''] = Inr (Some es, []) \<and>
     map e_name es = [''c'', ''a'', ''b''] \<and> e_commit (hd es) = PStr ''v2'' \<and> distinct (map e_name es)"
proof -
  define root where "root = snd (the (map_option id (case make_nodes pinned_fetch example_org 9 None 0
    [leaf_entry ''a'', leaf_entry ''b''] of Inl _ \<Rightarrow> None | Inr r \<Rightarrow> Some r)))"
  have nodes: "make_nodes pinned_fetch example_org 9 None 0 [leaf_entry ''a'', leaf_entry ''b''] = Inr (4, root)"
    unfolding root_def by code_simp
  define es where "es = the (fst (case resolve_deps_conflicts (Some root) [Line ''x'', Line ''2''] of
    Inl _ \<Rightarrow> (None, []) | Inr r \<Rightarrow> r))"
  have res: "resolve_deps_conflicts (Some root) [Line ''x'', Line ''2''] = Inr (Some es, [])"
    unfolding es_def root_def by code_simp
  have names: "map e_name es = [''c'', ''a'', ''b''] \<and> e_commit (hd es) = PStr ''v2''"
    unfolding es_def root_def by code_simp
  from resolution_one_per_name [OF nodes res] have "distinct (map e_name es)" by blast
  with names show ?thesis by (intro exI conjI) (rule nodes, rule res, simp_all)
qed

subsection \<open>The cache\<close>

lemma gz_never: "slice_neg 3 (Suc 0) s \<noteq> ''.gz''"
proof
  assume "slice_neg 3 (Suc 0) s = ''.gz''"
  with length_slice_neg [of 3 "Suc 0" s] show False by simp
qed

text \<open>The compressed form of the cache is unreachable: saving with \<open>gzip\<close> set raises, since
  the parameter hides the module, and loading never decompresses whatever the file is called, since
  the slice it compares with \<open>.gz\<close> has at most two characters.\<close>
theorem cache_never_gzipped:
  "save_database env filename True db = Inl AttributeError \<and>
   load_database (env\<lparr>env_gunzip := gunzip\<rparr>) filename db = load_database env filename db"
  by (simp add: save_database_def load_database_def gz_never)

text \<open>A saved cache loads back: when the JSON library reads what it wrote and the file
  holds what was saved, loading it into any database restores the four directories and both lists
  and touches nothing else.\<close>
theorem cache_roundtrip:
  assumes "save_database env filename False db = Inr (filename, text)"
    and "env_loads env' (env_dumps env (cache_doc db)) = Inr (cache_doc db)"
    and "env_read env' filename = Inr text"
  shows "load_database env' filename db0 =
         Inr (db0\<lparr>d_ips_dir := d_ips_dir db, d_rtl_dir := d_rtl_dir db, d_vsim_dir := d_vsim_dir db,
                  d_fpgasim_dir := d_fpgasim_dir db, d_ip_list := d_ip_list db, d_rtl_list := d_rtl_list db\<rparr>)"
  using assms by (simp add: save_database_def load_database_def gz_never cache_doc_def od_get_def)

subsection \<open>Importing\<close>

lemma check_dic_files: "check_dic dic = Inr u \<Longrightarrow> \<exists>v. py_item dic ''files'' = Inr v"
proof -
  assume c: "check_dic dic = Inr u"
  then obtain kvs where dic: "dic = PDict kvs" by (cases dic) (auto simp: check_dic_def)
  with c have "''files'' \<in> set (od_keys kvs)" by (simp add: check_dic_eq split: if_splits)
  then show ?thesis
    using dic map_of_od_keys [of kvs "''files''"] by (fastforce simp: od_get_def split: option.splits)
qed

lemma py_in_no_KeyError: "py_in x v \<noteq> Inl KeyError"
  by (cases "(x, v)" rule: py_in.cases) auto

lemma py_set_no_KeyError: "py_set v \<noteq> Inl KeyError"
  by (cases v) (auto simp: py_set_def)

lemma py_item_or_no_KeyError: "py_item_or v k d \<noteq> Inl KeyError"
  by (cases v) (auto simp: py_item_or_def od_get_def split: option.splits)

lemma check_allowed_no_KeyError: "check_allowed a v \<noteq> Inl KeyError"
  using py_set_no_KeyError by (auto simp: check_allowed_def res_bind_Inl_iff split: if_splits)

lemma join_no_KeyError: "res_catch KeyError (res_bind (py_item v k) f) (Inr d) \<noteq> Inl KeyError"
  by (cases "res_bind (py_item v k) f") auto

lemma sub_ip_init_no_KeyError: "sub_ip_init n k dic path \<noteq> Inl KeyError"
proof
  assume "sub_ip_init n k dic path = Inl KeyError"
  moreover have "check_dic dic \<noteq> Inl KeyError"
    by (cases dic) (auto simp: check_dic_def)
  ultimately show False
    using check_dic_files [of dic]
    by (auto simp: py_item_or_no_KeyError check_allowed_no_KeyError join_no_KeyError sub_ip_init_def res_bind_Inl_iff get_files_def get_targets_def get_flags_def
        get_incdirs_def get_defines_def get_vlog_opts_def get_vcom_opts_def)
qed

lemma keys_item: "py_keys v = Inr ks \<Longrightarrow> k \<in> set ks \<Longrightarrow> \<exists>x. py_item v k = Inr x"
proof -
  assume "py_keys v = Inr ks" "k \<in> set ks"
  then obtain kvs where "v = PDict kvs" "k \<in> set (od_keys kvs)" by (cases v) auto
  then show ?thesis
    using map_of_od_keys [of kvs k] by (auto simp: od_get_def split: option.splits)
qed

lemma res_foldM_no_error:
  assumes "\<And>t x. x \<in> set xs \<Longrightarrow> f t x \<noteq> Inl e"
  shows "res_foldM f s xs \<noteq> Inl e"
  using assms by (induction xs arbitrary: s) (auto simp: res_bind_Inl_iff)

lemma ip_init_no_KeyError: "ip_init name dic path ips vsim domain alts \<noteq> Inl KeyError"
proof -
  have "build_sub_ips name dic path \<noteq> Inl KeyError"
  proof
    assume e: "build_sub_ips name dic path = Inl KeyError"
    then obtain ks where ks: "py_keys dic = Inr ks"
      by (cases dic) (auto simp: build_sub_ips_def)
    have "res_foldM (\<lambda>d k. res_bind (py_item dic k) (\<lambda>v.
        res_map (\<lambda>s. od_set k s d) (sub_ip_init name k v path))) [] ks \<noteq> Inl KeyError"
    proof (rule res_foldM_no_error)
      fix d k assume "k \<in> set ks"
      with keys_item [OF ks] obtain v where "py_item dic k = Inr v" by blast
      then show "res_bind (py_item dic k) (\<lambda>v.
          res_map (\<lambda>s. od_set k s d) (sub_ip_init name k v path)) \<noteq> Inl KeyError"
        by (simp add: sub_ip_init_no_KeyError)
    qed
    with e ks show False by (auto simp: build_sub_ips_def sub_ip_init_no_KeyError split: if_splits)
  qed
  then show ?thesis by (auto simp: ip_init_def res_catch_def split: sum.splits)
qed

text \<open>Importing an IP whose name is already in the dictionary is not skipped, as the
  warning in the handler has it: the handler is dead, since the constructor never raises
  \<open>KeyError\<close>, and the new configuration takes the old one's place.\<close>
theorem import_duplicate_overwrites:
  assumes "env_exists env (dirname filename)" and "env_read env filename = Inr text"
    and "env_yaml env text = Inr yml"
    and "ip_init name yml path ips_dir vsim_dir domain alts = Inr c" and "name \<in> set (od_keys dic)"
  shows "(\<forall>n y p i v d a. ip_init n y p i v d a \<noteq> Inl KeyError) \<and>
    (\<exists>dic'. import_yaml env vsim_dir ips_dir dic name filename path domain alts = Inr dic' \<and>
       od_keys dic' = od_keys dic \<and> map_of dic' = (map_of dic)(name \<mapsto> c))"
  using assms by (simp add: import_yaml_def ip_init_no_KeyError)

subsection \<open>The invariant of the database\<close>

definition dic_wf :: "(string \<times> ip_config) list \<Rightarrow> bool" where
  "dic_wf d \<longleftrightarrow> od_ok d \<and> (\<forall>k c. map_of d k = Some c \<longrightarrow> ip_wf c \<and> c_name c = k)"

definition db_wf :: "ip_db \<Rightarrow> bool" where
  "db_wf db \<longleftrightarrow> dic_wf (d_ip_dic db) \<and> dic_wf (d_rtl_dic db)"

lemma dic_wf_Nil: "dic_wf []"
  by (simp add: dic_wf_def)

lemma dic_wf_set: "dic_wf d \<Longrightarrow> ip_wf c \<Longrightarrow> c_name c = k \<Longrightarrow> dic_wf (od_set k c d)"
  by (simp add: dic_wf_def)

lemma import_yaml_wf:
  assumes "import_yaml env vsim ips dic name filename path domain alts = Inr dic'" and "dic_wf dic"
  shows "dic_wf dic'"
  using assms ip_init_wf_aux
  by (auto simp: import_yaml_def res_iffs split: if_splits option.splits intro!: dic_wf_set)

lemma import_entry_wf:
  assumes "import_entry env lp dir vsim ips dic ip = Inr (ip', dic')" and "dic_wf dic"
  shows "dic_wf dic'"
  using assms import_yaml_wf by (auto simp: import_entry_def res_iffs)

lemma import_all_wf:
  assumes "import_all env lp dir vsim ips l = Inr (xs, dic)"
  shows "dic_wf dic"
proof -
  from assms obtain ys where "res_foldM (\<lambda>(seen, dic) ip.
      res_map (\<lambda>(ip', dic'). (seen @ [ip'], dic')) (import_entry env lp dir vsim ips dic ip)) ([], []) ys = Inr (xs, dic)"
    by (auto simp: import_all_def res_bind_Inr_iff)
  then have "dic_wf (snd (xs, dic))"
  proof (rule res_foldM_invariant)
    show "dic_wf (snd (t'))"
      if "dic_wf (snd t)" and "(case t of (seen, dic) \<Rightarrow> \<lambda>ip.
        res_map (\<lambda>(ip', dic'). (seen @ [ip'], dic')) (import_entry env lp dir vsim ips dic ip)) x = Inr t'" for t x t'
      using that import_entry_wf by (cases t) (auto simp: res_map_Inr_iff)
  qed (simp add: dic_wf_Nil)
  then show ?thesis by simp
qed

lemma init_lists_dics: "init_lists env o' inp = Inr db \<Longrightarrow> d_ip_dic db = [] \<and> d_rtl_dic db = []"
  by (auto simp: init_lists_def res_bind_Inr_iff)

lemma load_database_dics:
  "load_database env f db = Inr db' \<Longrightarrow> d_ip_dic db' = d_ip_dic db \<and> d_rtl_dic db' = d_rtl_dic db"
  by (auto simp: load_database_def res_bind_Inr_iff)

lemma import_ips_wf: "import_ips env o' db = Inr db' \<Longrightarrow> db_wf db \<Longrightarrow> db_wf db'"
  using import_all_wf by (auto simp: import_ips_def res_map_Inr_iff db_wf_def)

lemma import_rtl_wf: "import_rtl env o' db = Inr db' \<Longrightarrow> db_wf db \<Longrightarrow> db_wf db'"
  using import_all_wf by (auto simp: import_rtl_def res_map_Inr_iff db_wf_def split: if_splits)

lemma db_init_is_wf:
  assumes "db_init env o' inp = Inr db"
  shows "db_wf db"
proof -
  from assms obtain db1 db2 where 1: "init_lists env o' inp = Inr db1"
    and 2: "(if opt_load_cache o' then load_database env ''.cached_ipdb.json'' db1 else Inr db1) = Inr db2"
    and 3: "(if opt_skip_scripts o' then Inr db2 else res_bind (import_ips env o' db2) (import_rtl env o')) = Inr db"
    by (auto simp: db_init_def res_bind_Inr_iff)
  have "d_ip_dic db2 = [] \<and> d_rtl_dic db2 = []"
    using init_lists_dics [OF 1] load_database_dics 2 by (auto split: if_splits)
  then have "db_wf db2" by (simp add: db_wf_def dic_wf_Nil)
  with 3 show ?thesis
    using import_ips_wf import_rtl_wf by (fastforce simp: res_bind_Inr_iff split: if_splits)
qed

text \<open>Property C10. A database the constructor returns, whichever of its phases ran, is well formed:
  both dictionaries have distinct keys, every IP is stored under its own name, and inside it every
  sub-IP is stored under its own name with the name and path of the IP.\<close>
theorem db_init_wf:
  assumes "db_init env o' inp = Inr db"
  shows "db_wf db"
  using assms by (rule db_init_is_wf)

text \<open>Escaping from the dialogue does not switch to the flat flow, as the message says,
  but loses the list of IPs: the list becomes \<open>None\<close>, and unless a cache replaces it the
  constructor then fails on it with a \<open>TypeError\<close>.\<close>
theorem escape_loses_the_list:
  assumes "init_lists env o' inp = Inr db" and "opt_resolve_deps_conflicts o'"
    and "resolve_deps_conflicts (d_ip_tree db) inp = Inr (None, rest)"
    and "\<not> opt_load_cache o'"
  shows "d_ip_list db = PNone \<and> db_init env (o'\<lparr>opt_skip_scripts := False\<rparr>) inp = Inl TypeError"
proof -
  have lists: "init_lists env (o'\<lparr>opt_skip_scripts := False\<rparr>) inp = init_lists env o' inp"
    by (simp add: init_lists_def cong: if_cong)
  have none: "d_ip_list db = PNone"
    using assms(1-3) by (auto simp: init_lists_def res_bind_Inr_iff res_map_Inr_iff)
  then have "import_ips env (o'\<lparr>opt_skip_scripts := False\<rparr>) db = Inl TypeError"
    by (simp add: import_ips_def import_all_def)
  then show ?thesis using none assms(4) by (simp add: db_init_def lists assms(1))
qed

subsection \<open>A small project\<close>

text \<open>Two IPs, one with a dependency list on its server and sources on disk, and no RTL list.\<close>

definition example_env :: env where
  "example_env =
     \<lparr>env_read = (\<lambda>f. if f = ''./ips_list.yml'' then Inr ''top''
                     else if f = ''./ips/a/src_files.yml'' then Inr ''src'' else Inl OSError),
      env_exists = (\<lambda>d. True), env_site = None,
      env_yaml = (\<lambda>t.
        if t = ''top'' then Inr (PDict [(''a'', PDict [(''commit'', PStr ''m'')]), (''b'', PDict [(''commit'', PStr ''m'')])])
        else if t = ''deps a'' then Inr (PDict [(''c'', PDict [(''commit'', PStr ''v1'')])])
        else if t = ''deps b'' then Inr (PDict [(''c'', PDict [(''commit'', PStr ''v2'')])])
        else if t = ''src'' then Inr (PDict [(''files'', pstrs [''x.sv''])])
        else Inr PNone),
      env_set_list = remdups,
      env_pipe = (\<lambda>cmd sink. if cmd ! 2 = ''--remote=s:g/a'' then Some ''deps a''
                            else if cmd ! 2 = ''--remote=s:g/b'' then Some ''deps b'' else None),
      env_loads = (\<lambda>t. Inr PNone), env_dumps = (\<lambda>v. []), env_gunzip = (\<lambda>f. Inl OSError),
      env_limit = 1000\<rparr>"

definition example_options :: "bool \<Rightarrow> db_options" where
  "example_options deps =
     \<lparr>opt_list_path = ''.'', opt_ips_dir = ''ips'', opt_rtl_dir = ''rtl'', opt_vsim_dir = ''sim'',
      opt_fpgasim_dir = ''fpga/sim'', opt_skip_scripts = False, opt_build_deps_tree = deps,
      opt_resolve_deps_conflicts = deps, opt_default_server = ''s'', opt_default_group = ''g'',
      opt_default_commit = ''master'', opt_load_cache = False\<rparr>"

definition the_db :: "ip_db res \<Rightarrow> ip_db" where
  "the_db r = (case r of Inr db \<Rightarrow> db | Inl e \<Rightarrow>
     \<lparr>d_ips_dir = PNone, d_rtl_dir = PNone, d_vsim_dir = PNone, d_fpgasim_dir = PNone,
      d_ip_dic = [], d_rtl_dic = [], d_default_server = PNone, d_default_group = PNone,
      d_default_commit = PNone, d_ip_list = PNone, d_rtl_list = PNone, d_ip_tree = None\<rparr>)"

lemma the_db_Inr: "\<not> isl r \<Longrightarrow> r = Inr (the_db r)"
  by (cases r) (simp_all add: the_db_def)

theorem db_init_wf_witness:
  "db_wf (the_db (db_init example_env (example_options False) [])) \<and>
   od_keys (d_ip_dic (the_db (db_init example_env (example_options False) []))) = [''a'']"
proof -
  have "\<not> isl (db_init example_env (example_options False) [])" by code_simp
  moreover have "od_keys (d_ip_dic (the_db (db_init example_env (example_options False) []))) = [''a'']"
    by code_simp
  ultimately show ?thesis using db_init_wf [OF the_db_Inr] by blast
qed

theorem escape_loses_the_list_witness:
  "d_ip_list (the_db (init_lists example_env (example_options True) [CtrlC])) = PNone \<and>
   db_init example_env (example_options True\<lparr>opt_skip_scripts := False\<rparr>) [CtrlC] = Inl TypeError"
proof (rule escape_loses_the_list)
  show "init_lists example_env (example_options True) [CtrlC] =
      Inr (the_db (init_lists example_env (example_options True) [CtrlC]))"
    by (rule the_db_Inr) code_simp
  show "resolve_deps_conflicts (d_ip_tree (the_db (init_lists example_env (example_options True) [CtrlC]))) [CtrlC] =
      Inr (None, [])"
    by code_simp
qed (simp_all add: example_options_def)

theorem cache_roundtrip_witness:
  "\<exists>db. load_database (example_env\<lparr>env_read := (\<lambda>f. Inr []), env_loads := (\<lambda>t. Inr (cache_doc db))\<rparr>) ''c.json'' (the_db (Inl KeyError)) = Inr db \<and>
        d_ips_dir db = PStr ''ips''"
proof -
  let ?db = "(the_db (Inl KeyError))\<lparr>d_ips_dir := PStr ''ips''\<rparr>"
  have "load_database (example_env\<lparr>env_read := (\<lambda>f. Inr []), env_loads := (\<lambda>t. Inr (cache_doc ?db))\<rparr>) ''c.json'' (the_db (Inl KeyError)) = Inr ?db"
    by (subst cache_roundtrip [of example_env "''c.json''" ?db "[]"])
       (simp_all add: save_database_def example_env_def the_db_def)
  then show ?thesis by (intro exI [of _ ?db]) simp
qed

theorem import_duplicate_overwrites_witness:
  "\<exists>dic'. import_yaml example_env PNone PNone [(''a'', example_ip), (''z'', example_ip)] ''a'' ''./ips/a/src_files.yml'' (PStr ''a'') PNone PNone = Inr dic' \<and>
     od_keys dic' = [''a'', ''z''] \<and> map_of dic' ''a'' \<noteq> Some example_ip"
proof -
  let ?c = "\<lparr>c_domain = PNone, c_alternatives = PNone, c_name = ''a'', c_path = PStr ''a'', c_ips_dir = PNone,
             c_vsim_dir = PNone, c_sub_ips = [(''a'', described ''a'' ''a'' [(''files'', pstrs [''x.sv''])] (PStr ''a''))]\<rparr>"
  have read: "env_read example_env ''./ips/a/src_files.yml'' = Inr ''src''"
    "env_yaml example_env ''src'' = Inr (PDict [(''files'', pstrs [''x.sv''])])"
    "env_exists example_env d" for d
    by (simp_all add: example_env_def)
  have "schema_ok [(''files'', pstrs [''x.sv''])]" "values_typed [(''files'', pstrs [''x.sv''])]"
    by (simp_all add: values_typed_def schema_simps)
  then have init: "ip_init ''a'' (PDict [(''files'', pstrs [''x.sv''])]) (PStr ''a'') PNone PNone PNone PNone = Inr ?c"
    using build_flat [of "[(''files'', pstrs [''x.sv''])]" "''a''" "PStr ''a''"] by (simp add: ip_init_def)
  have ne: "?c \<noteq> example_ip" by (simp add: example_ip_def)
  from import_duplicate_overwrites [OF read(3) read(1,2) init, of "[(''a'', example_ip), (''z'', example_ip)]"] ne
  show ?thesis by fastforce
qed

subsection \<open>The warning about names\<close>

lemma od_set_twice: "od_set k v (od_set k w d) = od_set k v d"
  by (induction k w d rule: od_set.induct) auto

lemma count_names:
  "foldl (\<lambda>d item. if el = item
     then od_set el ((case map_of d el of None \<Rightarrow> 0 | Some n \<Rightarrow> n) + (1 :: nat)) d else d) (od_set el m d) names =
   od_set el (m + count_list names el) d"
proof (induction names arbitrary: m)
  case (Cons x names)
  show ?case
  proof (cases "el = x")
    case True
    have "map_of (od_set el m d) el = Some m" by simp
    with Cons [of "m + 1"] True show ?thesis by (simp add: od_set_twice del: map_of_od_set)
  qed (simp add: Cons)
qed simp

definition name_counts :: "string list \<Rightarrow> string list \<Rightarrow> (string \<times> nat) list" where
  "name_counts els names = map (\<lambda>el. (el, count_list names el)) els"

lemma blacklist_counts:
  "distinct (map fst d @ els) \<Longrightarrow>
   foldl (\<lambda>d el.
     foldl (\<lambda>d item. if el = item
                     then od_set el ((case map_of d el of None \<Rightarrow> 0 | Some n \<Rightarrow> n) + (1 :: nat)) d else d)
       (od_set el 0 d) names) d els = d @ name_counts els names"
proof (induction els arbitrary: d)
  case (Cons el els)
  have "od_set el (count_list names el) d = d @ [(el, count_list names el)]"
    using Cons.prems by (intro od_set_new) (auto simp: od_keys_def)
  moreover have "distinct (map fst (d @ [(el, count_list names el)]) @ els)" using Cons.prems by auto
  ultimately show ?case
    using Cons.IH by (simp only: foldl.simps count_names add_0) (simp add: name_counts_def)
qed (simp add: name_counts_def)

text \<open>The warning about sub-IPs of one name is given exactly when two of the project's
  sub-IPs share a name, and it names each shared name once and no other.\<close>
theorem duplicate_warning_exact:
  assumes "set (set_list names) = set names" and "distinct (set_list names)"
  shows "(duplicate_warning set_list names = None \<longleftrightarrow> distinct names) \<and>
         (duplicate_warning set_list names = Some ws \<longrightarrow>
            distinct ws \<and> set ws = {n. 2 \<le> count_list names n})"
proof -
  let ?els = "set_list names"
  have "length ?els = card (set names)" using distinct_card [OF assms(2)] assms(1) by simp
  then have len: "length ?els = length names \<longleftrightarrow> distinct names"
    using card_distinct [of names] distinct_card [of names] by auto
  have fst: "map fst (filter (\<lambda>(el, cnt). 1 < cnt) (name_counts xs names)) = filter (\<lambda>n. 1 < count_list names n) xs" for xs
    by (induction xs) (auto simp: name_counts_def)
  have eq: "duplicate_warning set_list names =
      (if distinct names then None else Some (filter (\<lambda>n. 1 < count_list names n) ?els))"
    using blacklist_counts [of "[]" ?els names] assms(2)
    by (simp only: duplicate_warning_def Let_def append_Nil list.map fst len if_not_P if_P
        split: if_split) simp
  have "n \<in> set names" if "1 < count_list names n" for n
    using that by (cases "n \<in> set names") (simp_all add: count_notin)
  then have "set (filter (\<lambda>n. 1 < count_list names n) ?els) = {n. 2 \<le> count_list names n}"
    unfolding set_filter assms(1) by (auto simp: numeral_2_eq_2 Suc_le_eq)
  moreover have "distinct (filter (\<lambda>n. 1 < count_list names n) ?els)" using assms(2) by simp
  ultimately show ?thesis unfolding eq by (metis option.discI option.inject)
qed

theorem duplicate_warning_exact_witness:
  "duplicate_warning remdups [''a'', ''b'', ''a''] = Some [''a''] \<and>
   set [''a''] = {n. 2 \<le> count_list [''a'', ''b'', ''a''] n}"
proof -
  have "duplicate_warning remdups [''a'', ''b'', ''a''] = Some [''a'']" by code_simp
  then show ?thesis using duplicate_warning_exact [of remdups "[''a'', ''b'', ''a'']" "[''a'']"] by simp
qed

end
