(* ===== verification/Ip_Scripts.thy ===== *)
theory Ip_Scripts imports Ip_Database begin

section \<open>The scripts of a database\<close>

text \<open>
  The exporters of \<open>ipstools/ipstools/IPDatabase.py\<close>: makefiles, analyze scripts, lists and Vivado
  scripts, each for the IPs or for the RTL of the project.  A run is the list of files written, in
  order, with the exception that ended it, if any: what was written before an exception stays.
  \<open>can_open\<close> says which files can be opened for writing and \<open>cwd\<close> is the working directory.
\<close>

subsection \<open>Runs that write files\<close>

type_synonym run = "(string \<times> string) list \<times> unit res"

definition write_file :: "(string \<Rightarrow> bool) \<Rightarrow> string \<Rightarrow> string \<Rightarrow> run" where
  "write_file can_open filename text =
     (if can_open filename then ([(filename, text)], Inr ()) else ([], Inl OSError))"

definition with_text :: "'a res \<Rightarrow> ('a \<Rightarrow> run) \<Rightarrow> run" where
  "with_text r f = (case r of Inl e \<Rightarrow> ([], Inl e) | Inr x \<Rightarrow> f x)"

definition then_run :: "run \<Rightarrow> run \<Rightarrow> run" where
  "then_run a b =
     (case a of (w, Inl e) \<Rightarrow> (w, Inl e) | (w, Inr u) \<Rightarrow> (case b of (w', r) \<Rightarrow> (w @ w', r)))"

definition skip_run :: run where
  "skip_run = ([], Inr ())"

text \<open>\<open>for x in xs: f(x)\<close>.\<close>

fun run_each :: "('a \<Rightarrow> run) \<Rightarrow> 'a list \<Rightarrow> run" where
  "run_each f [] = skip_run"
| "run_each f (x # xs) = then_run (f x) (run_each f xs)"

text \<open>The guard of every exporter, and the dictionary it then works on.\<close>

definition with_source :: "string \<Rightarrow> run \<Rightarrow> run" where
  "with_source source r = (if source \<notin> set ALLOWED_SOURCES then ([], Inl (SystemExit 1)) else r)"

definition source_dic :: "string \<Rightarrow> ip_db \<Rightarrow> (string \<times> ip_config) list" where
  "source_dic source db = (if source = ''ips'' then d_ip_dic db else d_rtl_dic db)"

subsection \<open>Absolute paths\<close>

text \<open>\<open>os.path.abspath\<close>: join with the working directory, then drop empty and dot components.\<close>

fun norm_comps :: "bool \<Rightarrow> string list \<Rightarrow> string list \<Rightarrow> string list" where
  "norm_comps rooted acc [] = rev acc"
| "norm_comps rooted acc (c # cs) =
     (if c = [] \<or> c = ''.'' then norm_comps rooted acc cs
      else if c \<noteq> ''..'' \<or> (\<not> rooted \<and> acc = []) \<or> (acc \<noteq> [] \<and> hd acc = ''..'')
      then norm_comps rooted (c # acc) cs
      else norm_comps rooted (tl acc) cs)"

definition normpath :: "string \<Rightarrow> string" where
  "normpath p =
     (if p = [] then ''.'' else
        let slashes = (if prefix ''//'' p \<and> \<not> prefix ''///'' p then ''//''
                       else if prefix ''/'' p then ''/'' else []);
            res = slashes @ py_join ''/'' (norm_comps (slashes \<noteq> []) [] (split_on (CHR ''/'') p))
        in if res = [] then ''.'' else res)"

definition abspath :: "string \<Rightarrow> string \<Rightarrow> string" where
  "abspath cwd p =
     normpath (if prefix ''/'' p then p
               else if cwd = [] \<or> last cwd = CHR ''/'' then cwd @ p else cwd @ ''/'' @ p)"

subsection \<open>Simulation\<close>

definition db_export_make ::
  "(string \<Rightarrow> bool) \<Rightarrow> string \<Rightarrow> string \<Rightarrow> string \<Rightarrow> string \<Rightarrow> pyval \<Rightarrow> bool \<Rightarrow> string \<Rightarrow> ip_db \<Rightarrow> run" where
  "db_export_make can_open abs_path script_path more_opts source target_tech loc simulator db =
     with_source source
       (run_each (\<lambda>(i, c).
          with_text (ip_export_make abs_path more_opts target_tech source loc simulator c)
            (write_file can_open (script_path @ ''/'' @ i @ ''.mk'')))
        (source_dic source db))"

definition generate_vsim_tcl :: "(string \<Rightarrow> bool) \<Rightarrow> string \<Rightarrow> string \<Rightarrow> ip_db \<Rightarrow> run" where
  "generate_vsim_tcl can_open filename source db =
     with_source source
       (with_text
         (res_bind (py_fmt VSIM_TCL_PREAMBLE [if source = ''ips'' then ''IP'' else py_upper source]) (\<lambda>pre.
          res_bind (res_foldM (\<lambda>acc el. res_map (append acc) (py_fmt VSIM_TCL_CMD [prepare el])) pre
                     (od_keys (source_dic source db))) (\<lambda>tcl.
          Inr (tcl @ VSIM_TCL_POSTAMBLE))))
         (write_file can_open filename))"

definition generate_ncelab_list :: "(string \<Rightarrow> bool) \<Rightarrow> string \<Rightarrow> string \<Rightarrow> ip_db \<Rightarrow> run" where
  "generate_ncelab_list can_open filename source db =
     with_source source
       (with_text
         (res_bind (py_fmt NCELAB_LIST_PREAMBLE [py_upper source]) (\<lambda>pre.
          res_foldM (\<lambda>acc el. res_map (append acc) (py_fmt NCELAB_LIST_CMD [prepare el])) pre
            (od_keys (source_dic source db))))
         (write_file can_open filename))"

text \<open>\<open>for el in l: vcompile_libs += mk_libs_cmd % (el, target)\<close>.\<close>

definition libs_commands :: "string \<Rightarrow> string \<Rightarrow> string \<Rightarrow> string list \<Rightarrow> string res" where
  "libs_commands mk_libs_cmd target pre l =
     res_foldM (\<lambda>acc el. res_map (append acc) (py_fmt mk_libs_cmd [el, target])) pre l"

definition generate_makefile :: "(string \<Rightarrow> bool) \<Rightarrow> string \<Rightarrow> pyval \<Rightarrow> string \<Rightarrow> ip_db \<Rightarrow> run" where
  "generate_makefile can_open filename target_tech source db =
     with_source source
       (let l = od_keys (source_dic source db);
            mk_libs_cmd = (if source = ''ips'' then MK_LIBS_CMD else MK_LIBS_CMD_RTL)
        in with_text
         (res_bind (if target_tech \<noteq> PStr ''xilinx'' then libs_commands mk_libs_cmd ''build'' MK_LIBS_PREAMBLE l
                    else libs_commands mk_libs_cmd ''build'' MK_LIBS_PREAMBLE l) (\<lambda>t.
          res_bind (if target_tech \<noteq> PStr ''xilinx'' then libs_commands mk_libs_cmd ''lib'' (t @ nl @ MK_LIBS_LIB) l
                    else libs_commands mk_libs_cmd ''lib'' (t @ nl @ MK_LIBS_LIB) l) (\<lambda>t.
          res_bind (if target_tech \<noteq> PStr ''xilinx'' then libs_commands mk_libs_cmd ''clean'' (t @ nl @ MK_LIBS_CLEAN) l
                    else libs_commands mk_libs_cmd ''clean'' (t @ nl @ MK_LIBS_CLEAN) l) (\<lambda>t.
          Inr (t @ nl)))))
         (write_file can_open filename))"

subsection \<open>Synthesis\<close>

text \<open>
  \<open>try: if domain==None or domain in ip.domain: ...\<close>, where a \<open>TypeError\<close> from anywhere in it is
  answered by the same export for an IP without domains and by nothing for another.
\<close>

definition in_domain :: "pyval \<Rightarrow> ip_config \<Rightarrow> bool res" where
  "in_domain domain c = (if domain = PNone then Inr True else py_in domain (c_domain c))"

definition domain_run :: "pyval \<Rightarrow> ip_config \<Rightarrow> run \<Rightarrow> run" where
  "domain_run domain c body =
     (case with_text (in_domain domain c) (\<lambda>b. if b then body else skip_run) of
        (w, Inl TypeError) \<Rightarrow> then_run (w, Inr ()) (if c_domain c = PNone then body else skip_run)
      | r \<Rightarrow> r)"

definition db_export_synopsys ::
  "(string \<Rightarrow> bool) \<Rightarrow> string \<Rightarrow> pyval \<Rightarrow> string \<Rightarrow> pyval \<Rightarrow> ip_db \<Rightarrow> run" where
  "db_export_synopsys can_open script_path target_tech source domain db =
     with_source source
       (run_each (\<lambda>(i, c). domain_run domain c
          (with_text (ip_export_synopsys target_tech source c)
            (write_file can_open (script_path @ ''/'' @ i @ ''.tcl''))))
        (source_dic source db))"

definition db_export_cadence ::
  "(string \<Rightarrow> bool) \<Rightarrow> string \<Rightarrow> pyval \<Rightarrow> string \<Rightarrow> pyval \<Rightarrow> ip_db \<Rightarrow> run" where
  "db_export_cadence can_open script_path target_tech source domain db =
     with_source source
       (run_each (\<lambda>(i, c). domain_run domain c
          (with_text (ip_export_cadence target_tech source c)
            (write_file can_open (script_path @ ''/'' @ i @ ''.tcl''))))
        (source_dic source db))"

definition generate_synopsys_list ::
  "(string \<Rightarrow> bool) \<Rightarrow> string \<Rightarrow> string \<Rightarrow> string \<Rightarrow> pyval \<Rightarrow> ip_db \<Rightarrow> run" where
  "generate_synopsys_list can_open filename source analyze_path domain db =
     with_source source
       (with_text
         (res_foldM (\<lambda>acc (i, c).
            res_bind (py_fmt ''source %s/%s.tcl\<newline>'' [analyze_path, i]) (\<lambda>line.
            res_catch TypeError
              (res_map (\<lambda>b. if b then acc @ line else acc) (in_domain domain c))
              (Inr (if c_domain c = PNone then acc @ line else acc)))) [] (source_dic source db))
         (write_file can_open filename))"

subsection \<open>Vivado\<close>

text \<open>
  An IP with alternatives is taken when its own name is both among the chosen ones and among its
  alternatives.  This test is outside the \<open>try\<close>.
\<close>

definition chosen :: "pyval \<Rightarrow> ip_config \<Rightarrow> bool res" where
  "chosen alternatives c =
     (if c_alternatives c = PNone then Inr True
      else res_bind (py_set alternatives) (\<lambda>xs.
           res_map (\<lambda>ys. list_ex (py_eq (PStr (c_name c))) xs \<and> list_ex (py_eq (PStr (c_name c))) ys)
             (py_set (c_alternatives c))))"

text \<open>\<open>try: if domain==None or domain in ip.domain: s += m  except TypeError: s += m\<close>.\<close>

definition in_domain_or_untyped :: "pyval \<Rightarrow> ip_config \<Rightarrow> 'a \<Rightarrow> 'a res \<Rightarrow> 'a res" where
  "in_domain_or_untyped domain c none m =
     res_catch TypeError (res_bind (in_domain domain c) (\<lambda>b. if b then m else Inr none)) m"

text \<open>The fold over the chosen IPs.\<close>

definition vivado_each ::
  "pyval \<Rightarrow> pyval \<Rightarrow> (ip_config \<Rightarrow> 'a list res) \<Rightarrow> 'a list \<Rightarrow> (string \<times> ip_config) list \<Rightarrow> 'a list res" where
  "vivado_each domain alternatives get pre dic =
     res_foldM (\<lambda>acc (i, c).
       res_bind (chosen alternatives c) (\<lambda>b.
         if \<not> b then Inr acc
         else res_map (append acc) (in_domain_or_untyped domain c [] (get c)))) pre dic"

definition db_export_vivado ::
  "(string \<Rightarrow> bool) \<Rightarrow> string \<Rightarrow> string \<Rightarrow> string \<Rightarrow> string \<Rightarrow> pyval \<Rightarrow> pyval \<Rightarrow> ip_db \<Rightarrow> run" where
  "db_export_vivado can_open cwd script_path root source domain alternatives db =
     with_source source
       (let abs_path = (if source = ''ips'' then ''$IPS'' else ''$RTL'') in
        with_text
         (res_bind (py_fmt VIVADO_PREAMBLE
            [abspath cwd root, py_str (d_rtl_dir db), abspath cwd root, py_str (d_ips_dir db)]) (\<lambda>pre.
          vivado_each domain alternatives (ip_export_vivado abs_path) pre (source_dic source db)))
         (write_file can_open script_path))"

definition generate_vivado_add_files ::
  "(string \<Rightarrow> bool) \<Rightarrow> string \<Rightarrow> pyval \<Rightarrow> string \<Rightarrow> pyval \<Rightarrow> ip_db \<Rightarrow> run" where
  "generate_vivado_add_files can_open filename domain source alternatives db =
     with_source source
       (with_text
         (res_bind (vivado_each domain alternatives ip_vivado_add_files [] (source_dic source db)) (\<lambda>l.
          res_foldM (\<lambda>acc el. res_map (append acc) (py_fmt VIVADO_ADD_FILES_CMD [py_upper el])) [] l))
         (write_file can_open filename))"

text \<open>\<open>"%s/%s" % (path, j)\<close> for the include directories of one IP.\<close>

definition inc_dirs_of :: "ip_config \<Rightarrow> string list res" where
  "inc_dirs_of c =
     res_bind (ip_vivado_inc_dirs c) (\<lambda>js.
       res_mapM (\<lambda>j. py_fmt ''%s/%s'' [py_str (c_path c), py_str j]) js)"

definition generate_vivado_inc_dirs ::
  "(string \<Rightarrow> bool) \<Rightarrow> string \<Rightarrow> string \<Rightarrow> pyval \<Rightarrow> string \<Rightarrow> string \<Rightarrow> pyval \<Rightarrow> ip_db \<Rightarrow> run" where
  "generate_vivado_inc_dirs can_open cwd filename domain root source alternatives db =
     with_source source
       (with_text
         (res_bind (py_fmt VIVADO_INC_DIRS_PREAMBLE [abspath cwd root, py_str (d_rtl_dir db)]) (\<lambda>pre.
          res_bind (vivado_each domain alternatives inc_dirs_of [] (source_dic source db)) (\<lambda>l.
          res_map (\<lambda>t. t @ VIVADO_INC_DIRS_POSTAMBLE)
            (res_foldM (\<lambda>acc el. res_map (append acc)
               (py_fmt VIVADO_INC_DIRS_CMD [abspath cwd root, py_str (d_ips_dir db), el])) pre l))))
         (write_file can_open filename))"

subsection \<open>Runs\<close>

lemma then_run_simps [simp]:
  "then_run ([], Inr ()) r = r" "then_run (w, Inl e) r = (w, Inl e)"
  "then_run (w, Inr u) (w', r') = (w @ w', r')"
  by (simp_all add: then_run_def split: prod.split)

lemma with_text_simps [simp]: "with_text (Inr x) f = f x" "with_text (Inl e) f = ([], Inl e)"
  by (simp_all add: with_text_def)

lemma with_source_allowed [simp]: "source \<in> set ALLOWED_SOURCES \<Longrightarrow> with_source source r = r"
  by (simp add: with_source_def)

lemma run_each_ok:
  "(\<And>x. x \<in> set xs \<Longrightarrow> f x = (g x, Inr ())) \<Longrightarrow> run_each f xs = (concat (map g xs), Inr ())"
  by (induction xs) (auto simp: skip_run_def)

text \<open>Every exporter refuses a source that is neither \<open>ips\<close> nor \<open>rtl\<close>: the program ends
  with status 1 and no file is written.\<close>
theorem unknown_source_writes_nothing:
  assumes "source \<noteq> ''ips''" and "source \<noteq> ''rtl''"
  shows "list_all (\<lambda>r. r = ([], Inl (SystemExit 1)))
    [db_export_make co ap sp mo source tt loc sim db, db_export_synopsys co sp tt source dm db,
     db_export_cadence co sp tt source dm db, db_export_vivado co cwd sp root source dm al db,
     generate_vsim_tcl co fn source db, generate_ncelab_list co fn source db,
     generate_synopsys_list co fn source an dm db, generate_makefile co fn tt source db,
     generate_vivado_add_files co fn dm source al db, generate_vivado_inc_dirs co cwd fn dm root source al db]"
  using assms
  by (simp add: with_source_def ALLOWED_SOURCES_def db_export_make_def db_export_synopsys_def
      db_export_cadence_def db_export_vivado_def generate_vsim_tcl_def generate_ncelab_list_def
      generate_synopsys_list_def generate_makefile_def generate_vivado_add_files_def
      generate_vivado_inc_dirs_def)

theorem unknown_source_writes_nothing_witness:
  "generate_makefile (\<lambda>f. True) ''Makefile'' PNone ''fpga'' (the_db (Inl KeyError)) = ([], Inl (SystemExit 1))"
  using unknown_source_writes_nothing [of "''fpga''" "\<lambda>f. True" "[]" "[]" "[]" PNone False "[]" "the_db (Inl KeyError)"
    PNone "[]" "[]" PNone "''Makefile''" "[]"] by simp

subsection \<open>Makefiles\<close>

definition db_typed :: "string \<Rightarrow> ip_db \<Rightarrow> bool" where
  "db_typed source db \<longleftrightarrow> source \<in> set ALLOWED_SOURCES \<and>
     list_all (\<lambda>(i, c). ip_typed c \<and> string_path c) (source_dic source db)"

lemma db_typed_ip: "db_typed source db \<Longrightarrow> (i, c) \<in> set (source_dic source db) \<Longrightarrow> ip_typed c \<and> string_path c"
  by (auto simp: db_typed_def list_all_iff)

text \<open>On a typed database in which every file can be written, \<open>export_make\<close> writes exactly
  one makefile per IP, in the order of the dictionary, named after the IP and holding the makefile
  the specification gives for it; the names are distinct, so none overwrites another.\<close>
theorem export_make_files:
  assumes "db_wf db" and "db_typed source db" and "tech_ok tech" and "known_simulator sim"
    and "\<And>i. can_open (script_path @ ''/'' @ i @ ''.mk'')"
  shows "db_export_make can_open abs_path script_path more_opts source tech loc sim db =
           (map (\<lambda>(i, c). (script_path @ ''/'' @ i @ ''.mk'',
                   ip_make_spec abs_path more_opts tech source loc (sim = ''vsim'') c))
              (source_dic source db), Inr ()) \<and>
         distinct (map fst (fst (db_export_make can_open abs_path script_path more_opts source tech loc sim db)))"
proof -
  let ?g = "\<lambda>(i, c). [(script_path @ ''/'' @ i @ ''.mk'',
                   ip_make_spec abs_path more_opts tech source loc (sim = ''vsim'') c)]"
  have "ip_export_make abs_path more_opts tech source loc sim c =
      Inr (ip_make_spec abs_path more_opts tech source loc (sim = ''vsim'') c)"
    if "(i, c) \<in> set (source_dic source db)" for i c
    using db_typed_ip [OF assms(2) that] assms(3,4) by (simp add: ip_make.export_ok)
  then have "db_export_make can_open abs_path script_path more_opts source tech loc sim db =
      (concat (map ?g (source_dic source db)), Inr ())"
    using assms(2,5) unfolding db_export_make_def
    by (subst run_each_ok [where g = ?g]) (auto simp: db_typed_def write_file_def)
  moreover have "concat (map ?g d) = map (\<lambda>(i, c). (script_path @ ''/'' @ i @ ''.mk'',
      ip_make_spec abs_path more_opts tech source loc (sim = ''vsim'') c)) d" for d
    by (induction d) auto
  ultimately have run: "db_export_make can_open abs_path script_path more_opts source tech loc sim db =
      (map (\<lambda>(i, c). (script_path @ ''/'' @ i @ ''.mk'',
         ip_make_spec abs_path more_opts tech source loc (sim = ''vsim'') c)) (source_dic source db), Inr ())"
    by simp
  have "od_ok (source_dic source db)"
    using assms(1) by (auto simp: db_wf_def dic_wf_def source_dic_def)
  then have "distinct (map (\<lambda>x. script_path @ ''/'' @ fst x @ ''.mk'') (source_dic source db))"
    by (simp add: od_keys_def distinct_map inj_on_def case_prod_beta)
  then show ?thesis unfolding run by (simp add: comp_def case_prod_beta)
qed

definition example_db :: ip_db where
  "example_db = (the_db (Inl KeyError))\<lparr>d_ips_dir := PStr ''ips'', d_rtl_dir := PStr ''rtl'',
     d_ip_dic := [(''ip'', example_ip)]\<rparr>"

lemma example_db_ok: "db_wf example_db" "db_typed ''ips'' example_db"
proof -
  have "ip_wf example_ip" using example_ip_typed by (simp add: ip_typed_def)
  then show "db_wf example_db"
    by (simp add: db_wf_def dic_wf_def example_db_def the_db_def) (simp add: example_ip_def)
  show "db_typed ''ips'' example_db"
    using example_ip_typed by (simp add: db_typed_def ALLOWED_SOURCES_def source_dic_def example_db_def
        string_path_def) (simp add: example_ip_def)
qed

theorem export_make_files_witness:
  "fst (db_export_make (\<lambda>f. True) ''$(IP_PATH)'' ''mk'' [] ''ips'' PNone False ''vsim'' example_db) =
     [(''mk/ip.mk'', ip_make_spec ''$(IP_PATH)'' [] PNone ''ips'' False True example_ip)]"
  using export_make_files [OF example_db_ok, of PNone "''vsim''" "\<lambda>f. True" "''mk''"]
  by (simp add: known_simulator_def source_dic_def example_db_def)

lemma append_commands:
  "(\<And>x. f x = Inr (g x)) \<Longrightarrow> res_foldM (\<lambda>acc x. res_map (append acc) (f x)) acc xs = Inr (acc @ concat (map g xs))"
  by (rule res_foldM_concat)

lemma libs_commands_eq:
  "cmd = MK_LIBS_CMD \<or> cmd = MK_LIBS_CMD_RTL \<Longrightarrow>
   libs_commands cmd target pre l = Inr (pre @ concat (map (\<lambda>el. fill cmd [el, target]) l))"
  unfolding libs_commands_def by (rule append_commands) (auto simp: fill_simps)

text \<open>The mid-level makefile builds, makes the library of and cleans every IP of its source
  exactly once and in the order of the dictionary, and does not depend on the target technology.\<close>
theorem makefile_targets:
  assumes "source \<in> set ALLOWED_SOURCES" and "can_open filename"
  shows "\<exists>text. (\<forall>tech. generate_makefile can_open filename tech source db = ([(filename, text)], Inr ())) \<and>
    text = MK_LIBS_PREAMBLE @
      concat (map (\<lambda>el. fill (if source = ''ips'' then MK_LIBS_CMD else MK_LIBS_CMD_RTL) [el, ''build'']) (od_keys (source_dic source db))) @
      nl @ MK_LIBS_LIB @
      concat (map (\<lambda>el. fill (if source = ''ips'' then MK_LIBS_CMD else MK_LIBS_CMD_RTL) [el, ''lib'']) (od_keys (source_dic source db))) @
      nl @ MK_LIBS_CLEAN @
      concat (map (\<lambda>el. fill (if source = ''ips'' then MK_LIBS_CMD else MK_LIBS_CMD_RTL) [el, ''clean'']) (od_keys (source_dic source db))) @ nl"
  using assms by (simp add: generate_makefile_def Let_def libs_commands_eq write_file_def)

theorem makefile_targets_witness:
  "\<exists>text. (\<forall>tech. generate_makefile (\<lambda>f. True) ''Makefile'' tech ''ips'' example_db = ([(''Makefile'', text)], Inr ()))"
  using makefile_targets [of "''ips''" "\<lambda>f. True" "''Makefile''" example_db]
  by (auto simp: ALLOWED_SOURCES_def)

subsection \<open>Domains\<close>

text \<open>The IPs of a domain, when each gives its domains as a list of names or not at all.\<close>

definition domains_typed :: "(string \<times> ip_config) list \<Rightarrow> bool" where
  "domains_typed d \<longleftrightarrow> list_all (\<lambda>(i, c). c_domain c = PNone \<or> is_pstrs (c_domain c)) d"

fun member_of :: "pyval \<Rightarrow> ip_config \<Rightarrow> bool" where
  "member_of (PStr d) c = (c_domain c = PNone \<or> d \<in> set (strs (c_domain c)))"
| "member_of v c = True"

lemma in_domain_eq:
  assumes "tech_ok domain" and "c_domain c = PNone \<or> is_pstrs (c_domain c)"
  shows "in_domain domain c =
    (if domain \<noteq> PNone \<and> c_domain c = PNone then Inl TypeError else Inr (member_of domain c))"
proof (cases domain)
  case (PStr d)
  show ?thesis
  proof (cases "c_domain c = PNone")
    case False
    with assms(2) have "c_domain c = pstrs (strs (c_domain c))" using is_pstrs_strs by blast
    then have "py_in (PStr d) (c_domain c) = Inr (d \<in> set (strs (c_domain c)))"
      using py_in_pstrs by metis
    with PStr False show ?thesis by (simp add: in_domain_def)
  qed (simp add: in_domain_def PStr)
qed (use assms(1) in \<open>simp_all add: in_domain_def\<close>)

lemma domain_run_eq:
  assumes "tech_ok domain" and "c_domain c = PNone \<or> is_pstrs (c_domain c)" and "body = (w, Inr ())"
  shows "domain_run domain c body = (if member_of domain c then body else skip_run)"
proof (cases "domain \<noteq> PNone \<and> c_domain c = PNone")
  case True
  then have "member_of domain c" by (cases domain) simp_all
  with True assms show ?thesis by (simp add: domain_run_def in_domain_eq)
next
  case False
  then show ?thesis
    using assms by (cases "member_of domain c") (auto simp: domain_run_def in_domain_eq skip_run_def)
qed

definition source_line :: "string \<Rightarrow> string \<Rightarrow> string" where
  "source_line path i = ''source '' @ path @ ''/'' @ i @ ''.tcl\<newline>''"

lemma source_line_fmt: "py_fmt ''source %s/%s.tcl\<newline>'' [path, i] = Inr (source_line path i)"
  by (simp add: source_line_def)

lemma synopsys_list_fold:
  assumes "tech_ok domain" and "domains_typed d"
  shows "res_foldM (\<lambda>acc (i, c).
       res_bind (py_fmt ''source %s/%s.tcl\<newline>'' [an, i]) (\<lambda>line.
       res_catch TypeError (res_map (\<lambda>b. if b then acc @ line else acc) (in_domain domain c))
         (Inr (if c_domain c = PNone then acc @ line else acc)))) acc d =
    Inr (acc @ concat (map (\<lambda>(i, c). source_line an i)
      (filter (\<lambda>(i, c). member_of domain c) d)))"
  using assms(2) unfolding source_line_fmt res_bind_simps
proof (induction d arbitrary: acc)
  case (Cons p d)
  obtain i c where p: "p = (i, c)" by (cases p)
  from Cons.prems p have c: "c_domain c = PNone \<or> is_pstrs (c_domain c)" and d: "domains_typed d"
    by (simp_all add: domains_typed_def)
  have "domain \<noteq> PNone \<and> c_domain c = PNone \<Longrightarrow> member_of domain c" by (cases domain) simp_all
  with p show ?case
    by (auto simp: in_domain_eq [OF assms(1) c] source_line_fmt Cons.IH [OF d] simp del: py_fmt.simps)
qed simp

text \<open>Property C17. For a domain (or for all of them) the analyze scripts that are written are the ones
  the list sources: both range over the IPs that belong to the domain or name none, in the order of
  the dictionary.\<close>
theorem analyze_scripts_listed:
  assumes "db_typed source db" and "domains_typed (source_dic source db)" and "tech_ok tech" and "tech_ok domain"
    and "\<And>f. can_open f"
  shows "let ips = filter (\<lambda>(i, c). member_of domain c) (source_dic source db) in
    db_export_synopsys can_open path tech source domain db =
      (map (\<lambda>(i, c). (path @ ''/'' @ i @ ''.tcl'', ip_synopsys_spec tech source c)) ips, Inr ()) \<and>
    db_export_cadence can_open path tech source domain db =
      (map (\<lambda>(i, c). (path @ ''/'' @ i @ ''.tcl'', ip_cadence_spec tech source c)) ips, Inr ()) \<and>
    generate_synopsys_list can_open filename source path domain db =
      ([(filename, concat (map (\<lambda>(i, c). source_line path i) ips))], Inr ())"
proof -
  let ?d = "source_dic source db"
  have src: "source \<in> set ALLOWED_SOURCES" using assms(1) by (simp add: db_typed_def)
  have each: "run_each (\<lambda>(i, c). domain_run domain c (with_text (export c) (write_file can_open (path @ ''/'' @ i @ ''.tcl'')))) ?d =
      (map (\<lambda>(i, c). (path @ ''/'' @ i @ ''.tcl'', spec c)) (filter (\<lambda>(i, c). member_of domain c) ?d), Inr ())"
    if "\<And>i c. (i, c) \<in> set ?d \<Longrightarrow> export c = Inr (spec c)" for export spec
  proof -
    let ?g = "\<lambda>(i, c). if member_of domain c then [(path @ ''/'' @ i @ ''.tcl'', spec c)] else []"
    have "(\<lambda>(i, c). domain_run domain c (with_text (export c) (write_file can_open (path @ ''/'' @ i @ ''.tcl'')))) x =
        (?g x, Inr ())" if "x \<in> set ?d" for x
    proof -
      obtain i c where x: "x = (i, c)" by (cases x)
      have "c_domain c = PNone \<or> is_pstrs (c_domain c)"
        using assms(2) that x by (auto simp: domains_typed_def list_all_iff)
      from domain_run_eq [OF assms(4) this refl] \<open>\<And>i c. (i, c) \<in> set ?d \<Longrightarrow> export c = Inr (spec c)\<close> that x assms(5)
      show ?thesis by (simp add: write_file_def skip_run_def)
    qed
    then have "run_each (\<lambda>(i, c). domain_run domain c (with_text (export c) (write_file can_open (path @ ''/'' @ i @ ''.tcl'')))) ?d =
        (concat (map ?g ?d), Inr ())" by (rule run_each_ok)
    moreover have "concat (map ?g d) =
        map (\<lambda>(i, c). (path @ ''/'' @ i @ ''.tcl'', spec c)) (filter (\<lambda>(i, c). member_of domain c) d)" for d
      by (induction d) auto
    ultimately show ?thesis by simp
  qed
  have "ip_export_synopsys tech source c = Inr (ip_synopsys_spec tech source c)"
    "ip_export_cadence tech source c = Inr (ip_cadence_spec tech source c)" if "(i, c) \<in> set ?d" for i c
    using db_typed_ip [OF assms(1) that] assms(3) by (simp_all add: ip_synopsys.export_ok ip_cadence.export_ok)
  then show ?thesis
    using each [of "ip_export_synopsys tech source" "ip_synopsys_spec tech source"]
      each [of "ip_export_cadence tech source" "ip_cadence_spec tech source"]
      synopsys_list_fold [OF assms(4,2), of path "[]"] assms(5) src
    unfolding Let_def db_export_synopsys_def db_export_cadence_def generate_synopsys_list_def
    by (simp add: write_file_def del: py_fmt.simps)
qed

theorem analyze_scripts_listed_witness:
  "generate_synopsys_list (\<lambda>f. True) ''list.tcl'' ''ips'' ''analyze'' (PStr ''soc'') example_db =
     ([(''list.tcl'', ''source analyze/ip.tcl\<newline>'')], Inr ())"
proof -
  have "domains_typed (source_dic ''ips'' example_db)"
    by (simp add: domains_typed_def source_dic_def example_db_def) (simp add: example_ip_def)
  moreover have "filter (\<lambda>(i, c). member_of (PStr ''soc'') c) (source_dic ''ips'' example_db) = [(''ip'', example_ip)]"
    by (simp add: source_dic_def example_db_def) (simp add: example_ip_def)
  ultimately show ?thesis
    using analyze_scripts_listed [OF example_db_ok(2), of PNone "PStr ''soc''" "\<lambda>f. True" "''analyze''" "''list.tcl''"]
    by (simp add: Let_def source_line_def)
qed

subsection \<open>Alternatives and the Vivado scripts\<close>

definition choice_typed :: "(string \<times> ip_config) list \<Rightarrow> bool" where
  "choice_typed d \<longleftrightarrow> domains_typed d \<and>
     list_all (\<lambda>(i, c). c_alternatives c = PNone \<or> is_pstrs (c_alternatives c)) d"

definition is_chosen :: "string list \<Rightarrow> ip_config \<Rightarrow> bool" where
  "is_chosen as c \<longleftrightarrow> c_alternatives c = PNone \<or>
     (c_name c \<in> set as \<and> c_name c \<in> set (strs (c_alternatives c)))"

definition picked :: "pyval \<Rightarrow> string list \<Rightarrow> (string \<times> ip_config) list \<Rightarrow> (string \<times> ip_config) list" where
  "picked domain as d = filter (\<lambda>(i, c). is_chosen as c \<and> member_of domain c) d"

lemma chosen_eq:
  assumes "c_alternatives c = PNone \<or> is_pstrs (c_alternatives c)"
  shows "chosen (pstrs as) c = Inr (is_chosen as c)"
proof (cases "c_alternatives c = PNone")
  case False
  with assms have eq: "c_alternatives c = pstrs (strs (c_alternatives c))" using is_pstrs_strs by blast
  have mem: "list_ex (py_eq (PStr n)) (map PStr ss) \<longleftrightarrow> n \<in> set ss" for n ss
    by (auto simp: list_ex_iff)
  have "py_set (c_alternatives c) = Inr (map PStr (strs (c_alternatives c)))"
    by (subst eq) (simp only: py_set_pstrs)
  then show ?thesis using False by (simp add: chosen_def mem is_chosen_def)
qed (simp add: chosen_def is_chosen_def)

lemma in_domain_or_untyped_eq:
  assumes "tech_ok domain" and "c_domain c = PNone \<or> is_pstrs (c_domain c)" and "m = Inr x"
  shows "in_domain_or_untyped domain c none m = Inr (if member_of domain c then x else none)"
proof -
  have "domain \<noteq> PNone \<and> c_domain c = PNone \<Longrightarrow> member_of domain c" by (cases domain) simp_all
  then show ?thesis using assms by (auto simp: in_domain_or_untyped_def in_domain_eq)
qed

lemma vivado_each_eq:
  assumes "tech_ok domain" and "choice_typed d" and "\<And>i c. (i, c) \<in> set d \<Longrightarrow> get c = Inr (g c)"
  shows "vivado_each domain (pstrs as) get pre d = Inr (pre @ concat (map (\<lambda>(i, c). g c) (picked domain as d)))"
  using assms(2,3)
proof (induction d arbitrary: pre)
  case (Cons p d)
  obtain i c where p: "p = (i, c)" by (cases p)
  have c: "c_domain c = PNone \<or> is_pstrs (c_domain c)" "c_alternatives c = PNone \<or> is_pstrs (c_alternatives c)"
    and d: "choice_typed d" and g: "get c = Inr (g c)"
    using Cons.prems p by (auto simp: choice_typed_def domains_typed_def)
  have IH: "vivado_each domain (pstrs as) get pre' d = Inr (pre' @ concat (map (\<lambda>(i, c). g c) (picked domain as d)))" for pre'
  proof (rule Cons.IH [OF d])
    show "get c = Inr (g c)" if "(i, c) \<in> set d" for i c
      using Cons.prems(2) [of i c] that by simp
  qed
  show ?case
    using IH unfolding vivado_each_def p
    by (simp add: chosen_eq [OF c(2)] in_domain_or_untyped_eq [OF assms(1) c(1) g] picked_def)
qed (simp add: vivado_each_def picked_def)

lemma vivado_names:
  "ip_typed c \<Longrightarrow> ip_vivado_add_files c =
     Inr (map (\<lambda>(k, s). prepare k) (filter (\<lambda>(k, s). synth_active ''xilinx'' s) (c_sub_ips c)))"
  by (rule ip_vivado_add_files_eq [OF subs_ok(3)])

lemma upper_names:
  "map (\<lambda>el. f (py_upper el)) (map (\<lambda>(k, s). prepare k) xs) = map f (map (\<lambda>(k, s). prepare (py_upper k)) xs)"
  by (induction xs) (auto simp: prepare_upper)

definition vivado_variables :: "ip_config \<Rightarrow> string list" where
  "vivado_variables c =
     map (\<lambda>(k, s). prepare (py_upper k)) (filter (\<lambda>(k, s). synth_active ''xilinx'' s) (c_sub_ips c))"

text \<open>Property C18. The Vivado scripts of a typed database cover the same IPs: those that name no
  alternatives or are both among the chosen ones and among their own alternatives, and belong to
  the domain or name none.  This holds for an empty choice too, which leaves out every IP that names
  alternatives, although the documentation of the parameter restricts the choice only "if not
  empty".  The source script holds their fragments and the other one command for
  each variable the fragments set, both in the order of the dictionary.\<close>
theorem vivado_scripts:
  assumes "db_typed source db" and "choice_typed (source_dic source db)" and "tech_ok domain"
    and "\<And>f. can_open f"
  shows "let ips = picked domain as (source_dic source db) in
    db_export_vivado can_open cwd path root source domain (pstrs as) db =
      ([(path, fill VIVADO_PREAMBLE [abspath cwd root, py_str (d_rtl_dir db), abspath cwd root, py_str (d_ips_dir db)] @
          concat (map (\<lambda>(i, c). sub_texts (vivado_spec (if source = ''ips'' then ''$IPS'' else ''$RTL'')) c) ips))], Inr ()) \<and>
    generate_vivado_add_files can_open filename domain source (pstrs as) db =
      ([(filename, concat (map (\<lambda>(i, c). concat (map (\<lambda>v. fill VIVADO_ADD_FILES_CMD [v]) (vivado_variables c))) ips))], Inr ())"
proof -
  let ?d = "source_dic source db" and ?abs = "if source = ''ips'' then ''$IPS'' else ''$RTL''"
  have src: "source \<in> set ALLOWED_SOURCES" using assms(1) by (simp add: db_typed_def)
  have texts: "vivado_each domain (pstrs as) (ip_export_vivado ?abs) pre ?d =
      Inr (pre @ concat (map (\<lambda>(i, c). sub_texts (vivado_spec ?abs) c) (picked domain as ?d)))" for pre
    by (rule vivado_each_eq [OF assms(3,2)]) (use db_typed_ip [OF assms(1)] ip_vivado.export_ok in blast)
  have names: "vivado_each domain (pstrs as) ip_vivado_add_files [] ?d =
      Inr ([] @ concat (map (\<lambda>(i, c). map (\<lambda>(k, s). prepare k) (filter (\<lambda>(k, s). synth_active ''xilinx'' s) (c_sub_ips c)))
        (picked domain as ?d)))"
    by (rule vivado_each_eq [OF assms(3,2)]) (use db_typed_ip [OF assms(1)] vivado_names in blast)
  have cmds: "res_foldM (\<lambda>acc el. res_map (append acc) (py_fmt VIVADO_ADD_FILES_CMD [py_upper el])) [] l =
      Inr (concat (map (\<lambda>el. fill VIVADO_ADD_FILES_CMD [py_upper el]) l))" for l
    using append_commands [of "\<lambda>el. py_fmt VIVADO_ADD_FILES_CMD [py_upper el]"
        "\<lambda>el. fill VIVADO_ADD_FILES_CMD [py_upper el]" "[]" l] by (simp add: fill_simps)
  have vars: "concat (map (\<lambda>el. fill VIVADO_ADD_FILES_CMD [py_upper el])
        (concat (map (\<lambda>(i, c). map (\<lambda>(k, s). prepare k) (filter (\<lambda>(k, s). synth_active ''xilinx'' s) (c_sub_ips c))) xs))) =
      concat (map (\<lambda>(i, c). concat (map (\<lambda>v. fill VIVADO_ADD_FILES_CMD [v]) (vivado_variables c))) xs)" for xs
    unfolding vivado_variables_def
  proof (induction xs)
    case (Cons x xs)
    then show ?case by (cases x) (simp only: list.map concat.simps map_append concat_append prod.case
        upper_names [where f = "\<lambda>v. fill VIVADO_ADD_FILES_CMD [v]"])
  qed simp
  show ?thesis
    unfolding Let_def db_export_vivado_def generate_vivado_add_files_def with_source_allowed [OF src]
      texts names res_bind_simps append_Nil cmds vars
    using assms(4) by (simp add: texts fill_simps write_file_def)
qed

theorem vivado_scripts_witness:
  "generate_vivado_add_files (\<lambda>f. True) ''add.tcl'' PNone ''ips'' (pstrs []) example_db =
     ([(''add.tcl'', ''add_files -norecurse -scan_for_includes $SRC_FPGA_PART\<newline>'')], Inr ())"
proof -
  have typed: "choice_typed (source_dic ''ips'' example_db)"
    by (simp add: choice_typed_def domains_typed_def source_dic_def example_db_def) (simp add: example_ip_def)
  have pick: "picked PNone [] (source_dic ''ips'' example_db) = [(''ip'', example_ip)]"
    by (simp add: picked_def is_chosen_def source_dic_def example_db_def) (simp add: example_ip_def)
  have "prepare (py_upper ''fpga.part'') = ''FPGA_PART''" by code_simp
  then have vars: "vivado_variables example_ip = [''FPGA_PART'']"
    by (simp add: vivado_variables_def example_ip_def synth_active_def targeted_def flagged_def
        described_def field_def)
  have "fill VIVADO_ADD_FILES_CMD [''FPGA_PART''] = ''add_files -norecurse -scan_for_includes $SRC_FPGA_PART\<newline>''"
    by (simp add: fill_def fmt_VIVADO_ADD_FILES_CMD)
  then show ?thesis
    using vivado_scripts [OF example_db_ok(2) typed, of PNone "\<lambda>f. True" "[]" "[]" "''s.tcl''" "''.''" "''add.tcl''"]
    by (simp add: Let_def pick vars)
qed

lemma vivado_each_drop:
  assumes "list_all (\<lambda>(i, c). c_alternatives c = PNone \<or> is_pstrs (c_alternatives c)) d"
  shows "vivado_each domain (pstrs []) get pre d =
         vivado_each domain (pstrs []) get pre (filter (\<lambda>(i, c). c_alternatives c = PNone) d)"
  using assms
proof (induction d arbitrary: pre)
  case (Cons p d)
  obtain i c where p: "p = (i, c)" by (cases p)
  with Cons.prems have c: "c_alternatives c = PNone \<or> is_pstrs (c_alternatives c)" by simp
  have "chosen (pstrs []) c = Inr (c_alternatives c = PNone)"
    using chosen_eq [OF c, of "[]"] by (simp add: is_chosen_def)
  with Cons p show ?case by (auto simp: vivado_each_def intro!: res_bind_cong)
qed simp

text \<open>The database without the IPs that declare alternatives.\<close>

definition without_alternatives :: "ip_db \<Rightarrow> ip_db" where
  "without_alternatives db =
     db\<lparr>d_ip_dic := filter (\<lambda>(i, c). c_alternatives c = PNone) (d_ip_dic db),
        d_rtl_dic := filter (\<lambda>(i, c). c_alternatives c = PNone) (d_rtl_dic db)\<rparr>"

text \<open>An empty choice of alternatives, the default of the three Vivado exporters, is not
  \<open>no restriction\<close>: every IP that declares alternatives is left out, as if it were not in the
  database.\<close>
theorem empty_choice_drops_alternatives:
  assumes "list_all (\<lambda>(i, c). c_alternatives c = PNone \<or> is_pstrs (c_alternatives c)) (source_dic source db)"
  shows "db_export_vivado co cwd path root source domain (pstrs []) db =
           db_export_vivado co cwd path root source domain (pstrs []) (without_alternatives db) \<and>
         generate_vivado_add_files co path domain source (pstrs []) db =
           generate_vivado_add_files co path domain source (pstrs []) (without_alternatives db) \<and>
         generate_vivado_inc_dirs co cwd path domain root source (pstrs []) db =
           generate_vivado_inc_dirs co cwd path domain root source (pstrs []) (without_alternatives db)"
proof -
  have dic: "source_dic source (without_alternatives db) =
      filter (\<lambda>(i, c). c_alternatives c = PNone) (source_dic source db)"
    by (simp add: source_dic_def without_alternatives_def)
  have dirs: "d_rtl_dir (without_alternatives db) = d_rtl_dir db" "d_ips_dir (without_alternatives db) = d_ips_dir db"
    by (simp_all add: without_alternatives_def)
  note drop = vivado_each_drop [OF assms, symmetric]
  show ?thesis
    unfolding db_export_vivado_def generate_vivado_add_files_def generate_vivado_inc_dirs_def dic dirs drop
    by simp
qed

theorem empty_choice_drops_alternatives_witness:
  "let db = example_db\<lparr>d_ip_dic := [(''zero-riscy'', example_ip\<lparr>c_name := ''zero-riscy'', c_alternatives := pstrs [''zero-riscy'', ''riscv'']\<rparr>)]\<rparr>
   in generate_vivado_add_files (\<lambda>f. True) ''add.tcl'' PNone ''ips'' (pstrs []) db = ([(''add.tcl'', [])], Inr ())"
proof -
  let ?db = "example_db\<lparr>d_ip_dic := [(''zero-riscy'', example_ip\<lparr>c_name := ''zero-riscy'', c_alternatives := pstrs [''zero-riscy'', ''riscv'']\<rparr>)]\<rparr>"
  have "generate_vivado_add_files (\<lambda>f. True) ''add.tcl'' PNone ''ips'' (pstrs []) ?db =
      generate_vivado_add_files (\<lambda>f. True) ''add.tcl'' PNone ''ips'' (pstrs []) (without_alternatives ?db)"
    using empty_choice_drops_alternatives [of "''ips''" ?db "\<lambda>f. True" "[]" "''add.tcl''" "[]" PNone]
    by (simp add: source_dic_def)
  moreover have "source_dic ''ips'' (without_alternatives ?db) = []"
    by (simp add: source_dic_def without_alternatives_def)
  ultimately show ?thesis
    by (simp add: generate_vivado_add_files_def vivado_each_def write_file_def ALLOWED_SOURCES_def)
qed

end
