(* ===== verification/Py_State.thy ===== *)
theory Py_State imports Py_Prelude begin

section \<open>Effects that an exception leaves behind\<close>

text \<open>
  Code that runs commands or changes the file system works on an explicit state.  Its outcome is the
  state it has reached together with a result (\<open>res\<close>): an exception keeps the state in which it was
  raised, so what was done before it can be stated.
\<close>

definition st_bind :: "'s \<times> 'a res \<Rightarrow> ('s \<Rightarrow> 'a \<Rightarrow> 's \<times> 'b res) \<Rightarrow> 's \<times> 'b res" where
  "st_bind m f = (case m of (s, Inl e) \<Rightarrow> (s, Inl e) | (s, Inr x) \<Rightarrow> f s x)"

definition st_map :: "('a \<Rightarrow> 'b) \<Rightarrow> 's \<times> 'a res \<Rightarrow> 's \<times> 'b res" where
  "st_map f m = (fst m, res_map f (snd m))"

text \<open>A handler continues in the state in which the exception was raised.\<close>

definition st_catch :: "pyerr \<Rightarrow> 's \<times> 'a res \<Rightarrow> ('s \<Rightarrow> 's \<times> 'a res) \<Rightarrow> 's \<times> 'a res" where
  "st_catch e m h = (case m of (s, Inl e') \<Rightarrow> if e' = e then h s else (s, Inl e') | (s, Inr x) \<Rightarrow> (s, Inr x))"

text \<open>A loop with a value it carries along; the first exception ends it.\<close>

fun st_foldM :: "('s \<Rightarrow> 'b \<Rightarrow> 'a \<Rightarrow> 's \<times> 'b res) \<Rightarrow> 's \<Rightarrow> 'b \<Rightarrow> 'a list \<Rightarrow> 's \<times> 'b res" where
  "st_foldM f s acc [] = (s, Inr acc)"
| "st_foldM f s acc (x # xs) = st_bind (f s acc x) (\<lambda>s acc. st_foldM f s acc xs)"

text \<open>The state and the value, when there was no exception.\<close>

definition st_value :: "'s \<times> 'a res \<Rightarrow> ('s \<times> 'a) res" where
  "st_value m = res_map (Pair (fst m)) (snd m)"

lemma st_bind_simps [simp]: "st_bind (s, Inl e) f = (s, Inl e)" "st_bind (s, Inr x) f = f s x"
  by (simp_all add: st_bind_def)

lemma st_map_simps [simp]: "st_map f (s, r) = (s, res_map f r)"
  by (simp add: st_map_def)

lemma st_catch_simps [simp]:
  "st_catch e (s, Inl e') h = (if e' = e then h s else (s, Inl e'))" "st_catch e (s, Inr x) h = (s, Inr x)"
  by (simp_all add: st_catch_def)

lemma st_value_simps [simp]: "st_value (s, Inl e) = Inl e" "st_value (s, Inr x) = Inr (s, x)"
  by (simp_all add: st_value_def)

lemma st_bind_Inr_iff: "st_bind m f = (s', Inr y) \<longleftrightarrow> (\<exists>s x. m = (s, Inr x) \<and> f s x = (s', Inr y))"
  by (cases m; cases "snd m") (auto simp: st_bind_def)

lemma st_map_Inr_iff: "st_map f m = (s, Inr y) \<longleftrightarrow> (\<exists>x. m = (s, Inr x) \<and> y = f x)"
  by (cases m) (auto simp: res_map_Inr_iff)

lemma st_value_Inr_iff: "st_value m = Inr r \<longleftrightarrow> m = (fst r, Inr (snd r))"
  by (cases m; cases r) (auto simp: st_value_def res_map_Inr_iff)

lemma st_bind_cong [fundef_cong]:
  "m = m' \<Longrightarrow> (\<And>s x. m' = (s, Inr x) \<Longrightarrow> f s x = g s x) \<Longrightarrow> st_bind m f = st_bind m' g"
  by (auto simp: st_bind_def split: prod.splits sum.splits)

lemma st_foldM_append:
  "st_foldM f s acc (xs @ ys) = st_bind (st_foldM f s acc xs) (\<lambda>s acc. st_foldM f s acc ys)"
proof (induction xs arbitrary: s acc)
  case (Cons x xs)
  obtain s' r where "f s acc x = (s', r)" by fastforce
  with Cons show ?case by (cases r) simp_all
qed simp

lemmas st_iffs = st_bind_Inr_iff st_map_Inr_iff st_value_Inr_iff

end
