(* ===== verification/Ip_Git.thy ===== *)
theory Ip_Git imports Ip_Scripts Py_State begin

section \<open>Git operations over all IPs\<close>

text \<open>
  The methods of \<open>ipstools/ipstools/IPDatabase.py\<close> that run git in the directory of each IP:
  differences, removal, update, tags, and the collection of the latest versions.  The operating
  system is a parameter: a state \<open>'w\<close>, which paths are directories in it, and what a command run in
  a directory does to it, returns and prints, unless it cannot be started.  A working state is that of
  the operating system with the working directory of the process; every operation gives the working
  state it has reached with its result, which may be an exception.  The output of a process is
  \<open>bytes\<close> under Python 3 and \<open>str\<close> under Python 2, both of which the sources cater for; \<open>sys_py3\<close> says
  which.
\<close>

subsection \<open>The operating system\<close>

text \<open>
  \<open>sys_clear\<close> is what \<open>remove_ips\<close> does below a directory, which may be stopped by an exception;
  \<open>sys_removedirs\<close> is \<open>os.removedirs\<close>, where \<open>None\<close> is the \<open>OSError\<close> its callers pass over.
\<close>

record 'w sys =
  sys_py3 :: bool
  sys_isdir :: "'w \<Rightarrow> string \<Rightarrow> bool"
  sys_run :: "'w \<Rightarrow> string \<Rightarrow> string list \<Rightarrow> 'w \<times> (int \<times> string) option"
  sys_clear :: "'w \<Rightarrow> string \<Rightarrow> 'w \<times> unit res"
  sys_removedirs :: "'w \<Rightarrow> string \<Rightarrow> 'w option"

type_synonym 'w st = "'w \<times> string"

type_synonym ('w, 'a) outcome = "'w st \<times> 'a res"

definition chdir :: "'w sys \<Rightarrow> 'w st \<Rightarrow> string \<Rightarrow> ('w, unit) outcome" where
  "chdir os st p =
     (let q = abspath (snd st) p
      in if sys_isdir os (fst st) q then ((fst st, q), Inr ()) else (st, Inl OSError))"

definition isdir :: "'w sys \<Rightarrow> 'w st \<Rightarrow> string \<Rightarrow> bool" where
  "isdir os st p = sys_isdir os (fst st) (abspath (snd st) p)"

text \<open>
  A process for a command line, which is split at white space; a program that cannot be started is an
  \<open>OSError\<close>.  \<open>execute(cmd)\<close> gives its return code, \<open>execute_out(cmd)\<close> what it printed, as does
  \<open>execute_popen(cmd).communicate()\<close>.
\<close>

definition run_command :: "'w sys \<Rightarrow> 'w st \<Rightarrow> string \<Rightarrow> ('w, int \<times> string) outcome" where
  "run_command os st cmd =
     (case sys_run os (fst st) (snd st) (split_ws cmd) of
        (w, None) \<Rightarrow> ((w, snd st), Inl OSError)
      | (w, Some r) \<Rightarrow> ((w, snd st), Inr r))"

definition execute :: "'w sys \<Rightarrow> 'w st \<Rightarrow> string \<Rightarrow> ('w, int) outcome" where
  "execute os st cmd = st_map fst (run_command os st cmd)"

definition execute_out :: "'w sys \<Rightarrow> 'w st \<Rightarrow> string \<Rightarrow> ('w, string) outcome" where
  "execute_out os st cmd = st_map snd (run_command os st cmd)"

text \<open>\<open>output.split("\n")\<close>: on \<open>bytes\<close> the separator has the wrong type.\<close>

definition out_lines :: "'w sys \<Rightarrow> string \<Rightarrow> string list res" where
  "out_lines os out = (if sys_py3 os then Inl TypeError else Inr (split_on (CHR ''\<newline>'') out))"

definition ip_dir :: "pyval \<Rightarrow> pyval \<Rightarrow> string res" where
  "ip_dir ips_dir ip = res_bind (py_item ip ''path'') (\<lambda>p. py_fmt ''%s/%s'' [py_str ips_dir, py_str p])"

subsection \<open>Differences\<close>

text \<open>The listing of one report: a line per changed file, up to the first blank line.\<close>

definition listing :: "string list \<Rightarrow> string" where
  "listing ls =
     (if hd ls \<noteq> [] then
        concat (map (\<lambda>l. ''  '' @ hd (split_ws l) @ ''\<newline>'') (takeWhile (\<lambda>l. split_ws l \<noteq> []) ls))
      else [])"

text \<open>
  The handler names the IP it skips; it answers a directory that is not there as well as a git that
  cannot be started, and then the process stays where it was.
\<close>

definition diff_one :: "'w sys \<Rightarrow> pyval \<Rightarrow> string \<Rightarrow> 'w st \<Rightarrow> pyval \<Rightarrow> ('w, bool \<times> bool) outcome" where
  "diff_one os ips_dir cwd st ip =
     st_catch OSError
       (st_bind (st, ip_dir ips_dir ip) (\<lambda>st d.
        st_bind (chdir os st d) (\<lambda>st _.
        st_bind (execute_out os st ''git diff --name-only'') (\<lambda>st out.
        st_bind (st, res_map listing (out_lines os out)) (\<lambda>st unstaged.
        st_bind (execute_out os st ''git diff --cached --name-only'') (\<lambda>st out.
        st_bind (st, res_map listing (out_lines os out)) (\<lambda>st staged.
        st_bind (chdir os st cwd) (\<lambda>st _.
          if unstaged \<noteq> [] \<or> staged \<noteq> [] then
            (st, res_map (\<lambda>_. (unstaged \<noteq> [], staged \<noteq> [])) (py_item ip ''name''))
          else (st, Inr (False, False))))))))))
       (\<lambda>st. (st, res_map (\<lambda>_. (False, False)) (py_item ip ''name'')))"

text \<open>\<open>(unstaged_ips, staged_ips)\<close>.\<close>

definition diff_ips :: "'w sys \<Rightarrow> 'w st \<Rightarrow> ip_db \<Rightarrow> ('w, pyval list \<times> pyval list) outcome" where
  "diff_ips os st db =
     st_bind (st, py_iter (d_ip_list db)) (\<lambda>st ips.
       st_foldM (\<lambda>st' (un, sg) ip.
         st_map (\<lambda>(u, s). (if u then un @ [ip] else un, if s then sg @ [ip] else sg))
           (diff_one os (d_ips_dir db) (snd st) st' ip)) st ([], []) ips)"

subsection \<open>Removal\<close>

text \<open>One pass of the loop: everything below the directory is deleted, then it and the parents that are empty.\<close>

definition remove_one :: "'w sys \<Rightarrow> 'w st \<Rightarrow> pyval \<Rightarrow> ('w, unit) outcome" where
  "remove_one os st ip =
     st_bind (st, py_item ip ''path'') (\<lambda>st p.
       let d = abspath (snd st) (py_str p) in
       case sys_clear os (fst st) d of (w, r) \<Rightarrow>
         st_bind ((w, snd st), r) (\<lambda>st _.
           ((case sys_removedirs os (fst st) d of None \<Rightarrow> fst st | Some w \<Rightarrow> w, snd st), Inr ())))"

definition remove_ips :: "'w sys \<Rightarrow> bool \<Rightarrow> 'w st \<Rightarrow> ip_db \<Rightarrow> ('w, unit) outcome" where
  "remove_ips os skip_check st db =
     st_bind (diff_ips os st db) (\<lambda>st1 (un, sg).
     st_bind (chdir os st1 (py_str (d_ips_dir db))) (\<lambda>st1 _.
       if \<not> skip_check \<and> 0 < length un + length sg then (st1, Inl (SystemExit 1))
       else
         st_bind (st1, py_iter (d_ip_list db)) (\<lambda>st1 ips.
         st_bind (st_foldM (\<lambda>s _ ip. remove_one os s ip) st1 () ips) (\<lambda>st2 _.
         st_bind (chdir os st2 (snd st)) (\<lambda>st3 _.
           ((case sys_removedirs os (fst st3) (abspath (snd st3) (py_str (d_ips_dir db))) of
               None \<Rightarrow> fst st3 | Some w \<Rightarrow> w, snd st3), Inr ()))))))"

subsection \<open>Update\<close>

text \<open>An IP whose directory is there: fetch, check out, and pull unless detached.  The result is the error, if any.\<close>

definition update_existing ::
  "'w sys \<Rightarrow> string \<Rightarrow> 'w st \<Rightarrow> pyval \<Rightarrow> ('w, string option) outcome" where
  "update_existing os origin st ip =
     st_bind (st, py_item ip ''name'') (\<lambda>st name.
     st_bind (st, py_item ip ''path'') (\<lambda>st path.
       if \<not> isdir os st ''.git'' then
         (st, Inr (Some (py_str name @ '' - '' @ py_str path @ '': Not a git directory'')))
       else st_bind (execute os st ''git fetch'') (\<lambda>st ret.
         if ret \<noteq> 0 then (st, Inr (Some (py_str name @ '' - Could not fetch'')))
         else st_bind (st, py_item ip ''commit'') (\<lambda>st commit.
         st_bind (execute os st (''git checkout '' @ py_str commit)) (\<lambda>st ret.
         if ret \<noteq> 0 then (st, Inr (Some (py_str name @ '' - Could not checkout commit '' @ py_str commit)))
         else st_bind (execute_out os st ''git rev-parse --abbrev-ref HEAD'') (\<lambda>st out.
           if take 4 out = ''HEAD'' then (st, Inr None)
           else st_bind (execute os st (''git pull --ff-only '' @ origin @ '' '' @ py_str commit)) (\<lambda>st ret.
             (st, Inr (if ret \<noteq> 0 then Some (py_str name @ '' - Could not update'') else None)))))))))"

fun py_upto :: "nat \<Rightarrow> pyval \<Rightarrow> pyval res" where
  "py_upto n (PStr s) = Inr (PStr (take n s))"
| "py_upto n (PList vs) = Inr (PList (take n vs))"
| "py_upto n v = Inl TypeError"

text \<open>An IP that is not there yet: clone it and check out its commit.\<close>

definition update_clone ::
  "'w sys \<Rightarrow> pyval \<Rightarrow> pyval \<Rightarrow> 'w st \<Rightarrow> pyval \<Rightarrow> ('w, pyval \<times> string option) outcome" where
  "update_clone os default_server default_group st ip =
     st_bind (chdir os st ''./'') (\<lambda>st _.
     st_bind (st, py_item ip ''name'') (\<lambda>st name.
     st_bind (st, res_map (\<lambda>v. or_default v default_server) (py_item ip ''server'')) (\<lambda>st server.
     st_bind (st, res_map (\<lambda>v. or_default v default_group) (py_item ip ''group'')) (\<lambda>st grp.
     st_bind (st, py_upto 5 server) (\<lambda>st scheme.
     let remote = py_str server @ (if scheme = PStr ''https'' then ''/'' else '':'') @ py_str grp;
         ip = (case ip of PDict kvs \<Rightarrow> PDict (od_set ''remote'' (PStr remote) kvs) | v \<Rightarrow> v) in
     st_bind (st, py_item ip ''path'') (\<lambda>st path.
     st_bind (execute os st (''git clone '' @ remote @ ''/'' @ py_str name @ ''.git '' @ py_str path)) (\<lambda>st ret.
       if ret \<noteq> 0 then (st, Inr (ip, Some (py_str name @ '' - Could not clone'')))
       else st_bind (chdir os st (''./'' @ py_str path)) (\<lambda>st _.
         st_bind (st, py_item ip ''commit'') (\<lambda>st commit.
         st_bind (execute os st (''git checkout '' @ py_str commit)) (\<lambda>st ret.
           (st, Inr (ip, if ret \<noteq> 0 then Some (py_str name @ '' - Could not checkout commit '' @ py_str commit)
                         else None))))))))))))"

definition update_one ::
  "'w sys \<Rightarrow> pyval \<Rightarrow> pyval \<Rightarrow> string \<Rightarrow> string \<Rightarrow> 'w st \<Rightarrow> pyval \<Rightarrow> ('w, pyval \<times> string option) outcome" where
  "update_one os default_server default_group origin cwd st ip =
     st_bind (chdir os st cwd) (\<lambda>st _.
     st_bind (st, py_item ip ''path'') (\<lambda>st path.
       if isdir os st (''./'' @ py_str path) then
         st_bind (chdir os st (''./'' @ py_str path)) (\<lambda>st _.
         st_map (Pair ip) (update_existing os origin st ip))
       else update_clone os default_server default_group st ip))"

text \<open>The loop over the IPs, from \<open>cwd\<close>: the entries, and the errors so far.\<close>

definition update_step ::
  "'w sys \<Rightarrow> ip_db \<Rightarrow> string \<Rightarrow> string \<Rightarrow> 'w st \<Rightarrow> pyval list \<times> string list \<Rightarrow> pyval \<Rightarrow>
   ('w, pyval list \<times> string list) outcome" where
  "update_step os db origin cwd st acc ip =
     st_map (\<lambda>(ip', e). (fst acc @ [ip'], snd acc @ (case e of None \<Rightarrow> [] | Some m \<Rightarrow> [m])))
       (update_one os (d_default_server db) (d_default_group db) origin cwd st ip)"

definition update_all ::
  "'w sys \<Rightarrow> ip_db \<Rightarrow> string \<Rightarrow> string \<Rightarrow> 'w st \<Rightarrow> pyval list \<Rightarrow> ('w, pyval list \<times> string list) outcome" where
  "update_all os db origin cwd st ips = st_foldM (update_step os db origin cwd) st ([], []) ips"

text \<open>Up to the summary: the entries, and the errors the summary lists.\<close>

definition update_run ::
  "'w sys \<Rightarrow> string \<Rightarrow> 'w st \<Rightarrow> ip_db \<Rightarrow> ('w, pyval list \<times> string list) outcome" where
  "update_run os origin st db =
     st_bind (chdir os st (py_str (d_ips_dir db))) (\<lambda>st0 _.
     st_bind (st0, py_iter (d_ip_list db)) (\<lambda>st0 ips.
     st_bind (update_all os db origin (snd st0) st0 ips) (\<lambda>st r.
     st_map (\<lambda>_. r) (chdir os st (snd st0)))))"

text \<open>Any error ends the program with status 1, after all IPs.\<close>

definition update_ips :: "'w sys \<Rightarrow> string \<Rightarrow> 'w st \<Rightarrow> ip_db \<Rightarrow> ('w, ip_db) outcome" where
  "update_ips os origin st db =
     st_bind (update_run os origin st db) (\<lambda>s (ips', errs).
       if errs = [] then st_map (\<lambda>_. db\<lparr>d_ip_list := relist (d_ip_list db) ips'\<rparr>) (chdir os s (snd st))
       else (s, Inl (SystemExit 1)))"

subsection \<open>Tags\<close>

definition delete_tag_ips :: "'w sys \<Rightarrow> string \<Rightarrow> 'w st \<Rightarrow> ip_db \<Rightarrow> ('w, unit) outcome" where
  "delete_tag_ips os tag_name st db =
     st_bind (st, py_iter (d_ip_list db)) (\<lambda>st ips.
       st_foldM (\<lambda>s _ ip.
         st_bind (s, ip_dir (d_ips_dir db) ip) (\<lambda>s d.
         st_bind (chdir os s d) (\<lambda>s _.
         st_bind (execute os s (''git tag -d '' @ tag_name)) (\<lambda>s ret. chdir os s (snd st))))) st () ips)"

text \<open>
  \<open>newest_tag.split()[0]\<close>, or the value itself when there is no word; printing \<open>bytes\<close> gives
  their representation.
\<close>

definition first_word :: "string \<Rightarrow> string" where
  "first_word s = (case split_ws s of [] \<Rightarrow> s | w # _ \<Rightarrow> w)"

definition show_out :: "'w sys \<Rightarrow> string \<Rightarrow> string" where
  "show_out os s = (if sys_py3 os then CHR ''b'' # repr_str s else s)"

text \<open>
  Without a name the newest tag is asked for: an output without any word leaves the pair
  \<open>communicate\<close> returned shortened to its list of words, empty, which is printed as such.
\<close>

definition push_tag_ips :: "'w sys \<Rightarrow> string option \<Rightarrow> 'w st \<Rightarrow> ip_db \<Rightarrow> ('w, unit) outcome" where
  "push_tag_ips os tag_name st db =
     st_bind (st, py_iter (d_ip_list db)) (\<lambda>st ips.
       st_foldM (\<lambda>s _ ip.
         st_bind (s, ip_dir (d_ips_dir db) ip) (\<lambda>s d.
         st_bind (chdir os s d) (\<lambda>s _.
         st_bind (case tag_name of
                    Some t \<Rightarrow> (s, Inr t)
                  | None \<Rightarrow>
                      st_map (\<lambda>out. case split_ws out of [] \<Rightarrow> ''[]'' | w # _ \<Rightarrow> show_out os w)
                        (execute_out os s ''git describe --tags --abbrev=0'')) (\<lambda>s newest.
         st_bind (execute os s (''git push origin tags/'' @ newest)) (\<lambda>s ret. chdir os s (snd st)))))) st () ips)"

text \<open>The new entry of an IP, with the commit it is at.\<close>

definition pinned_entry :: "pyval \<Rightarrow> string \<Rightarrow> ip_entry res" where
  "pinned_entry ip commit =
     res_bind (res_bind (py_item ip ''name'') py_as_str) (\<lambda>name.
     res_bind (py_item ip ''path'') (\<lambda>path.
     res_bind (py_item ip ''server'') (\<lambda>server.
     res_bind (py_item ip ''domain'') (\<lambda>domain.
     res_bind (py_item ip ''alternatives'') (\<lambda>alts.
     res_bind (py_item ip ''group'') (\<lambda>grp.
       Inr \<lparr>e_name = name, e_commit = PStr commit, e_server = server, e_group = grp,
            e_path = path, e_domain = domain, e_alternatives = alts\<rparr>))))))"

text \<open>
  The check both loops make: an IP with staged or unstaged changes is skipped when the severity is
  \<open>warning\<close> and ends the program otherwise.
\<close>

definition changes_check ::
  "'w sys \<Rightarrow> string \<Rightarrow> string \<Rightarrow> string \<Rightarrow> pyval \<Rightarrow> bool res" where
  "changes_check os severity staged unstaged ip =
     res_bind (out_lines os staged) (\<lambda>sl.
       if hd sl \<noteq> [] then
         res_bind (py_item ip ''name'') (\<lambda>_. if severity = ''warning'' then Inr False else Inl (SystemExit 1))
       else res_bind (out_lines os unstaged) (\<lambda>ul.
         if hd ul \<noteq> [] then
           res_bind (py_item ip ''name'') (\<lambda>_. if severity = ''warning'' then Inr False else Inl (SystemExit 1))
         else Inr True))"

text \<open>The return code of \<open>git tag\<close> only decides which message is printed.\<close>

definition tag_one ::
  "'w sys \<Rightarrow> pyval \<Rightarrow> string \<Rightarrow> string \<Rightarrow> bool \<Rightarrow> string \<Rightarrow> 'w st \<Rightarrow> pyval \<Rightarrow> ('w, ip_entry option) outcome" where
  "tag_one os ips_dir tag_name severity tag_always cwd st ip =
     st_bind (st, ip_dir ips_dir ip) (\<lambda>st d.
     st_bind (chdir os st d) (\<lambda>st _.
     st_bind (execute_out os st ''git describe --tags --abbrev=0'') (\<lambda>st newest.
     st_bind (execute_out os st ''git diff --name-only'') (\<lambda>st unstaged.
     st_bind (execute_out os st ''git diff --cached --name-only'') (\<lambda>st staged.
     st_bind (st, changes_check os severity staged unstaged ip) (\<lambda>st clean.
       if \<not> clean then st_map (\<lambda>_. None) (chdir os st cwd)
       else
         st_bind (if newest \<noteq> [] then execute_out os st (''git diff --name-only tags/'' @ newest)
                  else (st, Inr [])) (\<lambda>st out.
         st_bind (st, if newest \<noteq> [] then out_lines os out else Inr [[]]) (\<lambda>st ls.
         st_bind (if hd ls \<noteq> [] \<or> newest = [] \<or> tag_always then
                    st_bind (execute os st (''git tag '' @ tag_name)) (\<lambda>st ret.
                      (st, res_map (\<lambda>_. tag_name) (py_item ip ''name'')))
                  else (st, Inr newest)) (\<lambda>st newest.
         st_bind (st, pinned_entry ip (''tags/'' @ first_word newest)) (\<lambda>st e.
         st_map (\<lambda>_. Some e) (chdir os st cwd)))))))))))"

text \<open>The entries of the IPs that were not skipped, and the text stored, if asked for.\<close>

definition tag_ips ::
  "'w sys \<Rightarrow> (pyval \<Rightarrow> string) \<Rightarrow> string \<Rightarrow> string \<Rightarrow> bool \<Rightarrow> bool \<Rightarrow> 'w st \<Rightarrow> ip_db \<Rightarrow>
   ('w, (string \<times> string) option) outcome" where
  "tag_ips os dump tag_name severity tag_always store st db =
     st_bind (st, py_iter (d_ip_list db)) (\<lambda>st ips.
     st_bind (st_foldM (\<lambda>s es ip.
       st_map (\<lambda>e. case e of None \<Rightarrow> es | Some e \<Rightarrow> es @ [e])
         (tag_one os (d_ips_dir db) tag_name severity tag_always (snd st) s ip)) st [] ips) (\<lambda>s es.
       (s, if store then res_map (\<lambda>t. Some (''new_ips_list.yml'', t)) (store_ips_list dump es) else Inr None)))"

definition latest_one ::
  "'w sys \<Rightarrow> pyval \<Rightarrow> string \<Rightarrow> string \<Rightarrow> 'w st \<Rightarrow> pyval \<Rightarrow> ('w, ip_entry option) outcome" where
  "latest_one os ips_dir severity cwd st ip =
     st_bind (st, ip_dir ips_dir ip) (\<lambda>st d.
     st_bind (chdir os st d) (\<lambda>st _.
     st_bind (execute_out os st ''git log -n 1 --format=format:%H'') (\<lambda>st commit.
     st_bind (execute_out os st ''git diff --name-only'') (\<lambda>st unstaged.
     st_bind (execute_out os st ''git diff --cached --name-only'') (\<lambda>st staged.
     st_bind (st, changes_check os severity staged unstaged ip) (\<lambda>st clean.
       if \<not> clean then st_map (\<lambda>_. None) (chdir os st cwd)
       else
         st_bind (st, pinned_entry ip (show_out os commit)) (\<lambda>st e.
         st_map (\<lambda>_. Some e) (chdir os st cwd))))))))"

definition get_latest_ips ::
  "'w sys \<Rightarrow> (pyval \<Rightarrow> string) \<Rightarrow> string \<Rightarrow> string \<Rightarrow> 'w st \<Rightarrow> ip_db \<Rightarrow> ('w, string \<times> string) outcome" where
  "get_latest_ips os dump severity new_ips_list st db =
     st_bind (st, py_iter (d_ip_list db)) (\<lambda>st ips.
     st_bind (st_foldM (\<lambda>s es ip.
       st_map (\<lambda>e. case e of None \<Rightarrow> es | Some e \<Rightarrow> es @ [e])
         (latest_one os (d_ips_dir db) severity (snd st) s ip)) st [] ips) (\<lambda>s es.
       (s, res_map (\<lambda>t. (new_ips_list, t)) (store_ips_list dump es))))"

subsection \<open>Python 3\<close>

lemma out_lines_py3: "sys_py3 os \<Longrightarrow> out_lines os out = Inl TypeError"
  by (simp add: out_lines_def)

text \<open>Under Python 3 none of the reports on changes gets past its first IP: once the
  directory of the first IP in the list can be entered and git be started, \<open>diff_ips\<close>, \<open>remove_ips\<close>,
  \<open>tag_ips\<close> and \<open>get_latest_ips\<close> split the bytes git printed at a string and end with a \<open>TypeError\<close>;
  the removal has deleted nothing then.\<close>
theorem reports_fail_on_python3:
  assumes "sys_py3 os" and "d_ip_list db = PList (ip # ips)"
    and "ip_dir (d_ips_dir db) ip = Inr d" and "chdir os st d = (st', Inr ())"
    and "\<And>w d cmd. snd (sys_run os w d cmd) \<noteq> None"
  shows "diff_ips os st db = (fst (execute_out os st' ''git diff --name-only''), Inl TypeError) \<and>
         remove_ips os skip_check st db = (fst (execute_out os st' ''git diff --name-only''), Inl TypeError) \<and>
         snd (tag_ips os dump tag severity tag_always store st db) = Inl TypeError \<and>
         snd (get_latest_ips os dump severity new_list st db) = Inl TypeError"
proof -
  have starts: "\<exists>s out. execute_out os t cmd = (s, Inr out)" for t cmd
    using assms(5) [of "fst t" "snd t" "split_ws cmd"]
    by (auto simp: execute_out_def run_command_def st_map_def split: prod.split option.split)
  obtain s1 out1 where 1: "execute_out os st' ''git diff --name-only'' = (s1, Inr out1)" using starts by blast
  have "diff_one os (d_ips_dir db) cwd st ip = (s1, Inl TypeError)" for cwd
    using assms(1,3,4) 1 by (simp add: diff_one_def out_lines_py3)
  then have diff: "diff_ips os st db = (s1, Inl TypeError)"
    using assms(2) by (simp add: diff_ips_def)
  moreover have "snd (tag_one os (d_ips_dir db) tag severity tag_always cwd st ip) = Inl TypeError" for cwd
  proof -
    obtain s2 o2 where 2: "execute_out os st' ''git describe --tags --abbrev=0'' = (s2, Inr o2)" using starts by blast
    obtain s3 o3 where 3: "execute_out os s2 ''git diff --name-only'' = (s3, Inr o3)" using starts by blast
    obtain s4 o4 where 4: "execute_out os s3 ''git diff --cached --name-only'' = (s4, Inr o4)" using starts by blast
    show ?thesis using assms(1,3,4) 2 3 4 by (simp add: tag_one_def changes_check_def out_lines_py3)
  qed
  then have "\<exists>s. tag_one os (d_ips_dir db) tag severity tag_always cwd st ip = (s, Inl TypeError)" for cwd
    by (metis prod.collapse)
  then obtain s5 where "tag_one os (d_ips_dir db) tag severity tag_always (snd st) st ip = (s5, Inl TypeError)" by blast
  moreover have "snd (latest_one os (d_ips_dir db) severity cwd st ip) = Inl TypeError" for cwd
  proof -
    obtain s2 o2 where 2: "execute_out os st' ''git log -n 1 --format=format:%H'' = (s2, Inr o2)" using starts by blast
    obtain s3 o3 where 3: "execute_out os s2 ''git diff --name-only'' = (s3, Inr o3)" using starts by blast
    obtain s4 o4 where 4: "execute_out os s3 ''git diff --cached --name-only'' = (s4, Inr o4)" using starts by blast
    show ?thesis using assms(1,3,4) 2 3 4 by (simp add: latest_one_def changes_check_def out_lines_py3)
  qed
  then obtain s6 where "latest_one os (d_ips_dir db) severity (snd st) st ip = (s6, Inl TypeError)" by (metis prod.collapse)
  ultimately show ?thesis
    using assms(2) by (simp add: tag_ips_def get_latest_ips_def remove_ips_def 1)
qed

subsection \<open>What is run\<close>

text \<open>
  An operating system that records the commands it is given, each with its directory, and answers
  as \<open>ret\<close> and \<open>out\<close> say.
\<close>

type_synonym log = "(string \<times> string list) list"

definition recorder :: "bool \<Rightarrow> (string \<Rightarrow> bool) \<Rightarrow> (string list \<Rightarrow> int) \<Rightarrow> (string list \<Rightarrow> string) \<Rightarrow> log sys" where
  "recorder py3 dirs ret out =
     \<lparr>sys_py3 = py3, sys_isdir = (\<lambda>w. dirs), sys_run = (\<lambda>w d cmd. (w @ [(d, cmd)], Some (ret cmd, out cmd))),
      sys_clear = (\<lambda>w d. (w, Inr ())), sys_removedirs = (\<lambda>w d. None)\<rparr>"

lemma execute_recorder [simp]:
  "execute (recorder py3 dirs ret out) st cmd =
     ((fst st @ [(snd st, split_ws cmd)], snd st), Inr (ret (split_ws cmd)))"
  "execute_out (recorder py3 dirs ret out) st cmd =
     ((fst st @ [(snd st, split_ws cmd)], snd st), Inr (out (split_ws cmd)))"
  by (simp_all add: execute_def execute_out_def run_command_def recorder_def)

lemma chdir_recorder [simp]:
  "chdir (recorder py3 dirs ret out) st p =
     (if dirs (abspath (snd st) p) then ((fst st, abspath (snd st) p), Inr ()) else (st, Inl OSError))"
  by (simp add: chdir_def recorder_def Let_def)

lemma isdir_recorder [simp]: "isdir (recorder py3 dirs ret out) st p \<longleftrightarrow> dirs (abspath (snd st) p)"
  by (simp add: isdir_def recorder_def)

lemma sys_py3_recorder [simp]: "sys_py3 (recorder py3 dirs ret out) = py3"
  by (simp add: recorder_def)

text \<open>The commands an update of an existing IP is allowed, by how far it gets.\<close>

definition update_commands :: "string \<Rightarrow> string \<Rightarrow> (string list \<Rightarrow> int) \<Rightarrow> (string list \<Rightarrow> string) \<Rightarrow> string list list" where
  "update_commands origin commit ret out =
     (let fetch = split_ws ''git fetch''; checkout = split_ws (''git checkout '' @ commit);
          head = split_ws ''git rev-parse --abbrev-ref HEAD'';
          pull = split_ws (''git pull --ff-only '' @ origin @ '' '' @ commit)
      in fetch # (if ret fetch \<noteq> 0 then []
                  else checkout # (if ret checkout \<noteq> 0 then []
                  else head # (if take 4 (out head) = ''HEAD'' then [] else [pull]))))"

text \<open>Property C35. Updating an IP that is a git directory fetches first, checks out only after a fetch
  that succeeded, asks for the branch only after a checkout that succeeded, and pulls only when the
  head is not detached; it runs nothing else and stays in the directory.  It reports an error
  exactly when the last of these commands is not the question about the branch and failed.\<close>
theorem update_command_order:
  assumes "py_item ip ''name'' = Inr name" and "py_item ip ''path'' = Inr path"
    and "py_item ip ''commit'' = Inr commit" and "dirs (abspath cwd ''.git'')"
  shows "let cmds = update_commands origin (py_str commit) ret out in
    \<exists>e. update_existing (recorder py3 dirs ret out) origin (w, cwd) ip =
          ((w @ map (Pair cwd) cmds, cwd), Inr e) \<and>
        (e \<noteq> None \<longleftrightarrow> length cmds \<noteq> 3 \<and> ret (last cmds) \<noteq> 0)"
  using assms by (auto simp: update_existing_def update_commands_def Let_def)

definition reports :: "string \<Rightarrow> (string list \<Rightarrow> string) \<Rightarrow> bool" where
  "reports cmd out \<longleftrightarrow> hd (split_on (CHR ''\<newline>'') (out (split_ws cmd))) \<noteq> []"

definition dirty :: "(string list \<Rightarrow> string) \<Rightarrow> bool" where
  "dirty out \<longleftrightarrow> reports ''git diff --cached --name-only'' out \<or> reports ''git diff --name-only'' out"

definition tag_questions :: "string list list" where
  "tag_questions = map split_ws
     [''git describe --tags --abbrev=0'', ''git diff --name-only'', ''git diff --cached --name-only'']"

lemma changes_check_eq:
  assumes "\<not> sys_py3 os" and "py_item ip ''name'' = Inr name"
  shows "changes_check os severity staged unstaged ip =
    (if hd (split_on (CHR ''\<newline>'') staged) \<noteq> [] \<or> hd (split_on (CHR ''\<newline>'') unstaged) \<noteq> []
     then if severity = ''warning'' then Inr False else Inl (SystemExit 1) else Inr True)"
  using assms by (simp add: changes_check_def out_lines_def)

text \<open>Property C36. Under Python 2 an IP with staged or unstaged changes is never tagged: only the three
  questions are put to git, and it is left out of the new list or ends the program in its directory,
  as the severity says.  For an IP without changes \<open>git tag\<close> is run exactly when it has no tag yet,
  when tagging is forced, or when files changed since its newest tag; its entry then names the new
  tag, even if git refused to set it, and otherwise the newest tag it has.\<close>
theorem tag_discipline:
  assumes "py_item ip ''name'' = Inr name" and "ip_dir ips_dir ip = Inr d"
    and "dirs (abspath cwd d)" and "abspath (abspath cwd d) cwd = cwd" and "dirs cwd"
    and "\<And>c. pinned_entry ip c = Inr (e\<lparr>e_commit := PStr c\<rparr>)"
  shows "let os = recorder False dirs ret out; dir = abspath cwd d;
             newest = out (split_ws ''git describe --tags --abbrev=0'');
             asked = map (Pair dir) tag_questions;
             since = split_ws (''git diff --name-only tags/'' @ newest);
             tagged = (newest = [] \<or> always \<or> hd (split_on (CHR ''\<newline>'') (out since)) \<noteq> [])
         in tag_one os ips_dir tag severity always cwd (w, cwd) ip =
           (if dirty out then
              if severity = ''warning'' then ((w @ asked, cwd), Inr None)
              else ((w @ asked, dir), Inl (SystemExit 1))
            else
              ((w @ asked @ (if newest = [] then [] else [(dir, since)]) @
                  (if tagged then [(dir, split_ws (''git tag '' @ tag))] else []), cwd),
               Inr (Some (e\<lparr>e_commit := PStr (''tags/'' @ first_word (if tagged then tag else newest))\<rparr>))))"
proof -
  let ?os = "recorder False dirs ret out"
  have dirty: "dirty out \<longleftrightarrow>
      hd (split_on (CHR ''\<newline>'') (out (split_ws ''git diff --cached --name-only''))) \<noteq> [] \<or>
      hd (split_on (CHR ''\<newline>'') (out (split_ws ''git diff --name-only''))) \<noteq> []"
    by (simp add: dirty_def reports_def)
  have lines: "out_lines ?os s = Inr (split_on (CHR ''\<newline>'') s)" for s
    by (simp add: out_lines_def)
  have check: "changes_check ?os severity staged unstaged ip =
    (if hd (split_on (CHR ''\<newline>'') staged) \<noteq> [] \<or> hd (split_on (CHR ''\<newline>'') unstaged) \<noteq> []
     then if severity = ''warning'' then Inr False else Inl (SystemExit 1) else Inr True)" for staged unstaged
    by (rule changes_check_eq) (simp_all add: assms(1))
  show ?thesis
    unfolding tag_one_def Let_def
    using assms by (auto simp: check dirty lines tag_questions_def)
qed

text \<open>An IP as an entry of the list, and directories that all exist.\<close>

definition example_entry :: pyval where
  "example_entry = entry_val (leaf_entry ''axi'')"

lemma example_entry_items:
  "py_item example_entry ''name'' = Inr (PStr ''axi'')" "py_item example_entry ''path'' = Inr (PStr ''axi'')"
  "py_item example_entry ''commit'' = Inr (PStr ''master'')"
  "ip_dir (PStr ''ips'') example_entry = Inr ''ips/axi''"
  "pinned_entry example_entry c = Inr (leaf_entry ''axi''\<lparr>e_commit := PStr c\<rparr>)"
  by (simp_all add: example_entry_def entry_val_def leaf_entry_def od_get_def ip_dir_def pinned_entry_def)

theorem reports_fail_on_python3_witness:
  "diff_ips (recorder True (\<lambda>d. True) (\<lambda>c. 0) (\<lambda>c. [])) ([], ''/w'')
     (example_db\<lparr>d_ip_list := PList [example_entry]\<rparr>) =
     (([(abspath ''/w'' ''ips/axi'', split_ws ''git diff --name-only'')], abspath ''/w'' ''ips/axi''), Inl TypeError)"
  using reports_fail_on_python3 [of "recorder True (\<lambda>d. True) (\<lambda>c. 0) (\<lambda>c. [])"
      "example_db\<lparr>d_ip_list := PList [example_entry]\<rparr>" example_entry "[]" "''ips/axi''" "([], ''/w'')"]
  by (simp add: example_entry_items example_db_def) (simp add: recorder_def)

theorem update_command_order_witness:
  "\<exists>e. update_existing (recorder True (\<lambda>d. True) (\<lambda>c. if c = [''git'', ''fetch''] then 1 else 0) (\<lambda>c. [])) ''origin''
      ([], ''/w/ips/axi'') example_entry = (([(''/w/ips/axi'', [''git'', ''fetch''])], ''/w/ips/axi''), Inr e) \<and> e \<noteq> None"
proof -
  have "update_commands ''origin'' (py_str (PStr ''master'')) (\<lambda>c. if c = [''git'', ''fetch''] then 1 else 0) (\<lambda>c. []) =
      [[''git'', ''fetch'']]"
    by code_simp
  then show ?thesis
    using update_command_order [OF example_entry_items(1-3), of "\<lambda>d. True" "''/w/ips/axi''" "''origin''"
      "\<lambda>c. if c = [''git'', ''fetch''] then 1 else 0" "\<lambda>c. []" True "[]"]
    by (simp add: Let_def)
qed

theorem tag_discipline_witness:
  "tag_one (recorder False (\<lambda>d. True) (\<lambda>c. 0) (\<lambda>c. if c = split_ws ''git diff --name-only'' then ''a.sv\<newline>'' else []))
     (PStr ''ips'') ''v1'' ''error'' True ''/w'' ([], ''/w'') example_entry =
   ((map (Pair ''/w/ips/axi'') tag_questions, ''/w/ips/axi''), Inl (SystemExit 1))"
proof -
  have back_dir: "abspath (abspath ''/w'' ''ips/axi'') ''/w'' = ''/w''" by code_simp
  have there: "abspath ''/w'' ''ips/axi'' = ''/w/ips/axi''" by code_simp
  have changed: "dirty (\<lambda>c. if c = split_ws ''git diff --name-only'' then ''a.sv\<newline>'' else [])" by code_simp
  show ?thesis
    using tag_discipline [OF example_entry_items(1) example_entry_items(4) TrueI back_dir TrueI example_entry_items(5),
      where ret = "\<lambda>c. 0" and out = "\<lambda>c. if c = split_ws ''git diff --name-only'' then ''a.sv\<newline>'' else []"
        and tag = "''v1''" and severity = "''error''" and always = True and w = "[]"]
    by (simp add: Let_def changed there)
qed

end
