(* ===== verification/Front_End.thy ===== *)
theory Front_End imports Ip_Git begin

section \<open>The scripts that are run\<close>

text \<open>
  The programs a user starts: \<open>update-ips\<close>, \<open>generate-scripts\<close> and the bootstrap in
  \<open>ipstools_cfg.py\<close> they share, and the project-local \<open>ips/hwpe-stream/sim/generate-scripts.py\<close>.
  They compose the modelled parts: \<open>update-ips\<close> builds the database with its dependency tree, lets
  the user resolve the conflicts, brings the repositories to the chosen commits, saves the lists in
  the cache and starts \<open>generate-scripts\<close>, which loads them again, imports the \<open>src_files.yml\<close> files
  and writes the simulation scripts.  A \<open>host\<close> is the operating system of \<open>Ip_Git\<close> with what the
  other parts see of its state.
\<close>

subsection \<open>The host\<close>

record 'w host =
  h_sys :: "'w sys"
  h_env :: "'w st \<Rightarrow> env"
  h_can_open :: "'w st \<Rightarrow> string \<Rightarrow> bool"
  h_write :: "'w st \<Rightarrow> string \<Rightarrow> string \<Rightarrow> ('w, unit) outcome"
  h_mkdir :: "'w st \<Rightarrow> string \<Rightarrow> ('w, unit) outcome"

text \<open>A sequence of \<open>execute\<close> calls whose return codes are not looked at.\<close>

definition execute_all :: "'w sys \<Rightarrow> 'w st \<Rightarrow> string list \<Rightarrow> ('w, unit) outcome" where
  "execute_all os st cmds = st_foldM (\<lambda>st _ cmd. st_map (\<lambda>_. ()) (execute os st cmd)) st () cmds"

subsection \<open>Fetching the tools\<close>

text \<open>The clone at \<open>ipstools\<close> is pulled when it is there and made otherwise.\<close>

definition fetch_tools :: "'w sys \<Rightarrow> string \<Rightarrow> string \<Rightarrow> 'w st \<Rightarrow> ('w, unit) outcome" where
  "fetch_tools os pull clone st =
     (if isdir os st ''ipstools'' then
        st_bind (chdir os st ''ipstools'') (\<lambda>st' _.
        st_bind (execute os st' pull) (\<lambda>st' _. chdir os st' (snd st)))
      else st_map (\<lambda>_. ()) (execute os st clone))"

definition DEFAULT_SERVER :: string where
  "DEFAULT_SERVER = ''https://github.com''"

definition ipstools_cfg :: "'w sys \<Rightarrow> 'w st \<Rightarrow> ('w, unit) outcome" where
  "ipstools_cfg os =
     fetch_tools os ''git pull'' ''git clone https://github.com/pulp-platform/IPApproX ipstools''"

subsection \<open>Default arguments\<close>

definition default_options :: db_options where
  "default_options =
     \<lparr>opt_list_path = ''.'', opt_ips_dir = ''./fe/ips'', opt_rtl_dir = ''./fe/rtl'',
      opt_vsim_dir = ''./fe/sim'', opt_fpgasim_dir = ''./fpga/sim'', opt_skip_scripts = False,
      opt_build_deps_tree = False, opt_resolve_deps_conflicts = False,
      opt_default_server = ''git@github.com'', opt_default_group = ''pulp-platform'',
      opt_default_commit = ''master'', opt_load_cache = False\<rparr>"

text \<open>\<open>export_make\<close> with the arguments that are given by none of the scripts at their defaults.\<close>

definition export_make_to ::
  "(string \<Rightarrow> bool) \<Rightarrow> string \<Rightarrow> string \<Rightarrow> pyval \<Rightarrow> bool \<Rightarrow> ip_db \<Rightarrow> run" where
  "export_make_to can_open script_path source target_tech loc =
     db_export_make can_open ''$(IP_PATH)'' script_path [] source target_tech loc ''vsim''"

subsection \<open>\<open>generate-scripts\<close>\<close>

definition SETUP :: "string list" where
  "SETUP =
     [''mkdir -p sim/vcompile/ips'', ''rm -rf sim/vcompile/ips/*'',
      ''mkdir -p sim/vcompile/rtl'', ''rm -rf sim/vcompile/rtl/*'',
      ''mkdir -p sim/vcompile/tb'', ''rm -rf sim/vcompile/tb/*'']"

definition SCRIPT_OPTIONS :: db_options where
  "SCRIPT_OPTIONS =
     default_options\<lparr>opt_rtl_dir := ''rtl'', opt_ips_dir := ''ips'', opt_vsim_dir := ''sim'',
       opt_load_cache := True\<rparr>"

definition script_files :: "(string \<Rightarrow> bool) \<Rightarrow> ip_db \<Rightarrow> run" where
  "script_files can_open db = run_each (\<lambda>r. r)
     [export_make_to can_open ''sim/vcompile/ips'' ''ips'' PNone False db,
      export_make_to can_open ''sim/vcompile/rtl'' ''rtl'' PNone False db,
      generate_vsim_tcl can_open ''sim/tcl_files/config/vsim_ips.tcl'' ''ips'' db,
      generate_vsim_tcl can_open ''sim/tcl_files/config/vsim_rtl.tcl'' ''rtl'' db,
      generate_makefile can_open ''sim/vcompile/ips.mk'' PNone ''ips'' db,
      generate_makefile can_open ''sim/vcompile/rtl.mk'' PNone ''rtl'' db]"

text \<open>The program from the bootstrap on.\<close>

definition generate_scripts :: "'w host \<Rightarrow> 'w st \<Rightarrow> run" where
  "generate_scripts h st =
     (case ipstools_cfg (h_sys h) st of (st, r) \<Rightarrow> with_text r (\<lambda>_.
      case execute_all (h_sys h) st SETUP of (st, r) \<Rightarrow> with_text r (\<lambda>_.
        with_text (db_init (h_env h st) SCRIPT_OPTIONS []) (script_files (h_can_open h st)))))"

subsection \<open>\<open>update-ips\<close>\<close>

definition UPDATE_OPTIONS :: db_options where
  "UPDATE_OPTIONS =
     default_options\<lparr>opt_skip_scripts := True, opt_build_deps_tree := True,
       opt_resolve_deps_conflicts := True, opt_rtl_dir := ''rtl'', opt_ips_dir := ''ips'',
       opt_vsim_dir := ''sim'', opt_default_server := DEFAULT_SERVER\<rparr>"

text \<open>Up to the constructor of the database: the tools are there, and a directory for the IPs.\<close>

definition update_start :: "'w host \<Rightarrow> 'w st \<Rightarrow> ('w, unit) outcome" where
  "update_start h st =
     st_bind (ipstools_cfg (h_sys h) st) (\<lambda>st _.
       st_catch OSError (h_mkdir h st ''ips'') (\<lambda>st. (st, Inr ())))"

text \<open>Up to the saved cache: the state then, and the database.\<close>

definition update_database :: "'w host \<Rightarrow> answer list \<Rightarrow> 'w st \<Rightarrow> ('w, ip_db) outcome" where
  "update_database h inp st =
     st_bind (update_start h st) (\<lambda>st _.
     st_bind (st, db_init (h_env h st) UPDATE_OPTIONS inp) (\<lambda>st db.
     st_bind (update_ips (h_sys h) ''origin'' st db) (\<lambda>st db.
     st_bind (st, save_database (h_env h st) ''.cached_ipdb.json'' False db) (\<lambda>st (filename, text).
     st_map (\<lambda>_. db) (h_write h st filename text)))))"

definition update_ips_script :: "'w host \<Rightarrow> answer list \<Rightarrow> 'w st \<Rightarrow> ('w, unit) outcome" where
  "update_ips_script h inp st =
     st_bind (update_database h inp st) (\<lambda>st db.
       st_map (\<lambda>_. ()) (execute (h_sys h) st ''./generate-scripts''))"

subsection \<open>The scripts of \<open>hwpe-stream\<close>\<close>

definition hwpe_cfg :: "'w sys \<Rightarrow> 'w st \<Rightarrow> ('w, unit) outcome" where
  "hwpe_cfg os =
     fetch_tools os ''git pull origin master''
       ''git clone git@iis-git.ee.ethz.ch:pulp-tools/IPApproX.git ipstools -b master''"

definition hwpe_files :: "(string \<Rightarrow> bool) \<Rightarrow> ip_db \<Rightarrow> run" where
  "hwpe_files can_open db = run_each (\<lambda>r. r)
     [export_make_to can_open ''vcompile/rtl'' ''rtl'' (PStr ''gf22'') True db,
      generate_vsim_tcl can_open ''vsimulate/config/vsim_rtl.tcl'' ''rtl'' db,
      generate_makefile can_open ''vcompile/rtl.mk'' PNone ''rtl'' db]"

definition hwpe_generate_scripts :: "'w host \<Rightarrow> 'w st \<Rightarrow> run" where
  "hwpe_generate_scripts h st =
     (case hwpe_cfg (h_sys h) st of (st, r) \<Rightarrow> with_text r (\<lambda>_.
      case execute_all (h_sys h) st [''mkdir -p vcompile/rtl'', ''rm -rf vcompile/rtl/*''] of (st, r) \<Rightarrow> with_text r (\<lambda>_.
        with_text (db_init (h_env h st) (default_options\<lparr>opt_rtl_dir := ''./''\<rparr>) [])
          (hwpe_files (h_can_open h st)))))"

subsection \<open>Runs that finish\<close>

lemma then_run_Inr_iff:
  "then_run a b = (w, Inr u) \<longleftrightarrow> (\<exists>w1 w2. a = (w1, Inr ()) \<and> b = (w2, Inr ()) \<and> w = w1 @ w2)"
  by (auto simp: then_run_def split: prod.splits sum.splits)

lemma run_each_Inr:
  "run_each f xs = (w, Inr u) \<Longrightarrow> \<exists>ws. list_all2 (\<lambda>x w. f x = (w, Inr ())) xs ws \<and> w = concat ws"
  by (induction xs arbitrary: w) (fastforce simp: skip_run_def then_run_Inr_iff list_all2_Cons1)+

lemma with_text_Inr_iff: "with_text r f = (w, Inr u) \<longleftrightarrow> (\<exists>x. r = Inr x \<and> f x = (w, Inr u))"
  by (cases r) simp_all

lemma write_file_Inr_iff: "write_file co f t = (w, Inr u) \<longleftrightarrow> co f \<and> w = [(f, t)]"
  by (auto simp: write_file_def)

lemmas run_iffs = then_run_Inr_iff with_text_Inr_iff write_file_Inr_iff

text \<open>A run that writes one file for each element.\<close>

lemma run_each_files:
  assumes "run_each (\<lambda>x. with_text (t x) (write_file co (f x))) xs = (w, Inr u)"
  shows "w = map (\<lambda>x. (f x, projr (t x))) xs \<and> (\<forall>x\<in>set xs. t x = Inr (projr (t x)))"
  using assms by (induction xs arbitrary: w) (auto simp: skip_run_def run_iffs)

subsection \<open>The texts\<close>

definition mk_name :: "string \<Rightarrow> string \<Rightarrow> string" where
  "mk_name path i = path @ ''/'' @ i @ ''.mk''"

definition mk_text :: "string \<Rightarrow> pyval \<Rightarrow> bool \<Rightarrow> ip_config \<Rightarrow> string" where
  "mk_text source tech loc c = projr (ip_export_make ''$(IP_PATH)'' [] tech source loc ''vsim'' c)"

definition link_text :: "string \<Rightarrow> string list \<Rightarrow> string" where
  "link_text source ks =
     fill VSIM_TCL_PREAMBLE [if source = ''ips'' then ''IP'' else py_upper source] @
     concat (map (\<lambda>i. ''  -L '' @ prepare i @ ''_lib '' @ [CHR 0x5C] @ ''\<newline>'') ks) @ VSIM_TCL_POSTAMBLE"

definition libs_text :: "string \<Rightarrow> string list \<Rightarrow> string" where
  "libs_text source ks =
     (let cmds = \<lambda>target. concat (map (\<lambda>i. ''\<newline>'' @ [CHR 0x09] @ ''@make --no-print-directory -f $(mkfile_path)/'' @
                                   source @ ''/'' @ i @ ''.mk '' @ target) ks)
      in MK_LIBS_PREAMBLE @ cmds ''build'' @ nl @ MK_LIBS_LIB @ cmds ''lib'' @ nl @ MK_LIBS_CLEAN @
         cmds ''clean'' @ nl)"

text \<open>What the makefile of an IP starts with: its licence, then the name of its library.\<close>

definition mk_head :: "string \<Rightarrow> string" where
  "mk_head i = takeWhile (\<lambda>c. c \<noteq> CHR ''%'') MK_PREAMBLE @ prepare i @ ''\<newline>IP_PATH=''"

lemma export_make_to_files:
  assumes "export_make_to co path source tech loc db = (w, Inr u)"
  shows "w = map (\<lambda>(i, c). (mk_name path i, mk_text source tech loc c)) (source_dic source db) \<and>
    (\<forall>(i, c)\<in>set (source_dic source db).
       ip_export_make ''$(IP_PATH)'' [] tech source loc ''vsim'' c = Inr (mk_text source tech loc c))"
proof -
  have "run_each (\<lambda>x. with_text (ip_export_make ''$(IP_PATH)'' [] tech source loc ''vsim'' (snd x))
      (write_file co (mk_name path (fst x)))) (source_dic source db) = (w, Inr u)"
    using assms by (simp add: export_make_to_def db_export_make_def with_source_def mk_name_def
        case_prod_unfold split: if_splits)
  from run_each_files [OF this] show ?thesis by (auto simp: mk_text_def case_prod_beta)
qed

lemma vsim_tcl_file:
  assumes "generate_vsim_tcl co f source db = (w, Inr u)"
  shows "w = [(f, link_text source (od_keys (source_dic source db)))]"
proof -
  have "fill VSIM_TCL_CMD [a] = ''  -L '' @ a @ ''_lib '' @ [CHR 0x5C] @ ''\<newline>''" for a
    using fill_VSIM_TCL_CMD [of a] fmt_VSIM_TCL_CMD [of a] by simp
  then have cmds: "res_foldM (\<lambda>acc el. Inr (acc @ fill VSIM_TCL_CMD [prepare el])) pre ks =
      Inr (pre @ concat (map (\<lambda>i. ''  -L '' @ prepare i @ ''_lib '' @ [CHR 0x5C] @ ''\<newline>'') ks))" for pre ks
    by (induction ks arbitrary: pre) simp_all
  show ?thesis
    using assms by (auto simp: generate_vsim_tcl_def with_source_def cmds fill_simps run_iffs link_text_def
        split: if_splits)
qed

lemma makefile_file:
  assumes "generate_makefile co f tech source db = (w, Inr u)"
  shows "w = [(f, libs_text source (od_keys (source_dic source db)))]"
proof -
  have cmds: "libs_commands (if source = ''ips'' then MK_LIBS_CMD else MK_LIBS_CMD_RTL) target pre ks =
      Inr (pre @ concat (map (\<lambda>i. ''\<newline>'' @ [CHR 0x09] @ ''@make --no-print-directory -f $(mkfile_path)/'' @
                           source @ ''/'' @ i @ ''.mk '' @ target) ks))"
    if "source = ''ips'' \<or> source = ''rtl''" for target pre ks
    unfolding libs_commands_def using that by (intro res_foldM_concat) (auto simp: fmt_simps)
  show ?thesis
    using assms by (auto simp: generate_makefile_def with_source_def ALLOWED_SOURCES_def Let_def cmds run_iffs
        libs_text_def split: if_splits)
qed

lemma export_all_prefix: "export_all export t d = Inr t' \<Longrightarrow> prefix t t'"
  by (induction d arbitrary: t) (fastforce simp: export_all_def res_iffs prefix_def)+

lemma make_text_head:
  assumes "ip_export_make ap mo tech source loc ''vsim'' c = Inr t"
  shows "prefix (mk_head (c_name c)) t"
proof -
  from assms obtain commands phony first env path makefile
    where m: "py_fmt MK_PREAMBLE [prepare (c_name c), env, path, phony, commands] = Inr makefile"
      and t: "export_all (sub_export_make ap mo tech loc ''vsim'') (makefile @ MK_POSTAMBLE) (c_sub_ips c) = Inr t"
    by (auto simp: ip_export_make_def simulator_locals_def res_iffs)
  have "prefix (mk_head (c_name c)) makefile"
    using m unfolding fmt_MK_PREAMBLE mk_head_def MK_PREAMBLE_def by (auto simp: prefix_def)
  then show ?thesis using export_all_prefix [OF t] by (metis append_prefixD prefix_order.trans)
qed

lemma source_dic_wf: "db_wf db \<Longrightarrow> dic_wf (source_dic source db)"
  by (simp add: db_wf_def source_dic_def)

lemma dic_names: "dic_wf d \<Longrightarrow> (i, c) \<in> set d \<Longrightarrow> c_name c = i"
  by (auto simp: dic_wf_def od_keys_def dest: map_of_is_SomeI)

lemma mk_files_distinct:
  assumes "dic_wf d"
  shows "distinct (map fst (map (\<lambda>(i, c). (mk_name path i, t c)) d))"
  using assms by (simp add: dic_wf_def od_keys_def distinct_map inj_on_def mk_name_def case_prod_unfold)

subsection \<open>What a finished run leaves\<close>

text \<open>The files of one source, as far as they depend on the other ones.\<close>

definition linked_files :: "(string \<times> string) list \<Rightarrow> string \<Rightarrow> string \<Rightarrow> string \<Rightarrow> string \<Rightarrow> string list \<Rightarrow> bool" where
  "linked_files ws path tcl mk source ks \<longleftrightarrow>
     map_of ws tcl = Some (link_text source ks) \<and> map_of ws mk = Some (libs_text source ks) \<and>
     list_all (\<lambda>i. case map_of ws (mk_name path i) of None \<Rightarrow> False | Some t \<Rightarrow> prefix (mk_head i) t) ks"

lemma source_files_linked:
  assumes dic: "dic_wf (source_dic source db)" and w: "export_make_to co path source tech loc db = (w, Inr ())"
    and ws: "distinct (map fst ws)" "set w \<union> {(tcl, link_text source ks), (mk, libs_text source ks)} \<subseteq> set ws"
    and ks: "ks = od_keys (source_dic source db)"
  shows "linked_files ws path tcl mk source ks"
proof -
  have at: "map_of ws f = Some t" if "(f, t) \<in> set w \<union> {(tcl, link_text source ks), (mk, libs_text source ks)}" for f t
    using ws that by (auto intro: map_of_is_SomeI)
  have "case map_of ws (mk_name path i) of None \<Rightarrow> False | Some t \<Rightarrow> prefix (mk_head i) t" if "i \<in> set ks" for i
  proof -
    obtain c where c: "(i, c) \<in> set (source_dic source db)" using \<open>i \<in> set ks\<close> by (auto simp: ks od_keys_def)
    have "(mk_name path i, mk_text source tech loc c) \<in> set w"
      using export_make_to_files [OF w] c by force
    moreover have "prefix (mk_head i) (mk_text source tech loc c)"
      using export_make_to_files [OF w] c make_text_head dic_names [OF dic c] by fastforce
    ultimately show ?thesis using at [of "mk_name path i" "mk_text source tech loc c"] by simp
  qed
  then show ?thesis using at by (simp add: linked_files_def list_all_iff)
qed

lemma script_files_finished:
  assumes "db_wf db" and "script_files co db = (ws, Inr ())"
  shows "map fst ws = map (mk_name ''sim/vcompile/ips'') (od_keys (d_ip_dic db)) @
      map (mk_name ''sim/vcompile/rtl'') (od_keys (d_rtl_dic db)) @
      [''sim/tcl_files/config/vsim_ips.tcl'', ''sim/tcl_files/config/vsim_rtl.tcl'',
       ''sim/vcompile/ips.mk'', ''sim/vcompile/rtl.mk'']"
    and "distinct (map fst ws)"
    and "linked_files ws ''sim/vcompile/ips'' ''sim/tcl_files/config/vsim_ips.tcl'' ''sim/vcompile/ips.mk''
           ''ips'' (od_keys (d_ip_dic db))"
    and "linked_files ws ''sim/vcompile/rtl'' ''sim/tcl_files/config/vsim_rtl.tcl'' ''sim/vcompile/rtl.mk''
           ''rtl'' (od_keys (d_rtl_dic db))"
proof -
  let ?ips = "od_keys (d_ip_dic db)" and ?rtl = "od_keys (d_rtl_dic db)"
  have sd: "source_dic ''ips'' db = d_ip_dic db" "source_dic ''rtl'' db = d_rtl_dic db"
    by (simp_all add: source_dic_def)
  from assms(2) obtain wi wr t1 t2 m1 m2 where wi: "export_make_to co ''sim/vcompile/ips'' ''ips'' PNone False db = (wi, Inr ())"
    and wr: "export_make_to co ''sim/vcompile/rtl'' ''rtl'' PNone False db = (wr, Inr ())"
    and t: "generate_vsim_tcl co ''sim/tcl_files/config/vsim_ips.tcl'' ''ips'' db = (t1, Inr ())"
      "generate_vsim_tcl co ''sim/tcl_files/config/vsim_rtl.tcl'' ''rtl'' db = (t2, Inr ())"
    and m: "generate_makefile co ''sim/vcompile/ips.mk'' PNone ''ips'' db = (m1, Inr ())"
      "generate_makefile co ''sim/vcompile/rtl.mk'' PNone ''rtl'' db = (m2, Inr ())"
    and parts: "ws = wi @ wr @ t1 @ t2 @ m1 @ m2"
    unfolding script_files_def run_each.simps then_run_Inr_iff skip_run_def prod.inject by clarify simp
  have ws: "ws = wi @ wr @ [(''sim/tcl_files/config/vsim_ips.tcl'', link_text ''ips'' ?ips),
       (''sim/tcl_files/config/vsim_rtl.tcl'', link_text ''rtl'' ?rtl),
       (''sim/vcompile/ips.mk'', libs_text ''ips'' ?ips), (''sim/vcompile/rtl.mk'', libs_text ''rtl'' ?rtl)]"
    using parts vsim_tcl_file [OF t(1)] vsim_tcl_file [OF t(2)] makefile_file [OF m(1)] makefile_file [OF m(2)]
    by (simp only: sd append.simps)
  show names: "map fst ws = map (mk_name ''sim/vcompile/ips'') ?ips @ map (mk_name ''sim/vcompile/rtl'') ?rtl @
      [''sim/tcl_files/config/vsim_ips.tcl'', ''sim/tcl_files/config/vsim_rtl.tcl'',
       ''sim/vcompile/ips.mk'', ''sim/vcompile/rtl.mk'']"
    using export_make_to_files [OF wi] export_make_to_files [OF wr] ws
    by (simp add: sd od_keys_def case_prod_unfold)
  have ok: "od_ok (d_ip_dic db)" "od_ok (d_rtl_dic db)" using assms(1) by (simp_all add: db_wf_def dic_wf_def)
  show dist: "distinct (map fst ws)"
    unfolding names using ok by (auto simp: distinct_map inj_on_def mk_name_def)
  show "linked_files ws ''sim/vcompile/ips'' ''sim/tcl_files/config/vsim_ips.tcl'' ''sim/vcompile/ips.mk'' ''ips'' ?ips"
    using source_dic_wf [OF assms(1)] wi dist by (rule source_files_linked) (auto simp: ws sd)
  show "linked_files ws ''sim/vcompile/rtl'' ''sim/tcl_files/config/vsim_rtl.tcl'' ''sim/vcompile/rtl.mk'' ''rtl'' ?rtl"
    using source_dic_wf [OF assms(1)] wr dist by (rule source_files_linked) (auto simp: ws sd)
qed

lemma generate_scripts_Inr:
  "generate_scripts h st = (ws, Inr ()) \<longleftrightarrow> (\<exists>s1 s db. ipstools_cfg (h_sys h) st = (s1, Inr ()) \<and>
     execute_all (h_sys h) s1 SETUP = (s, Inr ()) \<and> db_init (h_env h s) SCRIPT_OPTIONS [] = Inr db \<and>
     script_files (h_can_open h s) db = (ws, Inr ()))"
  by (auto simp: generate_scripts_def with_text_Inr_iff split: prod.splits)

text \<open>Property C7. When \<open>generate-scripts\<close> finishes, the database its constructor gave is well formed and the
  files it wrote are, in this order and each once, a makefile for every IP of the dictionary of this
  database and for every one of its RTL components, the two link scripts and the two makefiles above the
  others.  They agree: the latter enter exactly the makefiles that were written, and every library a
  link script names is the one the makefile of that IP builds.\<close>
theorem generated_scripts_agree:
  assumes "generate_scripts h st = (ws, Inr ())"
  shows "\<exists>s1 s db. ipstools_cfg (h_sys h) st = (s1, Inr ()) \<and> execute_all (h_sys h) s1 SETUP = (s, Inr ()) \<and>
    db_init (h_env h s) SCRIPT_OPTIONS [] = Inr db \<and> db_wf db \<and>
    map fst ws = map (mk_name ''sim/vcompile/ips'') (od_keys (d_ip_dic db)) @
      map (mk_name ''sim/vcompile/rtl'') (od_keys (d_rtl_dic db)) @
      [''sim/tcl_files/config/vsim_ips.tcl'', ''sim/tcl_files/config/vsim_rtl.tcl'',
       ''sim/vcompile/ips.mk'', ''sim/vcompile/rtl.mk''] \<and>
    distinct (map fst ws) \<and>
    linked_files ws ''sim/vcompile/ips'' ''sim/tcl_files/config/vsim_ips.tcl'' ''sim/vcompile/ips.mk''
      ''ips'' (od_keys (d_ip_dic db)) \<and>
    linked_files ws ''sim/vcompile/rtl'' ''sim/tcl_files/config/vsim_rtl.tcl'' ''sim/vcompile/rtl.mk''
      ''rtl'' (od_keys (d_rtl_dic db))"
proof -
  from assms [unfolded generate_scripts_Inr] obtain s1 s db where cfg: "ipstools_cfg (h_sys h) st = (s1, Inr ())"
    and prep: "execute_all (h_sys h) s1 SETUP = (s, Inr ())"
    and db: "db_init (h_env h s) SCRIPT_OPTIONS [] = Inr db"
    and run: "script_files (h_can_open h s) db = (ws, Inr ())"
    by blast
  note wf = db_init_is_wf [OF db]
  show ?thesis
    using cfg prep db wf script_files_finished [OF wf run] by (intro exI conjI) assumption+
qed

subsection \<open>From the update to the scripts\<close>

lemma import_entry_keys:
  assumes "import_entry env lp dir vsim ips dic ip = Inr (ip', dic')" and "k \<in> set (od_keys dic')"
  shows "k \<in> set (od_keys dic) \<or> py_item ip ''name'' = Inr (PStr k)"
proof -
  from assms(1) obtain name v filename path domain alternatives
    where "py_item ip ''name'' = Inr v" "py_as_str v = Inr name"
      "import_yaml env vsim ips dic name filename path domain alternatives = Inr dic'"
    by (auto simp: import_entry_def res_iffs)
  moreover from this(2) have "v = PStr name" by (cases v) simp_all
  ultimately show ?thesis
    using assms(2) by (auto simp: import_yaml_def res_iffs split: if_splits option.splits)
qed

lemma import_all_keys:
  assumes "import_all env lp dir vsim ips l = Inr (xs, dic)" and "k \<in> set (od_keys dic)"
  shows "\<exists>ys y. py_iter l = Inr ys \<and> y \<in> set ys \<and> py_item y ''name'' = Inr (PStr k)"
proof -
  from assms(1) obtain ys where ys: "py_iter l = Inr ys" and run: "res_foldM (\<lambda>(seen, dic) ip.
      res_map (\<lambda>(ip', dic'). (seen @ [ip'], dic')) (import_entry env lp dir vsim ips dic ip)) ([], []) ys = Inr (xs, dic)"
    by (auto simp: import_all_def res_bind_Inr_iff)
  let ?P = "\<lambda>t. \<forall>k\<in>set (od_keys (snd t)). \<exists>y\<in>set ys. py_item y ''name'' = Inr (PStr k)"
  from run have "?P (xs, dic)"
  proof (rule res_foldM_invariant)
    show "?P t'" if "x \<in> set ys" "?P t" and "(case t of (seen, dic) \<Rightarrow> \<lambda>ip.
        res_map (\<lambda>(ip', dic'). (seen @ [ip'], dic')) (import_entry env lp dir vsim ips dic ip)) x = Inr t'" for t x t'
      using that import_entry_keys by (cases t) (fastforce simp: res_map_Inr_iff)
  qed simp
  then show ?thesis using ys assms(2) by auto
qed

lemma db_init_cached_keys:
  assumes "db_init env o' inp = Inr db" and "opt_load_cache o'"
    and "env_read env ''.cached_ipdb.json'' = Inr text" and "env_loads env text = Inr (cache_doc saved)"
    and "k \<in> set (od_keys (d_ip_dic db))"
  shows "\<exists>ys y. py_iter (d_ip_list saved) = Inr ys \<and> y \<in> set ys \<and> py_item y ''name'' = Inr (PStr k)"
proof -
  have gz: "slice_neg 3 1 ''.cached_ipdb.json'' \<noteq> ''.gz''" using gz_never by simp
  from assms(1,2) obtain db1 db2 where 1: "init_lists env o' inp = Inr db1"
    and 2: "load_database env ''.cached_ipdb.json'' db1 = Inr db2"
    and 3: "(if opt_skip_scripts o' then Inr db2 else res_bind (import_ips env o' db2) (import_rtl env o')) = Inr db"
    by (auto simp: db_init_def res_bind_Inr_iff)
  have list: "d_ip_list db2 = d_ip_list saved"
    using 2 assms(3,4) gz by (auto simp: load_database_def cache_doc_def od_get_def)
  have empty: "d_ip_dic db2 = []" using init_lists_dics [OF 1] load_database_dics [OF 2] by simp
  from 3 assms(5) empty obtain db3 where 4: "import_ips env o' db2 = Inr db3" and "import_rtl env o' db3 = Inr db"
    by (auto simp: res_bind_Inr_iff split: if_splits)
  then have "k \<in> set (od_keys (d_ip_dic db3))"
    using assms(5) by (auto simp: import_rtl_def res_map_Inr_iff split: if_splits)
  with 4 show ?thesis using import_all_keys list by (fastforce simp: import_ips_def res_map_Inr_iff)
qed

definition with_remote :: "pyval \<Rightarrow> string \<Rightarrow> pyval" where
  "with_remote ip r = (case ip of PDict kvs \<Rightarrow> PDict (od_set ''remote'' (PStr r) kvs) | v \<Rightarrow> v)"

lemma with_remote_name: "py_item (with_remote ip r) ''name'' = py_item ip ''name''"
  by (cases ip) (simp_all add: with_remote_def od_get_def)

lemma update_clone_ip:
  "update_clone os server grp' st ip = (st', Inr (ip', e)) \<Longrightarrow> \<exists>r. ip' = with_remote ip r"
  unfolding update_clone_def with_remote_def [symmetric] Let_def
  by (auto simp: st_iffs split: if_splits)

lemma update_one_name:
  "update_one os server grp' origin cwd st ip = (st', Inr (ip', e)) \<Longrightarrow> py_item ip' ''name'' = py_item ip ''name''"
  by (auto simp: update_one_def st_iffs with_remote_name split: if_splits dest!: update_clone_ip)

lemma update_all_names:
  "st_foldM (update_step os db origin cwd) s (seen, errs) ips = (s', Inr (seen', errs')) \<Longrightarrow>
   map (\<lambda>v. py_item v ''name'') seen' = map (\<lambda>v. py_item v ''name'') (seen @ ips)"
proof (induction ips arbitrary: s seen errs)
  case (Cons ip ips)
  from Cons.prems obtain t acc where first: "update_step os db origin cwd s (seen, errs) ip = (t, Inr acc)"
    and run: "st_foldM (update_step os db origin cwd) t acc ips = (s', Inr (seen', errs'))"
    by (auto simp: st_iffs)
  from first obtain ip' e errs1
    where one: "update_one os (d_default_server db) (d_default_group db) origin cwd s ip = (t, Inr (ip', e))"
      and acc: "acc = (seen @ [ip'], errs1)" by (auto simp: st_iffs update_step_def)
  note rest = run [unfolded acc]
  from Cons.IH [OF rest] update_one_name [OF one] show ?case by simp
qed simp

lemma update_ips_names:
  assumes "update_ips os origin st db = (st', Inr db')" and "d_ip_list db = PList vs"
  shows "\<exists>vs'. d_ip_list db' = PList vs' \<and>
    map (\<lambda>v. py_item v ''name'') vs' = map (\<lambda>v. py_item v ''name'') vs"
  using assms update_all_names [of os db origin _ _ "[]" "[]" vs]
  by (auto simp: update_ips_def update_run_def update_all_def st_iffs split: if_splits)

text \<open>Also a run that ends in an exception writes nothing but what its parts write.\<close>

lemma run_each_writes: "p \<in> set (fst (run_each f xs)) \<Longrightarrow> \<exists>x\<in>set xs. p \<in> set (fst (f x))"
  by (induction xs) (auto simp: skip_run_def then_run_def split: prod.splits sum.splits)

lemma one_file: "p \<in> set (fst (with_text r (write_file co f))) \<Longrightarrow> fst p = f"
  by (auto simp: with_text_def write_file_def split: sum.splits if_splits)

lemma export_make_to_writes:
  assumes "p \<in> set (fst (export_make_to co path source tech loc db))"
  shows "fst p \<in> mk_name path ` set (od_keys (source_dic source db))"
proof -
  let ?f = "\<lambda>(i, c). with_text (ip_export_make ''$(IP_PATH)'' [] tech source loc ''vsim'' c)
    (write_file co (path @ ''/'' @ i @ ''.mk''))"
  from assms have "p \<in> set (fst (run_each ?f (source_dic source db)))"
    by (simp add: export_make_to_def db_export_make_def with_source_def split: if_splits)
  from run_each_writes [OF this] obtain x where x: "x \<in> set (source_dic source db)" "p \<in> set (fst (?f x))"
    by (elim bexE)
  obtain i c where "x = (i, c)" by force
  with x have "fst p = mk_name path i" "i \<in> set (od_keys (source_dic source db))"
    using one_file by (simp_all add: mk_name_def) (force simp: od_keys_def)
  then show ?thesis by simp
qed

lemma vsim_tcl_writes: "p \<in> set (fst (generate_vsim_tcl co f source db)) \<Longrightarrow> fst p = f"
  by (auto simp: generate_vsim_tcl_def with_source_def split: if_splits dest!: one_file)

lemma makefile_writes: "p \<in> set (fst (generate_makefile co f tech source db)) \<Longrightarrow> fst p = f"
  by (auto simp: generate_makefile_def with_source_def Let_def split: if_splits dest!: one_file)

lemma script_files_name:
  assumes "script_files co db = (ws, r)" and "(mk_name ''sim/vcompile/ips'' i, t) \<in> set ws"
  shows "i \<in> set (od_keys (d_ip_dic db))"
proof -
  from assms have "(mk_name ''sim/vcompile/ips'' i, t) \<in> set (fst (script_files co db))" by simp
  from run_each_writes [OF this [unfolded script_files_def]] show ?thesis
    by (auto simp: mk_name_def source_dic_def dest!: export_make_to_writes vsim_tcl_writes makefile_writes)
qed

lemma resolved_list:
  assumes "db_init env UPDATE_OPTIONS inp = Inr db"
  shows "\<exists>ips root es rest. generate_deps_tree env (PStr DEFAULT_SERVER) (PStr ''pulp-platform'') (PStr ''master'') ips = Inr root \<and>
    resolve_deps_conflicts (Some root) inp = Inr (es, rest) \<and>
    d_ip_list db = (case es of None \<Rightarrow> PNone | Some es \<Rightarrow> PList (map entry_val es))"
proof -
  from assms have "init_lists env UPDATE_OPTIONS inp = Inr db"
    by (simp add: db_init_def UPDATE_OPTIONS_def default_options_def res_bind_Inr_iff)
  then obtain ips root es rest
    where "generate_deps_tree env (PStr DEFAULT_SERVER) (PStr ''pulp-platform'') (PStr ''master'') ips = Inr root"
      and "resolve_deps_conflicts (Some root) inp = Inr (es, rest)"
      and "d_ip_list db = (case es of None \<Rightarrow> PNone | Some es \<Rightarrow> PList (map entry_val es))"
    unfolding init_lists_def UPDATE_OPTIONS_def default_options_def
    by (auto simp: res_bind_Inr_iff res_map_Inr_iff)
  then show ?thesis by blast
qed

lemma update_database_list:
  assumes "update_database h inp st = (st1, Inr db)"
  shows "\<exists>s ips root es rest s' vs. generate_deps_tree (h_env h s) (PStr DEFAULT_SERVER) (PStr ''pulp-platform'') (PStr ''master'') ips = Inr root \<and>
    resolve_deps_conflicts (Some root) inp = Inr (Some es, rest) \<and>
    h_write h s' ''.cached_ipdb.json'' (env_dumps (h_env h s') (cache_doc db)) = (st1, Inr ()) \<and>
    d_ip_list db = PList vs \<and> map (\<lambda>v. py_item v ''name'') vs = map (Inr \<circ> PStr \<circ> e_name) es"
proof -
  from assms obtain s s' db0 where db0: "db_init (h_env h s) UPDATE_OPTIONS inp = Inr db0"
    and upd: "update_ips (h_sys h) ''origin'' s db0 = (s', Inr db)"
    and saved: "h_write h s' ''.cached_ipdb.json'' (env_dumps (h_env h s') (cache_doc db)) = (st1, Inr ())"
    unfolding update_database_def save_database_def by (auto simp: st_iffs)
  from resolved_list [OF db0] obtain ips root es rest
    where tree: "generate_deps_tree (h_env h s) (PStr DEFAULT_SERVER) (PStr ''pulp-platform'') (PStr ''master'') ips = Inr root"
      and res: "resolve_deps_conflicts (Some root) inp = Inr (es, rest)"
      and l: "d_ip_list db0 = (case es of None \<Rightarrow> PNone | Some es \<Rightarrow> PList (map entry_val es))" by blast
  from upd l obtain es' where es: "es = Some es'" by (cases es) (auto simp: update_ips_def update_run_def st_iffs)
  with l have "d_ip_list db0 = PList (map entry_val es')" by simp
  from update_ips_names [OF upd this] obtain vs where "d_ip_list db = PList vs"
    "map (\<lambda>v. py_item v ''name'') vs = map (Inr \<circ> PStr \<circ> e_name) es'"
    by (auto simp: entry_val_def od_get_def)
  with tree res saved es show ?thesis by blast
qed

text \<open>Property C6. What is built is what was resolved: when \<open>update-ips\<close> has saved the database, and the
  file system and the JSON library give back what was written, \<open>generate-scripts\<close> only writes
  makefiles for IPs of the list that resolving the conflicts of the dependency tree gave, whatever
  the update did to the entries and even if the scripts end in an exception.\<close>
theorem built_ips_were_resolved:
  assumes "update_database h inp st = (st1, Inr db)"
    and "\<And>s t s'. h_write h s ''.cached_ipdb.json'' t = (s', Inr ()) \<Longrightarrow> env_read (h_env h s') ''.cached_ipdb.json'' = Inr t"
    and "\<And>s s'. env_loads (h_env h s') (env_dumps (h_env h s) (cache_doc db)) = Inr (cache_doc db)"
    and "\<And>s s'. ipstools_cfg (h_sys h) st1 = (s, Inr ()) \<Longrightarrow> execute_all (h_sys h) s SETUP = (s', Inr ()) \<Longrightarrow>
           env_read (h_env h s') ''.cached_ipdb.json'' = env_read (h_env h st1) ''.cached_ipdb.json''"
    and "generate_scripts h st1 = (ws, r)"
  shows "\<exists>s ips root es rest.
    generate_deps_tree (h_env h s) (PStr DEFAULT_SERVER) (PStr ''pulp-platform'') (PStr ''master'') ips = Inr root \<and>
    resolve_deps_conflicts (Some root) inp = Inr (Some es, rest) \<and>
    (\<forall>i t. (mk_name ''sim/vcompile/ips'' i, t) \<in> set ws \<longrightarrow> i \<in> e_name ` set es)"
proof -
  from update_database_list [OF assms(1)] obtain s ips root es rest s' vs
    where tree: "generate_deps_tree (h_env h s) (PStr DEFAULT_SERVER) (PStr ''pulp-platform'') (PStr ''master'') ips = Inr root"
      and res: "resolve_deps_conflicts (Some root) inp = Inr (Some es, rest)"
      and saved: "h_write h s' ''.cached_ipdb.json'' (env_dumps (h_env h s') (cache_doc db)) = (st1, Inr ())"
      and list: "d_ip_list db = PList vs" "map (\<lambda>v. py_item v ''name'') vs = map (Inr \<circ> PStr \<circ> e_name) es" by blast
  have "i \<in> e_name ` set es" if wrote: "(mk_name ''sim/vcompile/ips'' i, t) \<in> set ws" for i t
  proof -
    from assms(5) wrote obtain s1 s2 db1 where cfg: "ipstools_cfg (h_sys h) st1 = (s1, Inr ())"
      and prep: "execute_all (h_sys h) s1 SETUP = (s2, Inr ())"
      and init: "db_init (h_env h s2) SCRIPT_OPTIONS [] = Inr db1"
      and run: "script_files (h_can_open h s2) db1 = (ws, r)"
      by (auto simp: generate_scripts_def with_text_def split: sum.splits prod.splits)
    have "opt_load_cache SCRIPT_OPTIONS" by (simp add: SCRIPT_OPTIONS_def)
    moreover have "env_read (h_env h s2) ''.cached_ipdb.json'' = Inr (env_dumps (h_env h s') (cache_doc db))"
      using assms(2) [OF saved] assms(4) [OF cfg prep] by simp
    ultimately obtain ys y where "py_iter (d_ip_list db) = Inr ys" "y \<in> set ys" "py_item y ''name'' = Inr (PStr i)"
      using db_init_cached_keys [OF init _ _ assms(3) script_files_name [OF run wrote]] by blast
    then have "Inr (PStr i) \<in> set (map (\<lambda>v. py_item v ''name'') vs)" using list(1) by force
    then show ?thesis unfolding list(2) by auto
  qed
  with tree res show ?thesis by blast
qed

subsection \<open>An example\<close>

text \<open>
  A host on which every directory exists, every command succeeds and the head of each repository is
  detached; the two IPs of \<open>example_env\<close>, with the sources of one, and a JSON library for one text.
\<close>

definition example_sys :: "unit sys" where
  "example_sys =
     \<lparr>sys_py3 = True, sys_isdir = (\<lambda>w d. True), sys_run = (\<lambda>w d cmd. (w, Some (0, ''HEAD''))),
      sys_clear = (\<lambda>w d. (w, Inr ())), sys_removedirs = (\<lambda>w d. None)\<rparr>"

definition example_host :: "pyval \<Rightarrow> unit host" where
  "example_host saved =
     \<lparr>h_sys = example_sys,
      h_env = (\<lambda>st. example_env\<lparr>env_read := (\<lambda>f. if f = ''.cached_ipdb.json'' then Inr [] else env_read example_env f),
                                 env_pipe := (\<lambda>cmd sink. Some []), env_loads := (\<lambda>t. Inr saved)\<rparr>),
      h_can_open = (\<lambda>st f. True),
      h_write = (\<lambda>st f t. if f = ''.cached_ipdb.json'' \<and> t = [] then (st, Inr ()) else (st, Inl OSError)),
      h_mkdir = (\<lambda>st f. (st, Inl OSError))\<rparr>"

definition example_list :: pyval where
  "example_list = PList (map (\<lambda>n.
     entry_val \<lparr>e_name = n, e_commit = PStr ''m'', e_server = PNone, e_group = PNone, e_path = PStr n,
                e_domain = PNone, e_alternatives = PNone\<rparr>) [''a'', ''b''])"

definition example_doc :: pyval where
  "example_doc = PDict
     [(''ips_dir'', PStr ''ips''), (''rtl_dir'', PStr ''rtl''), (''vsim_dir'', PStr ''sim''),
      (''fpgasim_dir'', PStr ''./fpga/sim''), (''ip_list'', example_list), (''rtl_list'', PNone)]"

definition example_node :: "nat \<Rightarrow> string \<Rightarrow> ip_tree" where
  "example_node i n = IPTreeNode i
     \<lparr>e_name = n, e_commit = PStr ''m'', e_server = PNone, e_group = PNone, e_path = PStr n, e_domain = PNone,
      e_alternatives = PNone\<rparr> None
     \<lparr>o_server = PStr DEFAULT_SERVER, o_group = PStr ''pulp-platform'', o_name = n, o_commit = PStr ''m''\<rparr> []"

definition resolved_db :: ip_db where
  "resolved_db =
      \<lparr>d_ips_dir = PStr ''ips'', d_rtl_dir = PStr ''rtl'', d_vsim_dir = PStr ''sim'',
       d_fpgasim_dir = PStr ''./fpga/sim'', d_ip_dic = [], d_rtl_dic = [],
       d_default_server = PStr DEFAULT_SERVER, d_default_group = PStr ''pulp-platform'',
       d_default_commit = PStr ''master'', d_ip_list = example_list, d_rtl_list = PNone,
       d_ip_tree = Some [example_node 0 ''a'', example_node 1 ''b'']\<rparr>"

abbreviation example_init :: "ip_db res" where
  "example_init \<equiv> db_init (h_env (example_host example_doc) ((), ''/p'')) UPDATE_OPTIONS []"

lemma example_init_ok: "\<not> isl example_init" by code_simp
lemma example_init_db: "projr example_init = resolved_db"
proof (rule ip_db.equality)
  show "d_ips_dir (projr example_init) = d_ips_dir resolved_db" by code_simp
  show "d_rtl_dir (projr example_init) = d_rtl_dir resolved_db" by code_simp
  show "d_vsim_dir (projr example_init) = d_vsim_dir resolved_db" by code_simp
  show "d_fpgasim_dir (projr example_init) = d_fpgasim_dir resolved_db" by code_simp
  show "d_ip_dic (projr example_init) = d_ip_dic resolved_db" by code_simp
  show "d_rtl_dic (projr example_init) = d_rtl_dic resolved_db" by code_simp
  show "d_default_server (projr example_init) = d_default_server resolved_db" by code_simp
  show "d_default_group (projr example_init) = d_default_group resolved_db" by code_simp
  show "d_default_commit (projr example_init) = d_default_commit resolved_db" by code_simp
  show "d_ip_list (projr example_init) = d_ip_list resolved_db" by code_simp
  show "d_rtl_list (projr example_init) = d_rtl_list resolved_db" by code_simp
  show "d_ip_tree (projr example_init) = d_ip_tree resolved_db" by code_simp
qed simp

lemma example_sys_simps [simp]:
  "chdir example_sys st p = ((fst st, abspath (snd st) p), Inr ())" "isdir example_sys st p"
  "execute example_sys st cmd = (st, Inr 0)" "execute_out example_sys st cmd = (st, Inr ''HEAD'')"
  by (cases st; simp add: chdir_def isdir_def execute_def execute_out_def run_command_def example_sys_def Let_def)+

lemma example_abspath: "abspath cwd ''/p'' = ''/p''" 
proof -
  have "normpath ''/p'' = ''/p''" by code_simp
  then show ?thesis by (simp add: abspath_def)
qed

lemma example_host_simps [simp]: "h_sys (example_host doc) = example_sys"
  by (simp add: example_host_def)

lemma example_update_ips:
  "update_ips example_sys ''origin'' ((), ''/p'') resolved_db = (((), ''/p''), Inr resolved_db)"
  by (simp add: update_ips_def update_run_def update_all_def update_step_def update_one_def update_existing_def resolved_db_def example_list_def
      entry_val_def od_get_def example_abspath Let_def)

lemma example_setup: "execute_all example_sys st cmds = (st, Inr ())"
  by (induction cmds) (simp_all add: execute_all_def)

lemma example_cfg: "ipstools_cfg example_sys ((), ''/p'') = (((), ''/p''), Inr ())"
  by (simp add: ipstools_cfg_def fetch_tools_def example_abspath)

lemma example_updated: "update_database (example_host example_doc) [] ((), ''/p'') = (((), ''/p''), Inr resolved_db)"
proof -
  have "example_init = Inr resolved_db" using example_init_ok example_init_db by (cases example_init) simp_all
  moreover have "h_mkdir (example_host example_doc) st f = (st, Inl OSError)"
    "h_write (example_host example_doc) st ''.cached_ipdb.json'' [] = (st, Inr ())"
    "env_dumps (h_env (example_host example_doc) st) v = []" for st f v
    by (simp_all add: example_host_def example_env_def)
  ultimately show ?thesis
    by (simp add: update_database_def update_start_def example_cfg example_update_ips save_database_def)
qed

lemma example_cache: "cache_doc resolved_db = example_doc"
  by (simp add: cache_doc_def resolved_db_def example_doc_def)

abbreviation example_run :: run where
  "example_run \<equiv> generate_scripts (example_host example_doc) ((), ''/p'')"

lemma example_files:
  "map fst (fst example_run) =
     [''sim/vcompile/ips/a.mk'', ''sim/tcl_files/config/vsim_ips.tcl'', ''sim/tcl_files/config/vsim_rtl.tcl'',
      ''sim/vcompile/ips.mk'', ''sim/vcompile/rtl.mk'']"
  by code_simp

lemma example_finishes: "example_run = (fst example_run, Inr ())"
proof -
  have "\<not> isl (snd example_run)" by code_simp
  then show ?thesis by (metis old.unit.exhaust prod.collapse sum.collapse(2))
qed

theorem generated_scripts_agree_witness:
  "\<exists>t. map_of (fst example_run) ''sim/vcompile/ips/a.mk'' = Some t \<and> prefix (mk_head ''a'') t"
  using generated_scripts_agree [OF example_finishes]
proof (elim exE conjE)
  fix s1 s db
  assume names: "map fst (fst example_run) = map (mk_name ''sim/vcompile/ips'') (od_keys (d_ip_dic db)) @
      map (mk_name ''sim/vcompile/rtl'') (od_keys (d_rtl_dic db)) @
      [''sim/tcl_files/config/vsim_ips.tcl'', ''sim/tcl_files/config/vsim_rtl.tcl'',
       ''sim/vcompile/ips.mk'', ''sim/vcompile/rtl.mk'']"
    and linked: "linked_files (fst example_run) ''sim/vcompile/ips'' ''sim/tcl_files/config/vsim_ips.tcl''
      ''sim/vcompile/ips.mk'' ''ips'' (od_keys (d_ip_dic db))"
  from names have "''sim/vcompile/ips/a.mk'' \<in> set (map (mk_name ''sim/vcompile/ips'') (od_keys (d_ip_dic db)) @
      map (mk_name ''sim/vcompile/rtl'') (od_keys (d_rtl_dic db)) @
      [''sim/tcl_files/config/vsim_ips.tcl'', ''sim/tcl_files/config/vsim_rtl.tcl'',
       ''sim/vcompile/ips.mk'', ''sim/vcompile/rtl.mk''])"
    unfolding example_files [symmetric] names [symmetric] by (simp add: example_files)
  then have "''a'' \<in> set (od_keys (d_ip_dic db))" by (auto simp: mk_name_def)
  with linked show ?thesis
    by (auto simp: linked_files_def list_all_iff mk_name_def split: option.splits)
qed

theorem built_ips_were_resolved_witness:
  "''sim/vcompile/ips/a.mk'' \<in> fst ` set (fst example_run) \<and>
   (\<exists>root es rest. resolve_deps_conflicts (Some root) [] = Inr (Some es, rest) \<and> ''a'' \<in> e_name ` set es)"
proof -
  have h: "h_write (example_host example_doc) s ''.cached_ipdb.json'' t = (s', Inr ()) \<Longrightarrow>
      env_read (h_env (example_host example_doc) s') ''.cached_ipdb.json'' = Inr t"
    "env_loads (h_env (example_host example_doc) s') (env_dumps (h_env (example_host example_doc) s) (cache_doc resolved_db)) =
       Inr (cache_doc resolved_db)"
    "env_read (h_env (example_host example_doc) s) ''.cached_ipdb.json'' =
       env_read (h_env (example_host example_doc) s') ''.cached_ipdb.json''" for s t s'
    by (simp_all add: example_host_def example_cache split: if_splits)
  have files: "''sim/vcompile/ips/a.mk'' \<in> fst ` set (fst example_run)"
    unfolding list.set_map [symmetric] example_files by simp
  then obtain t where "(mk_name ''sim/vcompile/ips'' ''a'', t) \<in> set (fst example_run)" by (force simp: mk_name_def)
  moreover have "\<exists>s ips root es rest.
    generate_deps_tree (h_env (example_host example_doc) s) (PStr DEFAULT_SERVER) (PStr ''pulp-platform'') (PStr ''master'') ips = Inr root \<and>
    resolve_deps_conflicts (Some root) [] = Inr (Some es, rest) \<and>
    (\<forall>i t. (mk_name ''sim/vcompile/ips'' i, t) \<in> set (fst example_run) \<longrightarrow> i \<in> e_name ` set es)"
    by (rule built_ips_were_resolved [OF example_updated _ h(2) h(3) example_finishes]) (rule h(1))
  ultimately show ?thesis using files by blast
qed

end
