(* ===== verification/Ip_Typing.thy ===== *)
theory Ip_Typing imports Front_End begin

section \<open>Typed projects\<close>

text \<open>
  Type soundness of \<open>ipstools\<close>.  A project is typed when every \<open>src_files.yml\<close> that can be read is a
  mapping whose fields are lists of strings, for the IP itself or for each of its sub-IPs, and every
  path is a string.  The constructors of \<open>SubIPConfig\<close>, \<open>IPConfig\<close> and \<open>IPDatabase\<close> keep the types,
  and on a typed database no exporter raises an exception.
\<close>

subsection \<open>Documents\<close>






subsection \<open>Databases\<close>












subsection \<open>Exporters do not raise\<close>














subsection \<open>The whole run\<close>



lemma empty_path_raises:
  assumes "c_path c = PStr []" and "make_prerequisites tech loc sim (c_sub_ips c) = Inr pre"
  shows "ip_export_make abs_path more_opts tech source loc sim c = Inl IndexError"
  using assms by (cases pre) (simp add: ip_export_make_def py_index_def)


end
