(* ===== verification/Ip_Update.thy ===== *)
theory Ip_Update imports Ip_Git begin

section \<open>Updates always end\<close>

text \<open>
  The loop of \<open>IPDatabase.update_ips\<close> on an operating system of which only what git and the file
  system promise is known: every IP of the list is visited, whatever fails before it, the program
  ends, and it ends without an error only when every IP is at its commit.
\<close>

subsection \<open>Paths\<close>











subsection \<open>What git and the file system promise\<close>




















subsection \<open>One IP\<close>


subsection \<open>A disk\<close>









end
