(* ===== verification/Ordered_Load.thy ===== *)
theory Ordered_Load imports Ordered_Dict begin

section \<open>Loading mappings in order\<close>

text \<open>
  \<open>ordered_load\<close> of \<open>ipstools/ipstools/IPApproX_common.py\<close> and its copy \<open>yaml_ordered_load\<close> in the
  microcode tools: a YAML loader in which mappings are built by \<open>OrderedDict\<close>.  The library is a
  parameter: \<open>flatten\<close> and \<open>pairs\<close> are the methods \<open>flatten_mapping\<close> and \<open>construct_pairs\<close> of the
  loader, and \<open>load\<close> is \<open>yaml.load\<close> with the constructor for mappings it is given.  Keys are
  hashable.
\<close>

definition construct_mapping ::
  "('n \<Rightarrow> 'n res) \<Rightarrow> ('n \<Rightarrow> ('k \<times> 'v) list res) \<Rightarrow> (('k \<times> 'v) list \<Rightarrow> 'd res) \<Rightarrow> 'n \<Rightarrow> 'd res" where
  "construct_mapping flatten pairs object_pairs_hook node =
     res_bind (flatten node) (\<lambda>node. res_bind (pairs node) object_pairs_hook)"

definition ordered_load ::
  "(('n \<Rightarrow> 'd res) \<Rightarrow> 's \<Rightarrow> 'x res) \<Rightarrow> ('n \<Rightarrow> 'n res) \<Rightarrow> ('n \<Rightarrow> ('k \<times> 'v) list res) \<Rightarrow>
   (('k \<times> 'v) list \<Rightarrow> 'd res) \<Rightarrow> 's \<Rightarrow> 'x res" where
  "ordered_load load flatten pairs object_pairs_hook stream =
     load (construct_mapping flatten pairs object_pairs_hook) stream"

definition yaml_ordered_load ::
  "(('n \<Rightarrow> 'd res) \<Rightarrow> 's \<Rightarrow> 'x res) \<Rightarrow> ('n \<Rightarrow> 'n res) \<Rightarrow> ('n \<Rightarrow> ('k \<times> 'v) list res) \<Rightarrow>
   (('k \<times> 'v) list \<Rightarrow> 'd res) \<Rightarrow> 's \<Rightarrow> 'x res" where
  "yaml_ordered_load load flatten pairs object_pairs_hook stream =
     load (construct_mapping flatten pairs object_pairs_hook) stream"

text \<open>The hook that is always used: \<open>OrderedDict\<close> called with one argument.\<close>

definition pairs_hook :: "('k \<times> 'v) list \<Rightarrow> ('k, 'v) odict res" where
  "pairs_hook ps = od_init [ps]"

lemma foldl_set_keys:
  "od_keys (foldl (\<lambda>d (k, v). od_set k v d) d ps) =
     od_keys d @ filter (\<lambda>k. k \<notin> set (od_keys d)) (rev (remdups (rev (map fst ps))))"
proof (induction ps rule: rev_induct)
  case (snoc p ps)
  obtain k v where "p = (k, v)" by force
  with snoc show ?case by (auto simp: filter_empty_conv)
qed simp

lemma foldl_set_last: "map_of (foldl (\<lambda>d (k, v). od_set k v d) [] ps) k = map_of (rev ps) k"
proof (induction ps rule: rev_induct)
  case (snoc p ps)
  then show ?case by (cases p) simp
qed simp

text \<open>A mapping is loaded in the order of the file: its keys are those of the pairs the
  library finds, each at its first place, and a key that is there more than once has, without any
  message, the value of its last place.\<close>
theorem mappings_load_in_order:
  assumes "flatten node = Inr node'" and "pairs node' = Inr ps"
  shows "\<exists>d. construct_mapping flatten pairs pairs_hook node = Inr d \<and>
    od_iter d = Some (rev (remdups (rev (map fst ps)))) \<and>
    od_reversed d = Some (remdups (rev (map fst ps))) \<and>
    od_getitem d k = (case map_of (rev ps) k of None \<Rightarrow> Inl KeyError | Some v \<Rightarrow> Inr v)"
proof -
  have rel: "od_rel (od_update ps (od_clear od_blank)) (foldl (\<lambda>d (k, v). od_set k v d) [] ps)"
    by (rule od_rel_update) simp
  have "od_keys (foldl (\<lambda>d (k, v). od_set k v d) [] ps) = rev (remdups (rev (map fst ps)))"
    using foldl_set_keys [of "[]" ps] by (simp add: od_keys_def)
  then show ?thesis
    using assms od_rel_iter [OF rel]
    by (simp add: construct_mapping_def pairs_hook_def od_init_def od_rel_getitem [OF rel] od_get_def foldl_set_last)
qed

theorem mappings_load_in_order_witness:
  "\<exists>d. construct_mapping Inr Inr pairs_hook [(''a'', 1::int), (''b'', 2), (''a'', 3)] = Inr d \<and>
     od_iter d = Some [''a'', ''b''] \<and>
     od_reversed d = Some [''b'', ''a''] \<and> od_getitem d ''a'' = Inr 3"
  using mappings_load_in_order [of Inr "[(''a'', 1::int), (''b'', 2), (''a'', 3)]" _ Inr _ "''a''"] by simp

end
