(* ===== verification/Ip_Closure.thy ===== *)
theory Ip_Closure imports Front_End begin

section \<open>Dependencies are complete\<close>

text \<open>
  The dependency tree against its specification: the entries that can be reached from the list of the
  project through the lists of their repositories.  The tree holds exactly these, its construction
  ends exactly when there is no endless chain of dependencies, and the list that \<open>update-ips\<close>
  leaves has an IP for each of their names.
\<close>

subsection \<open>Entries that are reached\<close>

inductive reached :: "(origin \<Rightarrow> ip_entry list res) \<Rightarrow> (ip_entry \<Rightarrow> origin) \<Rightarrow> ip_entry list \<Rightarrow> ip_entry \<Rightarrow> bool"
  for fetch org es where
  listed: "e \<in> set es \<Longrightarrow> reached fetch org es e"
| depends: "reached fetch org es e \<Longrightarrow> fetch (org e) = Inr ips \<Longrightarrow> d \<in> set ips \<Longrightarrow> reached fetch org es d"




lemma reached_Nil [simp]: "\<not> reached fetch org [] e"
proof
  assume "reached fetch org [] e"
  then show False by (induction rule: reached.induct) auto
qed




subsection \<open>When the construction ends\<close>

lemma make_node_fuel:
  "make_node fetch org fuel fth k e = Inr r \<Longrightarrow> fuel \<le> fuel' \<Longrightarrow> make_node fetch org fuel' fth k e = Inr r"
  "make_nodes fetch org fuel fth k es = Inr rs \<Longrightarrow> fuel \<le> fuel' \<Longrightarrow> make_nodes fetch org fuel' fth k es = Inr rs"
proof (induction fetch org fuel fth k e and fetch org fuel fth k es arbitrary: r fuel' and rs fuel'
    rule: make_node_make_nodes.induct)
  case (2 fetch org fuel fth k e)
  from "2.prems"(1) obtain ips k' cs where f: "fetch (org e) = Inr ips"
    and c: "make_nodes fetch org fuel (Some (org e)) (Suc k) ips = Inr (k', cs)"
    and r: "r = (k', IPTreeNode k e fth (org e) cs)" by (auto simp: res_iffs)
  obtain g where g: "fuel' = Suc g" "fuel \<le> g" using "2.prems"(2) by (cases fuel') auto
  have "make_nodes fetch org g (Some (org e)) (Suc k) ips = Inr (k', cs)" by (rule "2.IH" [OF f c g(2)])
  then show ?case by (simp add: f r g(1))
next
  case (4 fetch org fuel fth k e es)
  from "4.prems"(1) obtain k1 t k' ts where n: "make_node fetch org fuel fth k e = Inr (k1, t)"
    and ns: "make_nodes fetch org fuel fth k1 es = Inr (k', ts)" and r: "rs = (k', t # ts)"
    by (auto simp: res_iffs)
  have "make_node fetch org fuel' fth k e = Inr (k1, t)" by (rule "4.IH"(1) [OF n "4.prems"(2)])
  moreover have "make_nodes fetch org fuel' fth k1 es = Inr (k', ts)"
    by (rule "4.IH"(2) [OF n refl ns "4.prems"(2)])
  ultimately show ?case by (simp add: r)
qed auto

text \<open>The entries below which every chain of dependencies ends and every list can be fetched.\<close>

inductive buildable :: "(origin \<Rightarrow> ip_entry list res) \<Rightarrow> (ip_entry \<Rightarrow> origin) \<Rightarrow> ip_entry \<Rightarrow> bool"
  for fetch org where
  build: "fetch (org e) = Inr ips \<Longrightarrow> \<forall>d\<in>set ips. buildable fetch org d \<Longrightarrow> buildable fetch org e"

text \<open>\<open>d\<close> is on the list of \<open>e\<close>.\<close>

definition wants :: "(origin \<Rightarrow> ip_entry list res) \<Rightarrow> (ip_entry \<Rightarrow> origin) \<Rightarrow> ip_entry \<Rightarrow> ip_entry \<Rightarrow> bool" where
  "wants fetch org e d \<longleftrightarrow> (case fetch (org e) of Inl x \<Rightarrow> False | Inr ips \<Rightarrow> d \<in> set ips)"

lemma buildable_ends: "buildable fetch org e \<Longrightarrow> \<exists>fuel. \<forall>fth k. \<exists>r. make_node fetch org fuel fth k e = Inr r"
proof (induction rule: buildable.induct)
  case (build e ips)
  then obtain g where g: "\<forall>d\<in>set ips. \<forall>fth k. \<exists>r. make_node fetch org (g d) fth k d = Inr r"
    by (metis (no_types, lifting))
  define fuel where "fuel = Max (insert 0 (g ` set ips))"
  have "g d \<le> fuel" if "d \<in> set ips" for d using that by (simp add: fuel_def)
  then have "\<exists>r. make_node fetch org fuel fth k d = Inr r" if "d \<in> set ips" for fth k d
    using that g make_node_fuel(1) [of fetch org "g d" fth k d _ fuel] by blast
  then have "\<exists>r. make_nodes fetch org fuel fth k ips = Inr r" for fth k
    by (rule make_nodes_total)
  then have "\<exists>r. make_node fetch org (Suc fuel) fth k e = Inr r" for fth k
    using build(1) by (auto simp: res_iffs)
  then show ?case by blast
qed

lemma no_chain_buildable:
  assumes "\<And>d. reached fetch org [e] d \<Longrightarrow> \<not> isl (fetch (org d))"
    and "\<nexists>f. f 0 = e \<and> (\<forall>n. wants fetch org (f n) (f (Suc n)))"
  shows "buildable fetch org e"
proof (rule ccontr)
  assume start: "\<not> buildable fetch org e"
  have step: "\<exists>d'. wants fetch org d d' \<and> reached fetch org [e] d' \<and> \<not> buildable fetch org d'"
    if "reached fetch org [e] d" "\<not> buildable fetch org d" for d
  proof -
    from assms(1) [OF that(1)] obtain ips where ips: "fetch (org d) = Inr ips" by (cases "fetch (org d)") auto
    with that(2) obtain d' where "d' \<in> set ips" "\<not> buildable fetch org d'" using build [of fetch org d] by blast
    with ips that(1) show ?thesis by (auto simp: wants_def intro: depends)
  qed
  let ?P = "\<lambda>(n::nat) d. reached fetch org [e] d \<and> \<not> buildable fetch org d \<and> (n = 0 \<longrightarrow> d = e)"
  have "\<exists>f. \<forall>n. ?P n (f n) \<and> wants fetch org (f n) (f (Suc n))"
  proof (rule dependent_nat_choice)
    show "\<exists>d. ?P 0 d" using start by (auto intro: listed)
    show "\<exists>y. ?P (Suc n) y \<and> wants fetch org x y" if "?P n x" for n x using that step [of x] by auto
  qed
  with assms(2) show False by blast
qed

lemma chain_never_ends:
  assumes "\<And>n. wants fetch org (f n) (f (Suc n))"
  shows "make_node fetch org fuel fth k (f n) \<noteq> Inr r"
proof (induction fuel arbitrary: n fth k r)
  case (Suc fuel)
  from assms [of n] obtain ips where ips: "fetch (org (f n)) = Inr ips" and d: "f (Suc n) \<in> set ips"
    by (auto simp: wants_def split: sum.splits)
  show ?case
  proof
    assume "make_node fetch org (Suc fuel) fth k (f n) = Inr r"
    then obtain k' cs where "make_nodes fetch org fuel (Some (org (f n))) (Suc k) ips = Inr (k', cs)"
      using ips by (auto simp: res_iffs)
    from make_nodes_member [OF this d] Suc show False by blast
  qed
qed simp

text \<open>Property C34. When the lists of all reachable repositories can be fetched, the construction of the tree
  ends, with a recursion limit that is large enough, exactly when there is no endless chain of
  dependencies, each on the list of the one before it.  Nothing else can keep it from ending, and on a
  cycle no limit is enough.\<close>
theorem tree_ends_iff_acyclic:
  assumes "\<And>d. reached fetch org [e] d \<Longrightarrow> \<not> isl (fetch (org d))"
  shows "(\<exists>limit. \<forall>fuel\<ge>limit. \<forall>fth k. \<exists>r. make_node fetch org fuel fth k e = Inr r) \<longleftrightarrow>
         (\<nexists>f. f 0 = e \<and> (\<forall>n. wants fetch org (f n) (f (Suc n))))"
proof
  assume "\<exists>limit. \<forall>fuel\<ge>limit. \<forall>fth k. \<exists>r. make_node fetch org fuel fth k e = Inr r"
  then show "\<nexists>f. f 0 = e \<and> (\<forall>n. wants fetch org (f n) (f (Suc n)))"
    using chain_never_ends [where n = 0] by (metis order_refl)
next
  assume "\<nexists>f. f 0 = e \<and> (\<forall>n. wants fetch org (f n) (f (Suc n)))"
  from buildable_ends [OF no_chain_buildable [OF assms this]] obtain limit
    where "\<forall>fth k. \<exists>r. make_node fetch org limit fth k e = Inr r" by blast
  then show "\<exists>limit. \<forall>fuel\<ge>limit. \<forall>fth k. \<exists>r. make_node fetch org fuel fth k e = Inr r"
    using make_node_fuel(1) by blast
qed

theorem tree_ends_iff_acyclic_witness:
  "\<nexists>limit. \<forall>fuel\<ge>limit. \<forall>fth k. \<exists>r. make_node (\<lambda>g. Inr [leaf_entry (if o_name g = ''a'' then ''b'' else ''a'')])
     example_org fuel fth k (leaf_entry ''a'') = Inr r"
proof -
  let ?fetch = "\<lambda>g. Inr [leaf_entry (if o_name g = ''a'' then ''b'' else ''a'')] :: ip_entry list res"
  define f where "f n = leaf_entry (if even n then ''a'' else ''b'')" for n :: nat
  have "f 0 = leaf_entry ''a'' \<and> (\<forall>n. wants ?fetch example_org (f n) (f (Suc n)))"
    by (simp add: f_def wants_def example_org_def origin_of_def leaf_entry_def)
  then show ?thesis
    using tree_ends_iff_acyclic [of ?fetch example_org "leaf_entry ''a''"] by auto
qed

subsection \<open>The list that is resolved\<close>





subsection \<open>What the files say\<close>












subsection \<open>The list that is resolved\<close>



















subsection \<open>Versions that were rejected\<close>

text \<open>
  Complete does not mean minimal: \<open>a\<close> wants \<open>c\<close> at \<open>v1\<close>, which wants \<open>x\<close>, and \<open>b\<close> wants \<open>c\<close> at
  \<open>v2\<close>, which wants nothing.  The user takes \<open>v2\<close>, and \<open>x\<close> stays on the list.
\<close>

definition rejected_fetch :: "origin \<Rightarrow> ip_entry list res" where
  "rejected_fetch g =
     (if o_name g = ''a'' then Inr [leaf_entry ''c''\<lparr>e_commit := PStr ''v1''\<rparr>]
      else if o_name g = ''b'' then Inr [leaf_entry ''c''\<lparr>e_commit := PStr ''v2''\<rparr>]
      else if o_name g = ''c'' \<and> o_commit g = PStr ''v1'' then Inr [leaf_entry ''x''] else Inr [])"

definition rejected_root :: "ip_tree list" where
  "rejected_root = (case make_nodes rejected_fetch example_org 9 None 0 [leaf_entry ''a'', leaf_entry ''b''] of
     Inl _ \<Rightarrow> [] | Inr r \<Rightarrow> snd r)"

definition rejected_list :: "ip_entry list" where
  "rejected_list = (case resolve_deps_conflicts (Some rejected_root) [Line ''2''] of
     Inl _ \<Rightarrow> [] | Inr (es, _) \<Rightarrow> (case es of None \<Rightarrow> [] | Some es \<Rightarrow> es))"

theorem rejected_dependencies_stay:
  "map e_name rejected_list = [''x'', ''c'', ''a'', ''b''] \<and> e_commit (rejected_list ! 1) = PStr ''v2'' \<and>
   concat (map (\<lambda>e. case rejected_fetch (example_org e) of Inl _ \<Rightarrow> [] | Inr ds \<Rightarrow> map e_name ds) rejected_list) = [''c'', ''c'']"
  by (intro conjI) code_simp+

end
