(* ===== verification/Ip_Warnings.thy ===== *)
theory Ip_Warnings imports Ip_Database begin

section \<open>Warnings about shared names\<close>

text \<open>
  What the constructor of \<open>IPDatabase\<close> warns about when it has imported the \<open>src_files.yml\<close> files:
  for the IPs and for the RTL components, the names of sub-IPs that more than one of them uses.
\<close>

definition db_warnings :: "(string list \<Rightarrow> string list) \<Rightarrow> db_options \<Rightarrow> ip_db \<Rightarrow> string list option \<times> string list option" where
  "db_warnings set_list o' db =
     (if opt_skip_scripts o' then (None, None)
      else (duplicate_warning set_list (sub_ip_names (d_ip_dic db)),
            if d_rtl_list db = PNone then None
            else duplicate_warning set_list (sub_ip_names (d_rtl_dic db))))"

subsection \<open>Names used twice\<close>

definition shared_subs :: "(string \<times> ip_config) list \<Rightarrow> string set" where
  "shared_subs dic =
     {n. \<exists>i c j d. (i, c) \<in> set dic \<and> (j, d) \<in> set dic \<and> i \<noteq> j \<and>
         n \<in> set (od_keys (c_sub_ips c)) \<and> n \<in> set (od_keys (c_sub_ips d))}"

lemma count_distinct_list: "distinct xs \<Longrightarrow> count_list xs n = (if n \<in> set xs then 1 else 0)"
  by (induction xs) (auto simp: count_notin)

lemma distinct_count: "distinct xs \<longleftrightarrow> (\<nexists>n. 2 \<le> count_list xs n)"
proof (induction xs)
  case (Cons x xs)
  have x: "2 \<le> count_list (x # xs) x \<longleftrightarrow> x \<in> set xs"
    using count_list_0_iff [of xs x] by (cases "count_list xs x") simp_all
  have other: "count_list (x # xs) n = count_list xs n" if "n \<noteq> x" for n using that by simp
  have less: "2 \<le> count_list xs x \<Longrightarrow> 2 \<le> count_list (x # xs) x" by simp
  have "(\<exists>n. 2 \<le> count_list (x # xs) n) \<longleftrightarrow> x \<in> set xs \<or> (\<exists>n. 2 \<le> count_list xs n)"
    using x other less by metis
  with Cons show ?case by simp
qed simp

lemma count_concat:
  assumes "\<And>x. x \<in> set xs \<Longrightarrow> distinct (f x)"
  shows "count_list (concat (map f xs)) n = length (filter (\<lambda>x. n \<in> set (f x)) xs)"
  using assms
proof (induction xs)
  case (Cons x xs)
  have "count_list (f x) n = (if n \<in> set (f x) then 1 else 0)"
    using Cons.prems [of x] by (simp add: count_distinct_list)
  then show ?case using Cons by simp
qed simp

lemma two_of_distinct:
  assumes "distinct xs"
  shows "2 \<le> length xs \<longleftrightarrow> (\<exists>x\<in>set xs. \<exists>y\<in>set xs. x \<noteq> y)"
proof -
  have "2 \<le> length xs \<longleftrightarrow> \<not> card (set xs) \<le> Suc 0" using distinct_card [OF assms] by auto
  then show ?thesis by (auto simp: card_le_Suc0_iff_eq)
qed

lemma shared_count:
  assumes "dic_wf dic"
  shows "{n. 2 \<le> count_list (sub_ip_names dic) n} = shared_subs dic"
proof -
  have keys: "distinct (map fst dic)" using assms by (simp add: dic_wf_def od_keys_def)
  have subs: "distinct (od_keys (c_sub_ips c))" if "(i, c) \<in> set dic" for i c
    using assms that by (auto simp: dic_wf_def ip_wf_def od_keys_def)
  have same: "c = d" if "(i, c) \<in> set dic" "(i, d) \<in> set dic" for i c d
    using keys that by (metis Some_eq_map_of_iff option.inject)
  have "count_list (sub_ip_names dic) n = length (filter (\<lambda>(i, c). n \<in> set (od_keys (c_sub_ips c))) dic)" for n
    using count_concat [of dic "\<lambda>(i, c). od_keys (c_sub_ips c)" n] subs
    by (auto simp: sub_ip_names_def case_prod_unfold)
  moreover have "distinct (filter (\<lambda>(i, c). n \<in> set (od_keys (c_sub_ips c))) dic)" for n
    using keys by (simp add: distinct_map)
  ultimately have "2 \<le> count_list (sub_ip_names dic) n \<longleftrightarrow>
      (\<exists>p\<in>set (filter (\<lambda>(i, c). n \<in> set (od_keys (c_sub_ips c))) dic).
       \<exists>q\<in>set (filter (\<lambda>(i, c). n \<in> set (od_keys (c_sub_ips c))) dic). p \<noteq> q)" for n
    using two_of_distinct [of "filter (\<lambda>(i, c). n \<in> set (od_keys (c_sub_ips c))) dic"] by simp
  moreover have "(\<exists>p\<in>set (filter (\<lambda>(i, c). n \<in> set (od_keys (c_sub_ips c))) dic).
       \<exists>q\<in>set (filter (\<lambda>(i, c). n \<in> set (od_keys (c_sub_ips c))) dic). p \<noteq> q) \<longleftrightarrow> n \<in> shared_subs dic" for n
    unfolding shared_subs_def using same by (simp add: Bex_def split_paired_Ex) blast
  ultimately show ?thesis by blast
qed

text \<open>A warning that names exactly the given names, each once, and is not given when there are none.\<close>

definition warns_of :: "string set \<Rightarrow> string list option \<Rightarrow> bool" where
  "warns_of N w = (case w of None \<Rightarrow> N = {} | Some ws \<Rightarrow> N \<noteq> {} \<and> distinct ws \<and> set ws = N)"

lemma duplicate_warning_shared:
  assumes "\<And>l. set (set_list l) = set l" and "\<And>l. distinct (set_list l)" and "dic_wf dic"
  shows "warns_of (shared_subs dic) (duplicate_warning set_list (sub_ip_names dic))"
proof -
  let ?names = "sub_ip_names dic"
  note exact = duplicate_warning_exact [of set_list ?names, OF assms(1,2)]
  have "distinct ?names \<longleftrightarrow> shared_subs dic = {}"
    using distinct_count [of ?names] shared_count [OF assms(3)] by auto
  with exact shared_count [OF assms(3)] show ?thesis
    by (auto simp: warns_of_def split: option.splits)
qed

lemma no_rtl_list:
  assumes "db_init env o' inp = Inr db" and "d_rtl_list db = PNone"
  shows "d_rtl_dic db = []"
proof -
  from assms(1) obtain db1 db2 where 1: "init_lists env o' inp = Inr db1"
    and 2: "(if opt_load_cache o' then load_database env ''.cached_ipdb.json'' db1 else Inr db1) = Inr db2"
    and 3: "(if opt_skip_scripts o' then Inr db2 else res_bind (import_ips env o' db2) (import_rtl env o')) = Inr db"
    by (auto simp: db_init_def res_bind_Inr_iff)
  have empty: "d_rtl_dic db2 = []"
    using init_lists_dics [OF 1] load_database_dics 2 by (auto split: if_splits)
  have keep: "relist v xs = PNone \<longleftrightarrow> v = PNone" for v xs by (cases v) simp_all
  show ?thesis
  proof (cases "opt_skip_scripts o'")
    case False
    with 3 obtain db3 where ip: "import_ips env o' db2 = Inr db3" and rtl: "import_rtl env o' db3 = Inr db"
      by (auto simp: res_bind_Inr_iff)
    from ip have "d_rtl_dic db3 = []" using empty by (auto simp: import_ips_def res_map_Inr_iff)
    moreover have "d_rtl_list db3 = PNone"
      using rtl assms(2) keep by (fastforce simp: import_rtl_def res_map_Inr_iff split: if_splits)
    ultimately show ?thesis using rtl by (simp add: import_rtl_def)
  qed (use 3 empty in simp)
qed

text \<open>Property C11. Names that clash are noticed.  After the constructor has imported the sources, it warns
  about the IPs exactly when two of them have a sub-IP of the same name, and then lists each such name
  once and no other; and the same for the RTL components, of which there are none without a list.\<close>
theorem shared_names_warned:
  assumes "db_init env o' inp = Inr db" and "\<not> opt_skip_scripts o'"
    and "\<And>l. set (set_list l) = set l" and "\<And>l. distinct (set_list l)"
  shows "warns_of (shared_subs (d_ip_dic db)) (fst (db_warnings set_list o' db)) \<and>
         warns_of (shared_subs (d_rtl_dic db)) (snd (db_warnings set_list o' db))"
proof -
  have "dic_wf (d_ip_dic db)" "dic_wf (d_rtl_dic db)"
    using db_init_is_wf [OF assms(1)] by (simp_all add: db_wf_def)
  moreover have "warns_of (shared_subs (d_rtl_dic db)) None" if "d_rtl_list db = PNone"
    using no_rtl_list [OF assms(1) that] by (simp add: warns_of_def shared_subs_def)
  ultimately show ?thesis
    using duplicate_warning_shared [of set_list, OF assms(3,4)] assms(2) by (simp add: db_warnings_def)
qed

definition clash_env :: env where
  "clash_env = example_env
     \<lparr>env_read := (\<lambda>f. if f = ''./ips_list.yml'' then Inr ''top''
                       else if f = ''./ips/a/src_files.yml'' \<or> f = ''./ips/b/src_files.yml'' then Inr ''sub'' else Inl OSError),
      env_yaml := (\<lambda>t. if t = ''sub'' then Inr (PDict [(''common'', PDict [(''files'', pstrs [''x.sv''])])])
                       else env_yaml example_env t)\<rparr>"

theorem shared_names_warned_witness:
  "shared_subs (d_ip_dic (the_db (db_init clash_env (example_options False) []))) = {''common''}"
proof -
  let ?db = "the_db (db_init clash_env (example_options False) [])"
  have run: "db_init clash_env (example_options False) [] = Inr ?db" by (rule the_db_Inr) code_simp
  have "fst (db_warnings remdups (example_options False) ?db) = Some [''common'']" by code_simp
  moreover have "\<not> opt_skip_scripts (example_options False)" by (simp add: example_options_def)
  then have "warns_of (shared_subs (d_ip_dic ?db)) (fst (db_warnings remdups (example_options False) ?db))"
    using shared_names_warned [OF run, of remdups] by simp
  ultimately show ?thesis by (simp add: warns_of_def)
qed

end
