(* ===== verification/Ip_Removal.thy ===== *)
theory Ip_Removal imports Ip_Update begin

section \<open>Removal spares changes\<close>

text \<open>
  \<open>IPDatabase.remove_ips\<close> deletes the directories of the IPs, so what matters is when it refuses.  The
  operating system here answers git's questions by directory and remembers which directories were
  cleared; under Python 3 the question itself fails (\<open>reports_fail_on_python3\<close>), so Python 2 is assumed.
\<close>

definition workshop :: "(string \<Rightarrow> bool) \<Rightarrow> (string \<Rightarrow> string list \<Rightarrow> string) \<Rightarrow> string list sys" where
  "workshop dirs out =
     \<lparr>sys_py3 = False, sys_isdir = (\<lambda>w. dirs), sys_run = (\<lambda>w d cmd. (w, Some (0, out d cmd))),
      sys_clear = (\<lambda>w d. (w @ [d], Inr ())), sys_removedirs = (\<lambda>w d. None)\<rparr>"

lemma workshop_simps [simp]:
  "execute_out (workshop dirs out) st cmd = (st, Inr (out (snd st) (split_ws cmd)))"
  "chdir (workshop dirs out) st p =
     (if dirs (abspath (snd st) p) then ((fst st, abspath (snd st) p), Inr ()) else (st, Inl OSError))"
  "out_lines (workshop dirs out) s = Inr (split_on (CHR ''\<newline>'') s)"
  "sys_clear (workshop dirs out) w d = (w @ [d], Inr ())" "sys_removedirs (workshop dirs out) w d = None"
  by (cases st; simp add: workshop_def execute_out_def run_command_def chdir_def out_lines_def Let_def)+












end
